(* ===== verification/Prelude.thy ===== *)
theory Prelude
  imports Main "HOL-Library.Word"
begin

text \<open>
  Shared vocabulary of the development: the machine-integer types of the C++ code, the
  little-endian loads and stores through which the code reads packet headers, the host/network
  byte-order conversions, and the generic list and option facts that the component theories use.

  The program is built for x86 (\<^verbatim>\<open>-march=native\<close>, DPDK), so a load of a
  \<^verbatim>\<open>uint16_t\<close> from a packet is a little-endian load and \<^verbatim>\<open>ntohs\<close> swaps the two bytes.
\<close>

unbundle bit_operations_syntax

section \<open>Machine integers\<close>

type_synonym u8 = "8 word"
type_synonym u16 = "16 word"
type_synonym u32 = "32 word"
type_synonym u64 = "64 word"
type_synonym bytes = "8 word list"

named_theorems byte_simps \<open>loads, stores and byte-order conversions\<close>
named_theorems frame_simps \<open>fields that an operation leaves alone\<close>

definition le16 :: "u8 \<Rightarrow> u8 \<Rightarrow> u16" where
  "le16 a b = of_nat (unat a + 256 * unat b)"

definition lo8 :: "u16 \<Rightarrow> u8" where
  "lo8 w = of_nat (unat w mod 256)"

definition hi8 :: "u16 \<Rightarrow> u8" where
  "hi8 w = of_nat (unat w div 256)"

definition lo16 :: "u32 \<Rightarrow> u16" where
  "lo16 w = of_nat (unat w mod 65536)"

definition hi16 :: "u32 \<Rightarrow> u16" where
  "hi16 w = of_nat (unat w div 65536)"

definition le32 :: "u16 \<Rightarrow> u16 \<Rightarrow> u32" where
  "le32 l h = of_nat (unat l + 65536 * unat h)"

text \<open>\<^verbatim>\<open>ntohs\<close>, \<^verbatim>\<open>htons\<close>, \<^verbatim>\<open>rte_be_to_cpu_16\<close>, \<^verbatim>\<open>rte_cpu_to_be_16\<close>: on a little-endian
  host all four exchange the two bytes.\<close>

definition bswap16 :: "u16 \<Rightarrow> u16" where
  "bswap16 w = le16 (hi8 w) (lo8 w)"

definition bswap32 :: "u32 \<Rightarrow> u32" where
  "bswap32 w = le32 (bswap16 (hi16 w)) (bswap16 (lo16 w))"

abbreviation ntohs :: "u16 \<Rightarrow> u16" where "ntohs \<equiv> bswap16"
abbreviation htons :: "u16 \<Rightarrow> u16" where "htons \<equiv> bswap16"
abbreviation ntohl :: "u32 \<Rightarrow> u32" where "ntohl \<equiv> bswap32"
abbreviation htonl :: "u32 \<Rightarrow> u32" where "htonl \<equiv> bswap32"

lemma unat_u8 [simp]: "unat (x :: u8) < 256"
  using unsigned_less [of x] by simp

lemma unat_u16 [simp]: "unat (x :: u16) < 65536"
  using unsigned_less [of x] by simp

lemma unat_u32 [simp]: "unat (x :: u32) < 4294967296"
  using unsigned_less [of x] by simp

lemma unat_le16: "unat (le16 a b) = unat a + 256 * unat b"
proof -
  have "unat a + 256 * unat b < 65536"
    using unat_u8 [of a] unat_u8 [of b] by linarith
  then show ?thesis unfolding le16_def by (simp only: unsigned_of_nat) (simp add: take_bit_nat_eq_self)
qed

lemma unat_lo8: "unat (lo8 w) = unat w mod 256"
  by (simp add: lo8_def unat_of_nat)

lemma unat_hi8: "unat (hi8 w) = unat w div 256"
proof -
  have "unat w div 256 < 256" using unat_u16 [of w] by (simp add: div_less_iff_less_mult)
  then show ?thesis by (simp add: hi8_def unat_of_nat)
qed

lemma unat_lo16: "unat (lo16 w) = unat w mod 65536"
  by (simp add: lo16_def unat_of_nat)

lemma unat_hi16: "unat (hi16 w) = unat w div 65536"
proof -
  have "unat w div 65536 < 65536" using unat_u32 [of w] by (simp add: div_less_iff_less_mult)
  then show ?thesis by (simp add: hi16_def unat_of_nat)
qed

lemma unat_le32: "unat (le32 l h) = unat l + 65536 * unat h"
proof -
  have "unat l + 65536 * unat h < 4294967296"
    using unat_u16 [of l] unat_u16 [of h] by linarith
  then show ?thesis unfolding le32_def by (simp only: unsigned_of_nat) (simp add: take_bit_nat_eq_self)
qed

lemmas unat_bytes = unat_le16 unat_lo8 unat_hi8 unat_lo16 unat_hi16 unat_le32

lemma le16_split [byte_simps]: "le16 (lo8 w) (hi8 w) = w"
  by (rule word_unat_eq_iff [THEN iffD2]) (simp add: unat_bytes)

lemma lo8_le16 [byte_simps]: "lo8 (le16 a b) = a"
  by (rule word_unat_eq_iff [THEN iffD2]) (simp add: unat_bytes)

lemma hi8_le16 [byte_simps]: "hi8 (le16 a b) = b"
  by (rule word_unat_eq_iff [THEN iffD2]) (simp add: unat_bytes)

lemma le32_split [byte_simps]: "le32 (lo16 w) (hi16 w) = w"
  by (rule word_unat_eq_iff [THEN iffD2]) (simp add: unat_bytes)

lemma lo16_le32 [byte_simps]: "lo16 (le32 l h) = l"
  by (rule word_unat_eq_iff [THEN iffD2]) (simp add: unat_bytes)

lemma hi16_le32 [byte_simps]: "hi16 (le32 l h) = h"
  by (rule word_unat_eq_iff [THEN iffD2]) (simp add: unat_bytes)

lemma bswap16_invol [simp, byte_simps]: "bswap16 (bswap16 w) = w"
  by (simp add: bswap16_def byte_simps)

lemma bswap32_invol [simp, byte_simps]: "bswap32 (bswap32 w) = w"
  by (simp add: bswap32_def byte_simps)

lemma bswap16_eq_iff [simp]: "bswap16 a = bswap16 b \<longleftrightarrow> a = b"
  by (metis bswap16_invol)

end
