(* ===== verification/Net_Types.thy ===== *)
theory Net_Types
  imports Prelude
begin

text \<open>
  The data shared by every component: \<^verbatim>\<open>include/common/types.h\<close> (five-tuples, MAC addresses,
  packet metadata), the constants and configuration structures of \<^verbatim>\<open>include/common/config.h\<close>
  that the data plane reads, and the two-entry routing table of \<^verbatim>\<open>include/net/route.h\<close>.
  Addresses and ports are kept in network byte order exactly where the code keeps them so.
\<close>

section \<open>Addresses and five-tuples\<close>

type_synonym ipv4_addr = u32
type_synonym port_be = u16
type_synonym mac_addr = bytes

definition mac_zero :: mac_addr where
  "mac_zero = replicate 6 0"

definition mac_is_zero :: "mac_addr \<Rightarrow> bool" where
  "mac_is_zero m = list_all (\<lambda>b. b = 0) m"

record five_tuple =
  src_ip :: ipv4_addr
  dst_ip :: ipv4_addr
  src_port :: port_be
  dst_port :: port_be
  protocol :: u8

definition FiveTuple :: "ipv4_addr \<Rightarrow> ipv4_addr \<Rightarrow> port_be \<Rightarrow> port_be \<Rightarrow> u8 \<Rightarrow> five_tuple" where
  "FiveTuple sip dip sp dp proto =
     \<lparr>src_ip = sip, dst_ip = dip, src_port = sp, dst_port = dp, protocol = proto\<rparr>"

definition five_tuple_zero :: five_tuple where
  "five_tuple_zero = FiveTuple 0 0 0 0 0"

definition reverse :: "five_tuple \<Rightarrow> five_tuple" where
  "reverse t = FiveTuple (dst_ip t) (src_ip t) (dst_port t) (src_port t) (protocol t)"

definition tuple_words :: "five_tuple \<Rightarrow> u32 \<times> u32 \<times> u32" where
  "tuple_words t =
     (src_ip t, dst_ip t,
      push_bit 16 (ucast (src_port t)) XOR ucast (dst_port t) XOR push_bit 8 (ucast (protocol t)))"

definition five_tuple_hash :: "five_tuple \<Rightarrow> u64" where
  "five_tuple_hash t =
     (let p = 1099511628211;
          h = 14695981039346656037;
          h = (h XOR ucast (src_ip t)) * p;
          h = (h XOR ucast (dst_ip t)) * p;
          h = (h XOR ucast (src_port t)) * p;
          h = (h XOR ucast (dst_port t)) * p;
          h = (h XOR ucast (protocol t)) * p
      in h)"

lemma FiveTuple_sel [simp]:
  "src_ip (FiveTuple a b c d e) = a" "dst_ip (FiveTuple a b c d e) = b"
  "src_port (FiveTuple a b c d e) = c" "dst_port (FiveTuple a b c d e) = d"
  "protocol (FiveTuple a b c d e) = e"
  by (simp_all add: FiveTuple_def)

lemma FiveTuple_eta [simp]:
  "FiveTuple (src_ip t) (dst_ip t) (src_port t) (dst_port t) (protocol t) = t"
  by (simp add: FiveTuple_def)

lemma reverse_sel [simp]:
  "src_ip (reverse t) = dst_ip t" "dst_ip (reverse t) = src_ip t"
  "src_port (reverse t) = dst_port t" "dst_port (reverse t) = src_port t"
  "protocol (reverse t) = protocol t"
  by (simp_all add: reverse_def)

lemma reverse_reverse [simp]: "reverse (reverse t) = t"
  by (simp add: reverse_def)

section \<open>Packet metadata\<close>

record packet_meta =
  pm_src_mac :: mac_addr
  pm_dst_mac :: mac_addr
  pm_ether_type :: u16
  pm_src_ip :: ipv4_addr
  pm_dst_ip :: ipv4_addr
  pm_ip_protocol :: u8
  pm_ip_ttl :: u8
  pm_src_port :: port_be
  pm_dst_port :: port_be
  pm_tcp_flags :: u8
  pm_l2_offset :: nat
  pm_l3_offset :: nat
  pm_l4_offset :: nat
  pm_payload_offset :: nat
  pm_total_len :: nat
  pm_payload_len :: nat

definition to_five_tuple :: "packet_meta \<Rightarrow> five_tuple" where
  "to_five_tuple m =
     FiveTuple (pm_src_ip m) (pm_dst_ip m) (pm_src_port m) (pm_dst_port m) (pm_ip_protocol m)"

section \<open>Configuration data\<close>

datatype forward_mode = NAT | DR
datatype scheduler_type = WRR | MAGLEV
datatype dataplane_mode = RTC | PIPELINE

definition kNatPortMin :: nat where "kNatPortMin = 10000"
definition kNatPortMax :: nat where "kNatPortMax = 60000"
definition kHcPortMin :: nat where "kHcPortMin = 61000"
definition kHcPortMax :: nat where "kHcPortMax = 61999"
definition kMaxServices :: nat where "kMaxServices = 64"
definition kMaxRsPerService :: nat where "kMaxRsPerService = 256"
definition kMaxLocalIps :: nat where "kMaxLocalIps = 64"

lemmas port_range_defs = kNatPortMin_def kNatPortMax_def kHcPortMin_def kHcPortMax_def

record rs_conf =
  rc_ip :: ipv4_addr
  rc_port :: u16
  rc_weight :: nat
  rc_mac :: mac_addr

definition rs_conf_default :: rs_conf where
  "rs_conf_default = \<lparr>rc_ip = 0, rc_port = 0, rc_weight = 1, rc_mac = mac_zero\<rparr>"

record service_conf =
  sc_name :: string
  sc_vip :: ipv4_addr
  sc_port :: u16
  sc_proto :: u8
  sc_sched :: scheduler_type
  sc_rs :: "rs_conf list"

definition service_conf_default :: service_conf where
  "service_conf_default =
     \<lparr>sc_name = '''', sc_vip = 0, sc_port = 0, sc_proto = 6, sc_sched = WRR, sc_rs = []\<rparr>"

record timeout_conf =
  to_tcp_syn :: nat
  to_tcp_established :: nat
  to_tcp_fin :: nat
  to_tcp_timewait :: nat
  to_tcp_close :: nat
  to_udp :: nat

definition timeout_conf_default :: timeout_conf where
  "timeout_conf_default =
     \<lparr>to_tcp_syn = 10, to_tcp_established = 900, to_tcp_fin = 10, to_tcp_timewait = 10,
      to_tcp_close = 5, to_udp = 60\<rparr>"

record health_conf =
  hcf_enabled :: bool
  hcf_interval_ms :: nat
  hcf_timeout_ms :: nat
  hcf_fall :: nat
  hcf_rise :: nat

definition health_conf_default :: health_conf where
  "health_conf_default =
     \<lparr>hcf_enabled = False, hcf_interval_ms = 5000, hcf_timeout_ms = 3000, hcf_fall = 3, hcf_rise = 2\<rparr>"

record lb_config =
  lb_mode :: forward_mode
  lb_log_level :: string
  lb_log_dir :: string
  lb_log_max_size_mb :: nat
  lb_log_max_files :: nat
  lb_log_stderr :: bool
  lb_stats_interval :: nat
  lb_max_sessions :: nat
  lb_timeouts :: timeout_conf
  lb_toa :: bool
  lb_strip_tcp_timestamp :: bool
  lb_force_sw_steering :: bool
  lb_dataplane :: dataplane_mode
  lb_vip_mac :: mac_addr
  lb_netmask :: ipv4_addr
  lb_gateway :: ipv4_addr
  lb_local_ips :: "ipv4_addr list"
  lb_hc_src :: ipv4_addr
  lb_health :: health_conf
  lb_control_socket :: string
  lb_services :: "service_conf list"

definition lb_config_default :: lb_config where
  "lb_config_default =
     \<lparr>lb_mode = NAT, lb_log_level = ''info'', lb_log_dir = '''', lb_log_max_size_mb = 100, lb_log_max_files = 5,
      lb_log_stderr = True, lb_stats_interval = 10, lb_max_sessions = 1048576, lb_timeouts = timeout_conf_default,
      lb_toa = False, lb_strip_tcp_timestamp = True, lb_force_sw_steering = False, lb_dataplane = RTC,
      lb_vip_mac = mac_zero, lb_netmask = 0, lb_gateway = 0, lb_local_ips = [], lb_hc_src = 0,
      lb_health = health_conf_default, lb_control_socket = ''/run/l4lb.sock'', lb_services = []\<rparr>"

section \<open>Route\<close>

record route =
  rt_netmask :: ipv4_addr
  rt_network :: ipv4_addr
  rt_gateway :: ipv4_addr

definition route_init :: "ipv4_addr \<Rightarrow> ipv4_addr \<Rightarrow> ipv4_addr \<Rightarrow> route" where
  "route_init local_ip msk gw =
     \<lparr>rt_netmask = msk, rt_network = local_ip AND msk, rt_gateway = gw\<rparr>"

definition on_link :: "route \<Rightarrow> ipv4_addr \<Rightarrow> bool" where
  "on_link r ip \<longleftrightarrow> rt_netmask r = 0 \<or> (ip AND rt_netmask r) = rt_network r"

definition next_hop :: "route \<Rightarrow> ipv4_addr \<Rightarrow> ipv4_addr" where
  "next_hop r dst = (if on_link r dst then dst else rt_gateway r)"

lemma on_link_init_local: "on_link (route_init ip msk gw) ip"
  by (simp add: on_link_def route_init_def)

end
