(* ===== verification/C_Text.thy ===== *)
theory C_Text
  imports Net_Types "HOL-Library.Char_ord" "HOL-Library.List_Lexorder" "HOL-Library.Monad_Syntax"
begin

text \<open>
  The text functions of the C and C++ libraries that the configuration and the control interface use, in the
  \<^verbatim>\<open>"C"\<close> locale, and the conversions of addresses in \<^verbatim>\<open>src/common/types.cpp\<close>.

  A \<^verbatim>\<open>std::string\<close> is a list of characters and may hold NUL; \<open>c_str\<close> is what a C function sees of it.
  \<^verbatim>\<open>strtoul\<close> returns the number, the unread rest and whether the number was out of the range of
  \<^verbatim>\<open>unsigned long\<close>. A \<^verbatim>\<open>std::map\<close> is an association list in the order of its keys.
\<close>

section \<open>Characters\<close>

definition code :: "char \<Rightarrow> nat" where
  "code c = of_char c"

definition isspace :: "char \<Rightarrow> bool" where
  "isspace c \<longleftrightarrow> code c = 32 \<or> 9 \<le> code c \<and> code c \<le> 13"

definition isdigit :: "char \<Rightarrow> bool" where
  "isdigit c \<longleftrightarrow> 48 \<le> code c \<and> code c \<le> 57"

definition tolower :: "char \<Rightarrow> char" where
  "tolower c = (if 65 \<le> code c \<and> code c \<le> 90 then char_of (code c + 32) else c)"

text \<open>The value of a character as a digit of base 10 or 16; 99 when it is none.\<close>

definition digit_value :: "char \<Rightarrow> nat" where
  "digit_value c = (if isdigit c then code c - 48
     else if 65 \<le> code c \<and> code c \<le> 70 then code c - 55
     else if 97 \<le> code c \<and> code c \<le> 102 then code c - 87 else 99)"

definition is_digit_of :: "nat \<Rightarrow> char \<Rightarrow> bool" where
  "is_digit_of base c \<longleftrightarrow> digit_value c < base"

definition digit_char :: "nat \<Rightarrow> char" where
  "digit_char d = char_of (if d < 10 then 48 + d else 55 + d)"

definition c_str :: "string \<Rightarrow> string" where
  "c_str s = takeWhile (\<lambda>c. code c \<noteq> 0) s"

section \<open>Strings\<close>

definition trim :: "string \<Rightarrow> string" where
  "trim s = rev (dropWhile isspace (rev (dropWhile isspace s)))"

definition to_lower :: "string \<Rightarrow> string" where
  "to_lower s = map tolower s"

text \<open>The pieces that repeated \<^verbatim>\<open>std::getline\<close> yields: a separator at the end does not start a new piece.\<close>

function getlines :: "char \<Rightarrow> string \<Rightarrow> string list" where
  "getlines sep s = (if s = [] then []
     else takeWhile (\<lambda>c. c \<noteq> sep) s # getlines sep (drop 1 (dropWhile (\<lambda>c. c \<noteq> sep) s)))"
  by pat_completeness auto
termination
proof (relation "measure (\<lambda>(_, s). length s)", simp)
  fix sep :: char and s :: string
  assume "s \<noteq> []"
  moreover have "length (dropWhile (\<lambda>c. c \<noteq> sep) s) \<le> length s" by (rule length_dropWhile_le)
  ultimately show "((sep, drop 1 (dropWhile (\<lambda>c. c \<noteq> sep) s)), (sep, s)) \<in> measure (\<lambda>(_, s). length s)"
    by (cases s) (auto simp: le_imp_less_Suc)
qed

definition split_str :: "string \<Rightarrow> char \<Rightarrow> string list" where
  "split_str s sep = filter (\<lambda>p. p \<noteq> []) (map trim (getlines sep s))"

definition starts_with :: "string \<Rightarrow> string \<Rightarrow> bool" where
  "starts_with s p \<longleftrightarrow> take (length p) s = p"

section \<open>Numbers\<close>

definition ULONG_MAX :: nat where
  "ULONG_MAX = 18446744073709551615"

definition digits_value :: "nat \<Rightarrow> string \<Rightarrow> nat" where
  "digits_value base ds = foldl (\<lambda>v c. v * base + digit_value c) 0 ds"

definition skip_sign :: "string \<Rightarrow> string" where
  "skip_sign s = (case s of [] \<Rightarrow> [] | c # cs \<Rightarrow> if c = CHR ''-'' \<or> c = CHR ''+'' then cs else s)"

definition skip_0x :: "string \<Rightarrow> string" where
  "skip_0x s = (case s of z # x # d # r \<Rightarrow>
       if z = CHR ''0'' \<and> tolower x = CHR ''x'' \<and> is_digit_of 16 d then d # r else s
     | _ \<Rightarrow> s)"

definition strtoul :: "nat \<Rightarrow> string \<Rightarrow> nat \<times> string \<times> bool" where
  "strtoul base s =
     (let t = dropWhile isspace s;
          neg = (t \<noteq> [] \<and> hd t = CHR ''-'');
          u = skip_sign t;
          w = (if base = 16 then skip_0x u else u);
          ds = takeWhile (is_digit_of base) w;
          r = dropWhile (is_digit_of base) w;
          v = digits_value base ds
      in if ds = [] then (0, s, False)
         else if v > ULONG_MAX then (ULONG_MAX, r, True)
         else (if neg then (ULONG_MAX + 1 - v) mod (ULONG_MAX + 1) else v, r, False))"

fun to_string :: "nat \<Rightarrow> string" where
  "to_string n = (if n < 10 then [digit_char n] else to_string (n div 10) @ [digit_char (n mod 10)])"

section \<open>Addresses\<close>

text \<open>\<^verbatim>\<open>inet_pton (AF_INET)\<close>: four decimal numbers up to 255 without leading zeros, separated by dots. The
  second argument holds the numbers that are complete, the third the one being read.\<close>

fun inet_pton_from :: "string \<Rightarrow> nat list \<Rightarrow> nat option \<Rightarrow> nat list option" where
  "inet_pton_from [] octs (Some v) = (if length octs = 3 then Some (octs @ [v]) else None)"
| "inet_pton_from [] octs None = None"
| "inet_pton_from (c # cs) octs cur =
     (if isdigit c then
        (case cur of None \<Rightarrow> inet_pton_from cs octs (Some (digit_value c))
         | Some v \<Rightarrow> if v = 0 \<or> v * 10 + digit_value c > 255 then None
                    else inet_pton_from cs octs (Some (v * 10 + digit_value c)))
      else if c = CHR ''.'' then
        (case cur of None \<Rightarrow> None
         | Some v \<Rightarrow> if length octs = 3 then None else inet_pton_from cs (octs @ [v]) None)
      else None)"

definition parse_ipv4 :: "string \<Rightarrow> ipv4_addr option" where
  "parse_ipv4 s =
     (case inet_pton_from (c_str s) [] None of
        Some [a, b, c, d] \<Rightarrow> Some (le32 (le16 (of_nat a) (of_nat b)) (le16 (of_nat c) (of_nat d)))
      | _ \<Rightarrow> None)"

definition ip_from_string :: "string \<Rightarrow> ipv4_addr" where
  "ip_from_string s = (case parse_ipv4 s of Some ip \<Rightarrow> ip | None \<Rightarrow> 0)"

definition ip_to_string :: "ipv4_addr \<Rightarrow> string" where
  "ip_to_string ip =
     to_string (unat (lo8 (lo16 ip))) @ CHR ''.'' # to_string (unat (hi8 (lo16 ip))) @ CHR ''.'' #
     to_string (unat (lo8 (hi16 ip))) @ CHR ''.'' # to_string (unat (hi8 (hi16 ip)))"

text \<open>\<^verbatim>\<open>sscanf\<close> with \<^verbatim>\<open>%x\<close>: the number is stored into an \<^verbatim>\<open>unsigned int\<close>, which keeps its low 32 bits.\<close>

definition scan_hex :: "string \<Rightarrow> (nat \<times> string) option" where
  "scan_hex s = (case strtoul 16 s of (v, r, _) \<Rightarrow> if r = s then None else Some (v mod 4294967296, r))"

fun scan_fields :: "nat \<Rightarrow> string \<Rightarrow> nat list option" where
  "scan_fields 0 s = None"
| "scan_fields (Suc n) s =
     (case scan_hex s of None \<Rightarrow> None
      | Some (v, r) \<Rightarrow>
          if n = 0 then (if r = [] then Some [v] else None)
          else if r \<noteq> [] \<and> hd r = CHR '':'' then map_option (\<lambda>vs. v # vs) (scan_fields n (tl r))
          else None)"

definition parse_mac :: "string \<Rightarrow> mac_addr option" where
  "parse_mac s =
     (case scan_fields 6 (c_str s) of None \<Rightarrow> None
      | Some vs \<Rightarrow> if list_all (\<lambda>v. v \<le> 255) vs then Some (map of_nat vs) else None)"

definition mac_from_string :: "string \<Rightarrow> mac_addr" where
  "mac_from_string s = (case parse_mac s of Some m \<Rightarrow> m | None \<Rightarrow> mac_zero)"

definition hex_byte :: "u8 \<Rightarrow> string" where
  "hex_byte b = [digit_char (unat b div 16), digit_char (unat b mod 16)]"

definition mac_to_string :: "mac_addr \<Rightarrow> string" where
  "mac_to_string m =
     hex_byte (m ! 0) @ CHR '':'' # hex_byte (m ! 1) @ CHR '':'' # hex_byte (m ! 2) @ CHR '':'' #
     hex_byte (m ! 3) @ CHR '':'' # hex_byte (m ! 4) @ CHR '':'' # hex_byte (m ! 5)"

section \<open>Ordered maps\<close>

fun map_put :: "'k::linorder \<Rightarrow> 'v \<Rightarrow> ('k \<times> 'v) list \<Rightarrow> ('k \<times> 'v) list" where
  "map_put k v [] = [(k, v)]"
| "map_put k v ((k', v') # m) =
     (if k < k' then (k, v) # (k', v') # m else if k = k' then (k, v) # m else (k', v') # map_put k v m)"

declare to_string.simps [simp del] getlines.simps [simp del]

lemma map_of_put [simp]: "map_of (map_put k v m) = (map_of m)(k \<mapsto> v)"
  by (induction k v m rule: map_put.induct) auto

lemma set_map_put: "set (map_put k v m) \<subseteq> insert (k, v) (set m)"
  by (induction k v m rule: map_put.induct) auto

section \<open>Reading back what was printed\<close>

lemma char_of_code [simp]: "n < 256 \<Longrightarrow> code (char_of n) = n"
  by (simp add: code_def of_char_of)

lemma below_16:
  fixes d :: nat
  assumes "d < 16"
  shows "d \<in> {0, 1, 2, 3, 4, 5, 6, 7, 8, 9, 10, 11, 12, 13, 14, 15}"
  using assms by (simp, arith)

lemma digit_char_value [simp]: "d < 16 \<Longrightarrow> digit_value (digit_char d) = d"
  using below_16 [of d] by (auto simp: digit_value_def digit_char_def isdigit_def)

lemma digit_char_code: "d < 16 \<Longrightarrow> 48 \<le> code (digit_char d) \<and> code (digit_char d) \<noteq> 58"
  using below_16 [of d] by (auto simp: digit_char_def)

lemma isdigit_digit_char [simp]: "d < 10 \<Longrightarrow> isdigit (digit_char d)"
  by (simp add: isdigit_def digit_char_def)

lemma is_digit_of_digit_char [simp]: "d < 16 \<Longrightarrow> is_digit_of 16 (digit_char d)"
  by (simp add: is_digit_of_def)

lemma octet_digits:
  fixes n :: nat
  assumes "n < 256"
  shows "to_string n = (if n < 10 then [digit_char n]
           else if n < 100 then [digit_char (n div 10), digit_char (n mod 10)]
           else [digit_char (n div 100), digit_char (n div 10 mod 10), digit_char (n mod 10)])"
proof -
  have "n div 10 div 10 = n div 100" by (simp flip: div_mult2_eq)
  moreover have "n div 100 < 10" "n div 10 < 10 \<longleftrightarrow> n < 100" using assms by auto
  ultimately show ?thesis
    by (simp add: to_string.simps [of n] to_string.simps [of "n div 10"] to_string.simps [of "n div 100"])
qed

lemma inet_pton_octet:
  fixes n :: nat
  assumes "n < 256"
  shows "inet_pton_from (to_string n @ r) octs None = inet_pton_from r octs (Some n)"
proof -
  have "n div 10 * 10 + n mod 10 = n" "n div 100 * 10 + n div 10 mod 10 = n div 10" "n div 10 mod 10 < 10"
    using assms by (auto simp: div_mult2_eq [of n 10 10, simplified])
  then show ?thesis using assms by (auto simp: octet_digits)
qed

lemma c_str_ascii: "list_all (\<lambda>c. 0 < code c) s \<Longrightarrow> c_str s = s"
  unfolding c_str_def by (induction s) auto

lemma to_string_ascii: "list_all (\<lambda>c. 0 < code c) (to_string n)"
proof (induction n rule: less_induct)
  case (less n)
  have "0 < code (digit_char (n mod 10))" "n < 10 \<Longrightarrow> 0 < code (digit_char n)"
    using digit_char_code [of "n mod 10"] digit_char_code [of n] by fastforce+
  with less [of "n div 10"] show ?case by (subst to_string.simps) (simp add: list_all_append)
qed

lemma separator_codes [simp]: "code CHR ''.'' = 46" "code CHR '':'' = 58"
  by (simp_all add: code_def)

lemma parse_ip_to_string: "parse_ipv4 (ip_to_string ip) = Some ip"
proof -
  have "c_str (ip_to_string ip) = ip_to_string ip"
    by (rule c_str_ascii) (simp add: ip_to_string_def list_all_append to_string_ascii)
  moreover have "\<not> isdigit CHR ''.''" by (simp add: isdigit_def)
  ultimately have "inet_pton_from (c_str (ip_to_string ip)) [] None =
      Some [unat (lo8 (lo16 ip)), unat (hi8 (lo16 ip)), unat (lo8 (hi16 ip)), unat (hi8 (hi16 ip))]"
    using inet_pton_octet [of "unat (hi8 (hi16 ip))" "[]"] by (simp add: ip_to_string_def inet_pton_octet)
  then show ?thesis by (simp add: parse_ipv4_def le16_split le32_split)
qed

lemma digit_char_plain:
  assumes "d < 16"
  shows "\<not> isspace (digit_char d)" "digit_char d \<noteq> CHR ''-''" "digit_char d \<noteq> CHR ''+''"
    "tolower (digit_char d) \<noteq> CHR ''x''" "0 < code (digit_char d)"
proof -
  have c: "48 \<le> code (digit_char d) \<and> code (digit_char d) \<le> 57 \<or> 65 \<le> code (digit_char d) \<and> code (digit_char d) \<le> 70"
    using assms by (simp add: digit_char_def)
  then show "\<not> isspace (digit_char d)" "0 < code (digit_char d)" by (auto simp: isspace_def)
  show "digit_char d \<noteq> CHR ''-''" "digit_char d \<noteq> CHR ''+''" using c by (auto simp: code_def)
  have "code (tolower (digit_char d)) \<le> 102" using c by (auto simp: tolower_def)
  then show "tolower (digit_char d) \<noteq> CHR ''x''" by (auto simp: code_def)
qed

lemma high_nibble [simp]: "unat (x :: u8) div 16 < 16"
  by (rule less_mult_imp_div_less) simp

lemma scan_hex_byte:
  assumes "r = [] \<or> hd r = CHR '':''"
  shows "scan_hex (hex_byte b @ r) = Some (unat b, r)"
proof -
  define x where "x = unat b div 16"
  define y where "y = unat b mod 16"
  have xy: "x < 16" "y < 16" "unat b = x * 16 + y" unfolding x_def y_def by auto
  have "\<not> is_digit_of 16 CHR '':''" by (simp add: is_digit_of_def digit_value_def isdigit_def)
  then have r: "takeWhile (is_digit_of 16) r = []" "dropWhile (is_digit_of 16) r = r" using assms by (cases r; auto)+
  have h: "hex_byte b @ r = digit_char x # digit_char y # r" by (simp add: hex_byte_def x_def y_def)
  have z: "skip_0x (digit_char x # digit_char y # r) = digit_char x # digit_char y # r"
    using digit_char_plain(4) [OF xy(2)] by (simp add: skip_0x_def split: list.split)
  have "strtoul 16 (hex_byte b @ r) = (unat b, r, False)"
    using xy unat_u8 [of b] unfolding h strtoul_def Let_def
    by (simp add: digit_char_plain r z skip_sign_def digits_value_def ULONG_MAX_def)
  moreover have "r \<noteq> hex_byte b @ r" by (simp add: hex_byte_def)
  moreover have "unat b mod 4294967296 = unat b" using unat_u8 [of b] by (intro mod_less) linarith
  ultimately show ?thesis by (simp add: scan_hex_def)
qed

lemma parse_mac_to_string:
  assumes "length m = 6"
  shows "parse_mac (mac_to_string m) = Some m"
proof -
  obtain a b c d e f where m: "m = [a, b, c, d, e, f]"
    using assms by (auto simp: numeral_eq_Suc length_Suc_conv)
  have "c_str (mac_to_string m) = mac_to_string m"
    by (rule c_str_ascii) (simp add: mac_to_string_def hex_byte_def list_all_append digit_char_plain m)
  moreover have "scan_fields 6 (mac_to_string m) = Some (map unat m)"
    using scan_hex_byte [of "[]" f] by (simp add: mac_to_string_def m scan_hex_byte numeral_eq_Suc)
  moreover have "unat x \<le> 255" for x :: u8 using unat_u8 [of x] by linarith
  ultimately show ?thesis by (simp add: parse_mac_def list_all_iff comp_def)
qed

end
