(* ===== verification/Config.thy ===== *)
theory Config
  imports C_Text
begin

text \<open>
  The configuration, \<^verbatim>\<open>src/common/config.cpp\<close>: reading the sections of the file, turning them into the
  configuration record and validating it.

  \<open>sections_\<close> is a map of maps, in the order of the keys. A \<^verbatim>\<open>get_\<close> function takes the value its target has so
  far and returns the new one, or \<open>None\<close> for \<^verbatim>\<open>return false\<close>; the messages of the log are left out. The file is
  its contents, or \<open>None\<close> when it cannot be opened.
\<close>

type_synonym section_map = "(string \<times> string) list"
type_synonym sections = "(string \<times> section_map) list"

section \<open>The file\<close>

definition section_of :: "sections \<Rightarrow> string \<Rightarrow> section_map" where
  "section_of secs name = (case map_of secs name of Some m \<Rightarrow> m | None \<Rightarrow> [])"

definition sec_touch :: "string \<Rightarrow> sections \<Rightarrow> sections" where
  "sec_touch name secs = map_put name (section_of secs name) secs"

definition sec_put :: "string \<Rightarrow> string \<Rightarrow> string \<Rightarrow> sections \<Rightarrow> sections" where
  "sec_put name key val secs = map_put name (map_put key val (section_of secs name)) secs"

definition parse_line :: "string \<Rightarrow> sections \<times> string \<Rightarrow> (sections \<times> string) option" where
  "parse_line ln st =
     (let line = trim ln; secs = fst st; cur = snd st
      in if line = [] \<or> hd line = CHR ''#'' \<or> hd line = CHR '';'' then Some st
         else if hd line = CHR ''['' then
           (if CHR '']'' \<in> set line then
              (let cur' = to_lower (trim (takeWhile (\<lambda>c. c \<noteq> CHR '']'') (tl line)))
               in Some (sec_touch cur' secs, cur'))
            else None)
         else if CHR ''='' \<notin> set line \<or> cur = [] then None
         else
           (let key = to_lower (trim (takeWhile (\<lambda>c. c \<noteq> CHR ''='') line));
                val = takeWhile (\<lambda>c. c \<noteq> CHR ''#'') (tl (dropWhile (\<lambda>c. c \<noteq> CHR ''='') line))
            in Some (sec_put cur key (trim val) secs, cur)))"

fun parse_lines :: "string list \<Rightarrow> sections \<times> string \<Rightarrow> (sections \<times> string) option" where
  "parse_lines [] st = Some st"
| "parse_lines (ln # lns) st = (case parse_line ln st of None \<Rightarrow> None | Some st' \<Rightarrow> parse_lines lns st')"

definition parse_file :: "string option \<Rightarrow> sections option" where
  "parse_file file =
     (case file of None \<Rightarrow> None
      | Some text \<Rightarrow> map_option fst (parse_lines (getlines CHR 0x0A text) ([], [])))"

section \<open>Typed access\<close>

definition cfg_get :: "sections \<Rightarrow> string \<Rightarrow> string \<Rightarrow> string \<Rightarrow> string" where
  "cfg_get secs name key dflt =
     (case map_of secs name of None \<Rightarrow> dflt
      | Some m \<Rightarrow> (case map_of m key of Some v \<Rightarrow> v | None \<Rightarrow> dflt))"

definition get_u32 :: "sections \<Rightarrow> string \<Rightarrow> string \<Rightarrow> nat \<Rightarrow> nat \<Rightarrow> nat \<Rightarrow> nat option" where
  "get_u32 secs name key out min_val max_val =
     (let v = cfg_get secs name key []
      in if v = [] then Some out
         else (case strtoul 10 (c_str v) of (n, end, erange) \<Rightarrow>
           if erange \<or> end = c_str v \<or> end \<noteq> [] \<or> n < min_val \<or> n > max_val then None else Some n))"

definition get_bool :: "sections \<Rightarrow> string \<Rightarrow> string \<Rightarrow> bool \<Rightarrow> bool option" where
  "get_bool secs name key out =
     (let v = to_lower (cfg_get secs name key [])
      in if v = [] then Some out
         else if v = ''true'' \<or> v = ''yes'' \<or> v = ''1'' \<or> v = ''on'' then Some True
         else if v = ''false'' \<or> v = ''no'' \<or> v = ''0'' \<or> v = ''off'' then Some False
         else None)"

definition get_ip :: "sections \<Rightarrow> string \<Rightarrow> string \<Rightarrow> ipv4_addr \<Rightarrow> ipv4_addr option" where
  "get_ip secs name key out =
     (let v = cfg_get secs name key [] in if v = [] then Some out else parse_ipv4 v)"

section \<open>Services\<close>

definition proto_name :: "u8 \<Rightarrow> string" where
  "proto_name p = (if p = 17 then ''udp'' else ''tcp'')"

definition in_port_range :: "nat \<Rightarrow> nat \<Rightarrow> nat \<Rightarrow> bool" where
  "in_port_range p lo hi \<longleftrightarrow> lo \<le> p \<and> p \<le> hi"

definition parse_port :: "string \<Rightarrow> u16 option" where
  "parse_port s = (case strtoul 10 (c_str s) of (port, end, _) \<Rightarrow>
     if end \<noteq> [] \<or> port = 0 \<or> port > 65535 then None else Some (of_nat port))"

definition parse_weight :: "string \<Rightarrow> nat option" where
  "parse_weight s = (case strtoul 10 (c_str s) of (w, end, _) \<Rightarrow>
     if end \<noteq> [] \<or> w > 65535 then None else Some w)"

definition join_mac :: "string list \<Rightarrow> string" where
  "join_mac parts = foldl (\<lambda>mac p. mac @ CHR '':'' # p) (hd parts) (tl parts)"

definition parse_rs :: "string \<Rightarrow> rs_conf option" where
  "parse_rs val =
     (let parts = split_str val CHR '':''
      in if length parts \<noteq> 2 \<and> length parts \<noteq> 3 \<and> length parts \<noteq> 9 then None
         else do {
           ip \<leftarrow> parse_ipv4 (parts ! 0);
           port \<leftarrow> parse_port (parts ! 1);
           w \<leftarrow> (if length parts \<ge> 3 then parse_weight (parts ! 2) else Some (rc_weight rs_conf_default));
           mac \<leftarrow> (if length parts = 9 then parse_mac (join_mac (drop 3 parts)) else Some (rc_mac rs_conf_default));
           Some \<lparr>rc_ip = ip, rc_port = port, rc_weight = w, rc_mac = mac\<rparr>
         })"

fun parse_rs_list :: "string list \<Rightarrow> rs_conf list option" where
  "parse_rs_list [] = Some []"
| "parse_rs_list (v # vs) = do { rs \<leftarrow> parse_rs v; rest \<leftarrow> parse_rs_list vs; Some (rs # rest) }"

text \<open>The servers of a section: the keys \<^verbatim>\<open>serverN\<close> and \<^verbatim>\<open>rsN\<close>, in the order of their numbers.\<close>

definition server_key :: "string \<Rightarrow> string \<Rightarrow> bool" where
  "server_key prefix key \<longleftrightarrow>
     starts_with key prefix \<and> length key > length prefix \<and> isdigit (key ! length prefix)"

definition add_server :: "string \<times> string \<Rightarrow> string \<Rightarrow> (nat \<times> string) list \<Rightarrow> (nat \<times> string) list" where
  "add_server kv prefix servers =
     (if server_key prefix (fst kv)
      then map_put (fst (strtoul 10 (c_str (drop (length prefix) (fst kv))))) (snd kv) servers
      else servers)"

definition service_servers :: "section_map \<Rightarrow> (nat \<times> string) list" where
  "service_servers sec = foldl (\<lambda>m kv. add_server kv ''rs'' (add_server kv ''server'' m)) [] sec"

definition proto_of :: "string \<Rightarrow> u8 option" where
  "proto_of s = (if s = ''tcp'' then Some 6 else if s = ''udp'' then Some 17 else None)"

definition sched_of :: "string \<Rightarrow> scheduler_type option" where
  "sched_of s = (if s = ''wrr'' \<or> s = ''rr'' then Some WRR
     else if s = ''maglev'' \<or> s = ''consistent_hash'' then Some MAGLEV else None)"

definition is_service_section :: "string \<Rightarrow> bool" where
  "is_service_section name = starts_with name ''service.''"

definition parse_service :: "sections \<Rightarrow> string \<Rightarrow> section_map \<Rightarrow> service_conf option" where
  "parse_service secs name sec = do {
     vip \<leftarrow> parse_ipv4 (cfg_get secs name ''vip'' []);
     port \<leftarrow> get_u32 secs name ''port'' 0 1 65535;
     port \<leftarrow> (if port = 0 then None else Some port);
     proto \<leftarrow> proto_of (to_lower (cfg_get secs name ''proto'' ''tcp''));
     sched \<leftarrow> sched_of (to_lower (cfg_get secs name ''scheduler'' ''wrr''));
     rs \<leftarrow> parse_rs_list (map snd (service_servers sec));
     Some \<lparr>sc_name = drop 8 name, sc_vip = vip, sc_port = of_nat port, sc_proto = proto, sc_sched = sched, sc_rs = rs\<rparr>
   }"

fun parse_services :: "sections \<Rightarrow> sections \<Rightarrow> service_conf list option" where
  "parse_services secs [] = Some []"
| "parse_services secs ((name, sec) # rest) =
     (if is_service_section name then do {
        svc \<leftarrow> parse_service secs name sec;
        svcs \<leftarrow> parse_services secs rest;
        Some (svc # svcs)
      } else parse_services secs rest)"

definition legacy_values :: "sections \<Rightarrow> nat \<Rightarrow> string list" where
  "legacy_values secs count =
     filter (\<lambda>v. v \<noteq> []) (map (\<lambda>i. cfg_get secs ''realserver'' (''server'' @ to_string i) []) [1..<count + 1])"

fun legacy_ports :: "ipv4_addr \<Rightarrow> rs_conf list \<Rightarrow> string list \<Rightarrow> service_conf list option" where
  "legacy_ports vip rs [] = Some []"
| "legacy_ports vip rs (p # ps) = do {
     port \<leftarrow> parse_port p;
     svcs \<leftarrow> legacy_ports vip rs ps;
     Some (map (\<lambda>proto. \<lparr>sc_name = proto_name proto @ CHR ''-'' # p, sc_vip = vip, sc_port = port, sc_proto = proto,
                          sc_sched = sc_sched service_conf_default, sc_rs = rs\<rparr>) [6, 17] @ svcs)
   }"

definition parse_legacy_services :: "sections \<Rightarrow> service_conf list option" where
  "parse_legacy_services secs = do {
     vip \<leftarrow> parse_ipv4 (cfg_get secs ''vip'' ''ip'' []);
     count \<leftarrow> get_u32 secs ''realserver'' ''count'' 0 0 kMaxRsPerService;
     rs \<leftarrow> parse_rs_list (legacy_values secs count);
     legacy_ports vip rs (split_str (cfg_get secs ''vip'' ''ports'' ''80'') CHR '','')
   }"

section \<open>Building the configuration\<close>

definition mode_of :: "string \<Rightarrow> forward_mode option" where
  "mode_of s = (if s = ''nat'' \<or> s = ''fullnat'' then Some NAT else if s = ''dr'' then Some DR else None)"

definition steering_of :: "string \<Rightarrow> bool option" where
  "steering_of s = (if s \<noteq> ''auto'' \<and> s \<noteq> ''sw'' then None else Some (s = ''sw''))"

definition dataplane_of :: "string \<Rightarrow> dataplane_mode option" where
  "dataplane_of s = (if s = ''rtc'' then Some RTC else if s = ''pipeline'' then Some PIPELINE else None)"

definition build_timeouts :: "sections \<Rightarrow> timeout_conf \<Rightarrow> timeout_conf option" where
  "build_timeouts secs t = do {
     legacy \<leftarrow> get_u32 secs ''global'' ''session_timeout'' 0 1 86400;
     t \<leftarrow> Some (if legacy \<noteq> 0 then t\<lparr>to_tcp_established := legacy, to_udp := legacy\<rparr> else t);
     syn \<leftarrow> get_u32 secs ''global'' ''tcp_syn_timeout'' (to_tcp_syn t) 1 86400;
     est \<leftarrow> get_u32 secs ''global'' ''tcp_established_timeout'' (to_tcp_established t) 1 86400;
     fin \<leftarrow> get_u32 secs ''global'' ''tcp_fin_timeout'' (to_tcp_fin t) 1 86400;
     tw \<leftarrow> get_u32 secs ''global'' ''tcp_timewait_timeout'' (to_tcp_timewait t) 1 86400;
     cl \<leftarrow> get_u32 secs ''global'' ''tcp_close_timeout'' (to_tcp_close t) 1 86400;
     udp \<leftarrow> get_u32 secs ''global'' ''udp_timeout'' (to_udp t) 1 86400;
     Some \<lparr>to_tcp_syn = min syn est, to_tcp_established = est, to_tcp_fin = min fin est,
           to_tcp_timewait = min tw est, to_tcp_close = min cl est, to_udp = udp\<rparr>
   }"

definition build_global :: "sections \<Rightarrow> lb_config \<Rightarrow> lb_config option" where
  "build_global secs c = do {
     mode \<leftarrow> mode_of (to_lower (cfg_get secs ''global'' ''mode'' ''nat''));
     level \<leftarrow> Some (to_lower (cfg_get secs ''global'' ''log_level'' (lb_log_level c)));
     dir \<leftarrow> Some (cfg_get secs ''global'' ''log_dir'' (lb_log_dir c));
     sw \<leftarrow> steering_of (to_lower (cfg_get secs ''global'' ''steering'' ''auto''));
     dp \<leftarrow> dataplane_of (to_lower (cfg_get secs ''global'' ''dataplane'' ''rtc''));
     ms \<leftarrow> get_u32 secs ''global'' ''max_sessions'' (lb_max_sessions c) 1024 67108864;
     toa \<leftarrow> get_bool secs ''global'' ''toa'' (lb_toa c);
     strip \<leftarrow> get_bool secs ''global'' ''strip_tcp_timestamp'' (lb_strip_tcp_timestamp c);
     size_mb \<leftarrow> get_u32 secs ''global'' ''log_max_size_mb'' (lb_log_max_size_mb c) 1 10240;
     files \<leftarrow> get_u32 secs ''global'' ''log_max_files'' (lb_log_max_files c) 1 100;
     err \<leftarrow> get_bool secs ''global'' ''log_stderr'' (lb_log_stderr c);
     ival \<leftarrow> get_u32 secs ''global'' ''stats_interval'' (lb_stats_interval c) 1 3600;
     t \<leftarrow> build_timeouts secs (lb_timeouts c);
     Some (c\<lparr>lb_mode := mode, lb_log_level := level, lb_log_dir := dir, lb_force_sw_steering := sw, lb_dataplane := dp,
            lb_max_sessions := ms, lb_toa := toa, lb_strip_tcp_timestamp := strip, lb_log_max_size_mb := size_mb,
            lb_log_max_files := files, lb_log_stderr := err, lb_stats_interval := ival, lb_timeouts := t\<rparr>)
   }"

fun parse_ips :: "string list \<Rightarrow> ipv4_addr list option" where
  "parse_ips [] = Some []"
| "parse_ips (s # ss) = do { ip \<leftarrow> parse_ipv4 s; ips \<leftarrow> parse_ips ss; Some (ip # ips) }"

definition build_network :: "sections \<Rightarrow> lb_config \<Rightarrow> lb_config option" where
  "build_network secs c = (let mac = cfg_get secs ''network'' ''vip_mac'' (cfg_get secs ''vip'' ''mac'' []) in do {
     vm \<leftarrow> (if mac = [] then Some (lb_vip_mac c) else parse_mac mac);
     nm \<leftarrow> get_ip secs ''network'' ''netmask'' (lb_netmask c);
     gw \<leftarrow> get_ip secs ''network'' ''gateway'' (lb_gateway c);
     src \<leftarrow> get_ip secs ''network'' ''hc_src'' (lb_hc_src c);
     lips \<leftarrow> parse_ips (split_str (cfg_get secs ''network'' ''local_ips'' []) CHR '','');
     Some (c\<lparr>lb_vip_mac := vm, lb_netmask := nm, lb_gateway := gw, lb_hc_src := src, lb_local_ips := lb_local_ips c @ lips\<rparr>)
   })"

definition build_health :: "sections \<Rightarrow> health_conf \<Rightarrow> health_conf option" where
  "build_health secs h = do {
     en \<leftarrow> get_bool secs ''healthcheck'' ''enabled'' (hcf_enabled h);
     ival \<leftarrow> get_u32 secs ''healthcheck'' ''interval'' (hcf_interval_ms h) 1 3600;
     tmo \<leftarrow> get_u32 secs ''healthcheck'' ''timeout'' (hcf_timeout_ms h) 10 60000;
     fall \<leftarrow> get_u32 secs ''healthcheck'' ''failure_threshold'' (hcf_fall h) 1 100;
     rise \<leftarrow> get_u32 secs ''healthcheck'' ''success_threshold'' (hcf_rise h) 1 100;
     Some \<lparr>hcf_enabled = en,
           hcf_interval_ms = (if cfg_get secs ''healthcheck'' ''interval'' [] \<noteq> [] then ival * 1000 else ival),
           hcf_timeout_ms = tmo, hcf_fall = fall, hcf_rise = rise\<rparr>
   }"

definition build_config :: "sections \<Rightarrow> lb_config \<Rightarrow> lb_config option" where
  "build_config secs c = do {
     c \<leftarrow> build_global secs c;
     c \<leftarrow> build_network secs c;
     h \<leftarrow> build_health secs (lb_health c);
     c \<leftarrow> Some (c\<lparr>lb_health := h, lb_control_socket := cfg_get secs ''control'' ''socket'' (lb_control_socket c)\<rparr>);
     svcs \<leftarrow> (if list_ex (\<lambda>sec. is_service_section (fst sec)) secs then parse_services secs secs
              else parse_legacy_services secs);
     Some (c\<lparr>lb_services := lb_services c @ svcs\<rparr>)
   }"

section \<open>Validation\<close>

definition conf_key :: "service_conf \<Rightarrow> ipv4_addr \<times> u16 \<times> u8" where
  "conf_key svc = (sc_vip svc, sc_port svc, sc_proto svc)"

fun check_services :: "service_conf list \<Rightarrow> (ipv4_addr \<times> u16 \<times> u8) set \<Rightarrow> bool" where
  "check_services [] keys = True"
| "check_services (svc # svcs) keys =
     (sc_rs svc \<noteq> [] \<and> length (sc_rs svc) \<le> kMaxRsPerService \<and> conf_key svc \<notin> keys \<and>
      check_services svcs (insert (conf_key svc) keys))"

definition fill_lips :: "lb_config \<Rightarrow> lb_config" where
  "fill_lips c = (if lb_mode c = NAT \<and> lb_local_ips c = [] then c\<lparr>lb_local_ips := [sc_vip (lb_services c ! 0)]\<rparr> else c)"

definition fill_hc_src :: "lb_config \<Rightarrow> lb_config" where
  "fill_hc_src c = (if lb_hc_src c = 0 \<and> lb_local_ips c \<noteq> [] then c\<lparr>lb_hc_src := lb_local_ips c ! 0\<rparr> else c)"

definition reserved_addrs :: "lb_config \<Rightarrow> ipv4_addr set" where
  "reserved_addrs c = set (lb_local_ips c) \<union> (if lb_hc_src c \<noteq> 0 then {lb_hc_src c} else {})"

definition validate :: "lb_config \<Rightarrow> lb_config option" where
  "validate c =
     (if lb_services c = [] \<or> length (lb_services c) > kMaxServices \<or> \<not> check_services (lb_services c) {} then None
      else let c = fill_lips c in
        if length (lb_local_ips c) > kMaxLocalIps then None
        else let c = fill_hc_src c in
          if hcf_enabled (lb_health c) \<and> lb_hc_src c = 0 then None
          else if lb_mode c = DR \<and> lb_hc_src c \<in> sc_vip ` set (lb_services c) then None
          else if list_ex (\<lambda>svc. sc_vip svc \<in> reserved_addrs c \<and>
                  in_port_range (unat (sc_port svc)) kNatPortMin kHcPortMax) (lb_services c) then None
          else Some c)"

definition config_load :: "string option \<Rightarrow> lb_config option" where
  "config_load file = do {
     secs \<leftarrow> parse_file file;
     c \<leftarrow> build_config secs lb_config_default;
     validate c
   }"

end
