(* ===== verification/Open_Table.thy ===== *)
theory Open_Table
  imports Prelude
begin

text \<open>
  Hash tables with linear probing, as \<^verbatim>\<open>src/ctrl/snapshot.cpp\<close> builds them: a vector of 512 slots that
  is searched from the home slot of a key, wrapping around. The loops of the code have no bound, so
  \<open>probe\<close> is a partial function; a table with a free slot is searched to the end. The locale holds
  what the code's tables have in common.
\<close>

definition kSlots :: nat where "kSlots = 512"

text \<open>\<^verbatim>\<open>for (i = home;; i = (i + 1) & mask) if (P(slots[i])) ...\<close>: the first slot, from \<open>i\<close> on, whose
  value satisfies the condition.\<close>

partial_function (option) probe :: "('v \<Rightarrow> bool) \<Rightarrow> 'v list \<Rightarrow> nat \<Rightarrow> nat option" where
  "probe P xs i = (if P (xs ! i) then Some i else probe P xs ((i + 1) mod kSlots))"

lemma probe_here: "P (xs ! i) \<Longrightarrow> probe P xs i = Some i"
  by (simp add: probe.simps)

lemma probe_skip: "\<not> P (xs ! i) \<Longrightarrow> probe P xs i = probe P xs ((i + 1) mod kSlots)"
  by (subst probe.simps) simp

lemma probe_first:
  assumes "\<And>k. k < d \<Longrightarrow> \<not> P (xs ! ((i + k) mod kSlots))" "P (xs ! ((i + d) mod kSlots))" "i < kSlots"
  shows "probe P xs i = Some ((i + d) mod kSlots)"
  using assms
proof (induction d arbitrary: i)
  case 0
  then show ?case by (simp add: probe_here)
next
  case (Suc d)
  have "\<not> P (xs ! i)" using Suc.prems(1) [of 0] Suc.prems(3) by simp
  then have "probe P xs i = probe P xs ((i + 1) mod kSlots)" by (rule probe_skip)
  also have "\<dots> = Some (((i + 1) mod kSlots + d) mod kSlots)"
  proof (rule Suc.IH)
    show "\<not> P (xs ! (((i + 1) mod kSlots + k) mod kSlots))" if "k < d" for k
      using Suc.prems(1) [of "Suc k"] that by (simp add: mod_add_left_eq)
    show "P (xs ! (((i + 1) mod kSlots + d) mod kSlots))"
      using Suc.prems(2) by (simp add: mod_add_left_eq)
  qed (simp add: kSlots_def)
  finally show ?case by (simp add: mod_add_left_eq)
qed

text \<open>The distance from one slot on to another.\<close>

definition dist :: "nat \<Rightarrow> nat \<Rightarrow> nat" where
  "dist i j = (j + kSlots - i) mod kSlots"

lemma dist_less [simp]: "dist i j < kSlots"
  by (simp add: dist_def kSlots_def)

lemma add_dist: "i < kSlots \<Longrightarrow> j < kSlots \<Longrightarrow> (i + dist i j) mod kSlots = j"
  by (simp add: dist_def mod_add_right_eq)

lemma dist_add: "i < kSlots \<Longrightarrow> d < kSlots \<Longrightarrow> dist i ((i + d) mod kSlots) = d"
  by (cases "i + d < kSlots") (auto simp: dist_def mod_if [of "i + d"] le_mod_geq)

lemma probe_some:
  assumes "j < kSlots" "P (xs ! j)" "i < kSlots"
  obtains d where "d \<le> dist i j" "probe P xs i = Some ((i + d) mod kSlots)" "P (xs ! ((i + d) mod kSlots))"
    "\<And>k. k < d \<Longrightarrow> \<not> P (xs ! ((i + k) mod kSlots))"
proof -
  define d where "d = (LEAST d. P (xs ! ((i + d) mod kSlots)))"
  have w: "P (xs ! ((i + dist i j) mod kSlots))" using assms by (simp add: add_dist)
  then have "P (xs ! ((i + d) mod kSlots))" unfolding d_def by (rule LeastI)
  moreover have "\<not> P (xs ! ((i + k) mod kSlots))" if "k < d" for k using that unfolding d_def by (rule not_less_Least)
  moreover have "d \<le> dist i j" unfolding d_def using w by (rule Least_le)
  ultimately show thesis using assms(3) by (intro that) (auto intro: probe_first)
qed

section \<open>Tables\<close>

text \<open>A client names the values that mean a free slot and the home slot of the others.\<close>

locale open_table =
  fixes is_free :: "'v \<Rightarrow> bool" and home :: "'v \<Rightarrow> nat"
  assumes home_less: "home v < kSlots"
begin

definition stored :: "'v list \<Rightarrow> 'v set" where
  "stored xs = {v \<in> set xs. \<not> is_free v}"

text \<open>No free slot lies between the home of a value and the slot where it is.\<close>

definition good :: "'v list \<Rightarrow> bool" where
  "good xs \<longleftrightarrow> length xs = kSlots \<and>
     (\<forall>j < kSlots. \<not> is_free (xs ! j) \<longrightarrow>
        (\<forall>k < dist (home (xs ! j)) j. \<not> is_free (xs ! ((home (xs ! j) + k) mod kSlots))))"

lemma good_empty: "is_free v \<Longrightarrow> good (replicate kSlots v)"
  by (simp add: good_def)

lemma stored_empty: "is_free v \<Longrightarrow> stored (replicate kSlots v) = {}"
  by (auto simp: stored_def)

lemma insert_good:
  assumes "good xs" "\<exists>j < kSlots. is_free (xs ! j)" "\<not> is_free v"
  obtains j where "probe is_free xs (home v) = Some j" "good (xs[j := v])" "stored (xs[j := v]) = insert v (stored xs)"
    "j < kSlots" "is_free (xs ! j)"
proof -
  obtain j0 where j0: "j0 < kSlots" "is_free (xs ! j0)" using assms(2) by blast
  obtain d where d: "d \<le> dist (home v) j0" "probe is_free xs (home v) = Some ((home v + d) mod kSlots)"
      "is_free (xs ! ((home v + d) mod kSlots))" "\<And>k. k < d \<Longrightarrow> \<not> is_free (xs ! ((home v + k) mod kSlots))"
    using probe_some [of j0 is_free xs "home v"] j0 home_less by metis
  define j where "j = (home v + d) mod kSlots"
  have len: "length xs = kSlots" using assms(1) by (simp add: good_def)
  have j: "j < kSlots" "is_free (xs ! j)" using d(3) by (simp_all add: j_def kSlots_def)
  have "dist (home v) j = d"
    unfolding j_def using home_less [of v] d(1) dist_less [of "home v" j0] by (intro dist_add) linarith+
  then have path: "\<not> is_free (xs ! ((home v + k) mod kSlots))" if "k < dist (home v) j" for k
    using that d(4) by simp
  have keep: "\<not> is_free (xs ! s) \<Longrightarrow> \<not> is_free (xs[j := v] ! s)" for s
    using assms(3) j len by (cases "s = j") simp_all
  have "good (xs[j := v])"
    unfolding good_def
  proof (intro conjI allI impI)
    fix s k
    assume s: "s < kSlots" "\<not> is_free (xs[j := v] ! s)" "k < dist (home (xs[j := v] ! s)) s"
    show "\<not> is_free (xs[j := v] ! ((home (xs[j := v] ! s) + k) mod kSlots))"
      using s j len assms(1) path by (cases "s = j") (auto intro!: keep simp: good_def)
  qed (simp add: len)
  moreover have "stored (xs[j := v]) = insert v (stored xs)"
  proof (rule set_eqI)
    fix x
    have "x \<in> set (xs[j := v]) \<longleftrightarrow> x = v \<or> (\<exists>s < kSlots. s \<noteq> j \<and> xs ! s = x)"
      using j(1) len unfolding in_set_conv_nth by (metis length_list_update nth_list_update_eq nth_list_update_neq)
    moreover have "x \<in> set xs \<longleftrightarrow> x = xs ! j \<or> (\<exists>s < kSlots. s \<noteq> j \<and> xs ! s = x)"
      using j(1) len unfolding in_set_conv_nth by metis
    ultimately show "x \<in> stored (xs[j := v]) \<longleftrightarrow> x \<in> insert v (stored xs)"
      using assms(3) j(2) by (auto simp: stored_def)
  qed
  ultimately show thesis using that d(2) j by (simp add: j_def)
qed

text \<open>A search for the values that satisfy \<open>m\<close>, all of which have the same home.\<close>

lemma lookup_good:
  assumes "good xs" "\<exists>j < kSlots. is_free (xs ! j)" "\<And>v. v \<in> stored xs \<Longrightarrow> m v \<Longrightarrow> home v = h" "h < kSlots"
  obtains j where "probe (\<lambda>v. is_free v \<or> m v) xs h = Some j" "j < kSlots" "is_free (xs ! j) \<or> m (xs ! j)"
    "(\<exists>v\<in>stored xs. m v) \<longleftrightarrow> \<not> is_free (xs ! j)"
proof -
  let ?P = "\<lambda>v. is_free v \<or> m v"
  have len: "length xs = kSlots" using assms(1) by (simp add: good_def)
  obtain j0 where j0: "j0 < kSlots" "is_free (xs ! j0)" using assms(2) by blast
  obtain d where d: "d \<le> dist h j0" "probe ?P xs h = Some ((h + d) mod kSlots)"
      "?P (xs ! ((h + d) mod kSlots))" "\<And>k. k < d \<Longrightarrow> \<not> ?P (xs ! ((h + k) mod kSlots))"
    using probe_some [of j0 ?P xs h] j0 assms(4) by metis
  define j where "j = (h + d) mod kSlots"
  have j: "j < kSlots" "?P (xs ! j)" using d(3) by (simp_all add: j_def kSlots_def)
  have "is_free (xs ! j) \<Longrightarrow> v \<in> stored xs \<Longrightarrow> \<not> m v" for v
  proof
    assume f: "is_free (xs ! j)" "v \<in> stored xs" "m v"
    then obtain s where s: "s < kSlots" "xs ! s = v" "\<not> is_free v" "home v = h"
      using assms(3) len by (auto simp: stored_def in_set_conv_nth)
    have "\<forall>k < dist h s. \<not> is_free (xs ! ((h + k) mod kSlots))" using assms(1) s by (auto simp: good_def)
    moreover have "d \<le> dist h s"
    proof (rule ccontr)
      assume "\<not> d \<le> dist h s"
      then have "\<not> ?P (xs ! ((h + dist h s) mod kSlots))" using d(4) by simp
      then show False using f(3) s assms(4) by (simp add: add_dist)
    qed
    moreover have "d \<noteq> dist h s" using f(1) s assms(4) by (auto simp: j_def add_dist)
    ultimately show False using f(1) by (auto simp: j_def)
  qed
  moreover have "\<not> is_free (xs ! j) \<Longrightarrow> xs ! j \<in> stored xs \<and> m (xs ! j)"
    using j len by (auto simp: stored_def)
  ultimately show thesis using that [of j] d(2) j by (metis j_def)
qed

text \<open>The number of slots in use; there is a free one while it is below the size.\<close>

definition occupied :: "'v list \<Rightarrow> nat" where
  "occupied xs = length (filter (\<lambda>v. \<not> is_free v) xs)"

lemma occupied_empty: "is_free v \<Longrightarrow> occupied (replicate n v) = 0"
  by (simp add: occupied_def)

lemma occupied_insert:
  assumes "j < length xs" "is_free (xs ! j)" "\<not> is_free v"
  shows "occupied (xs[j := v]) = Suc (occupied xs)"
proof -
  have "filter (\<lambda>v. \<not> is_free v) xs = filter (\<lambda>v. \<not> is_free v) (take j xs @ xs ! j # drop (Suc j) xs)"
    using assms(1) by (simp add: id_take_nth_drop [symmetric])
  then show ?thesis using assms by (simp add: occupied_def upd_conv_take_nth_drop)
qed

lemma occupied_free: "occupied xs < length xs \<Longrightarrow> \<exists>j < length xs. is_free (xs ! j)"
  unfolding occupied_def by (metis (mono_tags) filter_True in_set_conv_nth nat_less_le)

end

end
