(* ===== verification/Scheduler.thy ===== *)
theory Scheduler
  imports Net_Types "HOL-Library.Multiset"
begin

text \<open>
  Backend selection, \<^verbatim>\<open>src/lb/scheduler.cpp\<close> and \<^verbatim>\<open>include/lb/scheduler.h\<close>: the smooth weighted
  round robin sequence. The sums of 32-bit weights and the running credits stay far inside 64 bits,
  so they are \<open>nat\<close> and \<open>int\<close>; table entries are cut to 16 bits as in the code.
\<close>

section \<open>Smooth weighted round robin\<close>

record sched_backend =
  sb_ip :: ipv4_addr
  sb_port :: u16
  sb_weight :: nat

definition kWrrMaxSeq :: nat where "kWrrMaxSeq = 4096"

text \<open>The weights that are unrolled: divided by their greatest common divisor, and scaled down, to
  no less than 1, when the sequence would be longer than \<open>kWrrMaxSeq\<close>.\<close>

definition wrr_gcd :: "sched_backend list \<Rightarrow> nat" where
  "wrr_gcd b = foldl (\<lambda>g x. gcd g (sb_weight x)) 0 b"

definition wrr_weights :: "sched_backend list \<Rightarrow> nat list \<times> nat" where
  "wrr_weights b =
     (let g = wrr_gcd b;
          w = map (\<lambda>x. sb_weight x div g) b;
          tot = sum_list (map sb_weight b) div g
      in if tot > kWrrMaxSeq
         then (let w2 = map (\<lambda>x. if x \<noteq> 0 then max 1 (x * kWrrMaxSeq div tot) else x) w
               in (w2, sum_list w2))
         else (w, tot))"

text \<open>One round: every credit grows by its weight, and the first backend of positive weight with
  the largest credit is chosen.\<close>

definition wrr_visit :: "nat list \<Rightarrow> nat \<Rightarrow> int list \<times> nat \<Rightarrow> int list \<times> nat" where
  "wrr_visit w i s =
     (let cur = (fst s)[i := fst s ! i + int (w ! i)]; best = snd s
      in (cur, if w ! i \<noteq> 0 \<and> (w ! best = 0 \<or> cur ! i > cur ! best) then i else best))"

definition wrr_scan :: "nat list \<Rightarrow> int list \<Rightarrow> int list \<times> nat" where
  "wrr_scan w cur = fold (wrr_visit w) [0..<length w] (cur, 0)"

definition wrr_round :: "nat list \<Rightarrow> nat \<Rightarrow> int list \<Rightarrow> int list \<times> nat" where
  "wrr_round w tot cur =
     (let (cur, best) = wrr_scan w cur in (cur[best := cur ! best - int tot], best))"

primrec wrr_seq :: "nat list \<Rightarrow> nat \<Rightarrow> nat \<Rightarrow> int list \<Rightarrow> nat list" where
  "wrr_seq w tot 0 cur = []"
| "wrr_seq w tot (Suc n) cur =
     (let (cur, best) = wrr_round w tot cur in best mod 2 ^ 16 # wrr_seq w tot n cur)"

definition build_wrr :: "sched_backend list \<Rightarrow> nat list" where
  "build_wrr b = (let (w, tot) = wrr_weights b in wrr_seq w tot tot (replicate (length b) 0))"

section \<open>One round\<close>

lemma wrr_scan_prefix:
  assumes "length cur = length w" "k \<le> length w"
    and "fold (wrr_visit w) [0..<k] (cur, 0) = (c, best)"
  shows "length c = length w \<and> (\<forall>i<length w. c ! i = (if i < k then cur ! i + int (w ! i) else cur ! i)) \<and>
    (k = 0 \<longrightarrow> best = 0) \<and> (0 < k \<longrightarrow> best < k) \<and>
    ((\<exists>i<k. w ! i \<noteq> 0) \<longrightarrow> w ! best \<noteq> 0 \<and> (\<forall>i<k. w ! i \<noteq> 0 \<longrightarrow> c ! i \<le> c ! best))"
  using assms(2,3)
proof (induction k arbitrary: c best)
  case (Suc k)
  obtain c' b' where p: "fold (wrr_visit w) [0..<k] (cur, 0) = (c', b')" by fastforce
  note IH = Suc.IH [OF Suc_leD [OF Suc.prems(1)] p]
  have "wrr_visit w k (c', b') = (c, best)" using Suc.prems(2) p by simp
  then have s: "c = c'[k := c' ! k + int (w ! k)]"
    "best = (if w ! k \<noteq> 0 \<and> (w ! b' = 0 \<or> c ! k > c ! b') then k else b')"
    by (auto simp: wrr_visit_def Let_def)
  have len: "length c' = length w" "k < length w" using IH Suc.prems(1) by auto
  have c: "c ! i = (if i = k then cur ! i + int (w ! i) else c' ! i)" if "i < length w" for i
    using that len IH Suc.prems(1) by (simp add: s(1) nth_list_update)
  have b': "b' < Suc k" using IH Suc.prems(1) by (cases k) auto
  show ?case
  proof (intro conjI impI)
    show "length c = length w" using len by (simp add: s(1))
    show "\<forall>i<length w. c ! i = (if i < Suc k then cur ! i + int (w ! i) else cur ! i)"
      using c IH Suc.prems(1) by (auto simp: less_Suc_eq)
    show "best < Suc k" using b' by (simp add: s(2))
    assume ex: "\<exists>i<Suc k. w ! i \<noteq> 0"
    show "w ! best \<noteq> 0"
      using ex IH Suc.prems(1) by (auto simp: s(2) less_Suc_eq)
    show "\<forall>i<Suc k. w ! i \<noteq> 0 \<longrightarrow> c ! i \<le> c ! best"
    proof (intro allI impI)
      fix i assume i: "i < Suc k" "w ! i \<noteq> 0"
      show "c ! i \<le> c ! best"
      proof (cases "w ! b' \<noteq> 0 \<and> b' < k")
        case True
        then have "j < k \<Longrightarrow> w ! j \<noteq> 0 \<Longrightarrow> c ! j \<le> c ! b'" for j
          using IH Suc.prems(1) c [of j] c [of b'] len(2) by (cases "j = k") force+
        then show ?thesis
          using i True by (cases "i = k") (fastforce simp: s(2) less_Suc_eq)+
      next
        case False
        then have "j < k \<Longrightarrow> w ! j = 0" for j
          using IH Suc.prems(1) by (cases k) auto
        then have "i = k" using i by (metis less_Suc_eq)
        then show ?thesis using i(2) by (auto simp: s(2))
      qed
    qed
  qed simp
qed (simp add: assms(1))

section \<open>The sequence\<close>

text \<open>What holds between rounds: the credits sum to zero, none is as low as the negated total, and
  backends of weight zero have none.\<close>

definition wrr_inv :: "nat list \<Rightarrow> int list \<Rightarrow> bool" where
  "wrr_inv w cur \<longleftrightarrow> length cur = length w \<and> sum_list cur = 0 \<and>
     (\<forall>i<length w. - int (sum_list w) < cur ! i) \<and> (\<forall>i<length w. w ! i = 0 \<longrightarrow> cur ! i = 0)"

lemma sum_list_update_int:
  "i < length xs \<Longrightarrow> sum_list (xs[i := v]) = sum_list xs - xs ! i + (v :: int)"
proof (induction xs arbitrary: i)
  case (Cons x xs)
  then show ?case by (cases i) auto
qed simp

lemma sum_list_add_int:
  "length a = length w \<Longrightarrow> sum_list (map2 (\<lambda>x y. x + int y) a w) = sum_list a + int (sum_list w)"
  by (induction a w rule: list_induct2) auto

lemma sum_list_gt_0: "\<exists>i<length w. w ! i \<noteq> 0 \<Longrightarrow> 0 < sum_list (w :: nat list)"
  using elem_le_sum_list by (metis gr0I le_zero_eq)

lemma wrr_round_step:
  assumes inv: "wrr_inv w cur" and pos: "\<exists>i<length w. w ! i \<noteq> 0" and tot: "tot = sum_list w"
    and r: "wrr_round w tot cur = (cur', best)"
  shows "wrr_inv w cur'" "best < length w" "w ! best \<noteq> 0"
    "i < length w \<Longrightarrow> cur' ! i = cur ! i + int (w ! i) - (if i = best then int tot else 0)"
proof -
  obtain c where sc: "wrr_scan w cur = (c, best)" and c': "cur' = c[best := c ! best - int tot]"
    using r by (auto simp: wrr_round_def split: prod.splits)
  have len: "length cur = length w" using inv by (simp add: wrr_inv_def)
  have "0 < length w" using pos by auto
  then have pre: "length c = length w" "\<And>i. i < length w \<Longrightarrow> c ! i = cur ! i + int (w ! i)"
    "best < length w" "w ! best \<noteq> 0" "\<And>i. i < length w \<Longrightarrow> w ! i \<noteq> 0 \<Longrightarrow> c ! i \<le> c ! best"
    using wrr_scan_prefix [OF len order_refl sc [unfolded wrr_scan_def]] pos by auto
  have "c = map2 (\<lambda>x y. x + int y) cur w"
    by (rule nth_equalityI) (simp_all add: pre len)
  then have sum: "sum_list c = int tot"
    using sum_list_add_int [OF len] inv by (simp add: wrr_inv_def tot)
  have "0 < c ! best"
  proof (rule ccontr)
    assume "\<not> 0 < c ! best"
    then have "i < length w \<Longrightarrow> c ! i \<le> 0" for i
      using pre(2,5) [of i] inv by (cases "w ! i = 0") (auto simp: wrr_inv_def)
    then have "sum_list c \<le> 0" using pre(1) by (intro sum_list_nonpos) (auto simp: in_set_conv_nth)
    moreover have "0 < tot" using pos by (simp add: tot sum_list_gt_0)
    ultimately show False using sum by simp
  qed
  then have low: "i < length w \<Longrightarrow> - int tot < cur' ! i" for i
    using pre(1-3) inv by (cases "i = best") (auto simp: c' wrr_inv_def tot intro: less_le_trans)
  show cur': "i < length w \<Longrightarrow> cur' ! i = cur ! i + int (w ! i) - (if i = best then int tot else 0)" for i
    using pre(1-3) by (simp add: c' nth_list_update)
  show "wrr_inv w cur'"
    using low cur' pre(1,3,4) inv sum by (auto simp: wrr_inv_def tot c' sum_list_update_int)
  show "best < length w" "w ! best \<noteq> 0" using pre(3,4) .
qed

lemma wrr_seq_credit:
  assumes "wrr_inv w cur" "\<exists>i<length w. w ! i \<noteq> 0" "tot = sum_list w" "length w \<le> 2 ^ 16"
  shows "\<exists>cur'. wrr_inv w cur' \<and>
    (\<forall>i<length w. cur' ! i = cur ! i + int n * int (w ! i) - int tot * int (count_list (wrr_seq w tot n cur) i)) \<and>
    set (wrr_seq w tot n cur) \<subseteq> {i. i < length w \<and> w ! i \<noteq> 0} \<and> length (wrr_seq w tot n cur) = n"
  using assms(1)
proof (induction n arbitrary: cur)
  case 0
  then show ?case by auto
next
  case (Suc n)
  obtain c best where r: "wrr_round w tot cur = (c, best)" by fastforce
  note st = wrr_round_step [OF Suc.prems assms(2,3) r]
  have m: "best mod 2 ^ 16 = best" using st(2) assms(4) by simp
  obtain cur' where c': "wrr_inv w cur'"
    "\<forall>i<length w. cur' ! i = c ! i + int n * int (w ! i) - int tot * int (count_list (wrr_seq w tot n c) i)"
    "set (wrr_seq w tot n c) \<subseteq> {i. i < length w \<and> w ! i \<noteq> 0}" "length (wrr_seq w tot n c) = n"
    using Suc.IH [OF st(1)] by blast
  have seq: "wrr_seq w tot (Suc n) cur = best # wrr_seq w tot n c" using r m by simp
  show ?case
    unfolding seq using c' st(2-4) by (intro exI [of _ cur']) (auto simp: algebra_simps)
qed

text \<open>Over a whole sequence every backend is chosen exactly as often as its weight.\<close>

lemma sum_count_list: "set xs \<subseteq> {..<n :: nat} \<Longrightarrow> (\<Sum>i<n. count_list xs i) = length xs"
proof (induction xs)
  case (Cons x xs)
  have "(\<Sum>i<n. count_list (x # xs) i) = (\<Sum>i<n. count_list xs i + (if i = x then 1 else 0))"
    by (rule sum.cong) auto
  also have "\<dots> = length xs + (\<Sum>i<n. if i = x then 1 else 0)" using Cons by (simp add: sum.distrib)
  also have "(\<Sum>i<n. if i = x then 1 else 0 :: nat) = 1" using Cons.prems by (subst sum.delta) auto
  finally show ?case by simp
qed simp

lemma wrr_seq_exact:
  assumes pos: "\<exists>i<length w. w ! i \<noteq> 0" and tot: "tot = sum_list w" and len: "length w \<le> 2 ^ 16"
    and i: "i < length w"
  shows "count_list (wrr_seq w tot tot (replicate (length w) 0)) i = w ! i"
proof -
  let ?s = "wrr_seq w tot tot (replicate (length w) 0)"
  have tpos: "0 < tot" using pos by (simp add: tot sum_list_gt_0)
  have "wrr_inv w (replicate (length w) 0)"
    using tpos by (simp add: wrr_inv_def sum_list_replicate tot)
  from wrr_seq_credit [OF this pos tot len, of tot]
  obtain c where c: "wrr_inv w c" "set ?s \<subseteq> {i. i < length w \<and> w ! i \<noteq> 0}" "length ?s = tot"
    and credit: "\<And>j. j < length w \<Longrightarrow> c ! j = int tot * (int (w ! j) - int (count_list ?s j))"
    by (auto simp: algebra_simps)
  have le: "count_list ?s j \<le> w ! j" if j: "j < length w" for j
  proof -
    have "- int tot < c ! j" using c(1) j by (simp add: wrr_inv_def tot)
    then have "- int tot < int tot * (int (w ! j) - int (count_list ?s j))" using credit [OF j] by simp
    then have "int tot * (-1) < int tot * (int (w ! j) - int (count_list ?s j))" by simp
    then show ?thesis using tpos by (simp only: mult_less_cancel_left_pos of_nat_0_less_iff)
  qed
  have "(\<Sum>j<length w. count_list ?s j) = tot" using sum_count_list [of ?s "length w"] c(2,3) by auto
  moreover have "(\<Sum>j<length w. w ! j) = tot" by (simp add: tot sum_list_sum_nth atLeast0LessThan)
  ultimately show ?thesis
    using sum_mono_inv [of "count_list ?s" "{..<length w}" "(!) w" i] le i by simp
qed

section \<open>The weights\<close>

lemma wrr_gcd_dvd_acc: "foldl (\<lambda>g x. gcd g (sb_weight x)) a b dvd a"
  by (induction b arbitrary: a) (auto intro: dvd_trans)

lemma wrr_gcd_dvd: "x \<in> set b \<Longrightarrow> foldl (\<lambda>g x. gcd g (sb_weight x)) a b dvd sb_weight x"
proof (induction b arbitrary: a)
  case (Cons y b)
  then show ?case
    using wrr_gcd_dvd_acc [of "gcd a (sb_weight y)" b] by (auto intro: dvd_trans)
qed simp

lemma wrr_gcd_pos:
  assumes "x \<in> set b" "sb_weight x \<noteq> 0"
  shows "0 < wrr_gcd b" "wrr_gcd b dvd sb_weight x"
  using wrr_gcd_dvd [OF assms(1), of 0] assms(2) by (auto simp: wrr_gcd_def intro!: gr0I)

lemma sum_list_div:
  assumes "\<And>x. x \<in> set xs \<Longrightarrow> g dvd f x" "0 < (g :: nat)"
  shows "sum_list (map (\<lambda>x. f x div g) xs) = sum_list (map f xs) div g"
  using assms(1) by (induction xs) (simp_all add: div_plus_div_distrib_dvd_left)

lemma scaled_sum_le:
  fixes t :: nat
  shows "sum_list (map (\<lambda>x. if x \<noteq> 0 then max 1 (x * K div t) else x) xs) \<le> sum_list xs * K div t + length xs"
proof (induction xs)
  case (Cons x xs)
  have "(if x \<noteq> 0 then max 1 (x * K div t) else x) \<le> x * K div t + 1" by (simp add: max_def)
  moreover have "x * K div t + sum_list xs * K div t \<le> (x + sum_list xs) * K div t"
    using div_add1_eq [of "x * K" "sum_list xs * K" t] by (simp add: add_mult_distrib)
  ultimately show ?case using Cons.IH by simp
qed simp

lemma wrr_weights_ok:
  assumes pos: "\<exists>x\<in>set b. sb_weight x \<noteq> 0" and w: "wrr_weights b = (w, tot)"
  shows "length w = length b" "tot = sum_list w" "0 < tot"
    "i < length b \<Longrightarrow> w ! i \<noteq> 0 \<longleftrightarrow> sb_weight (b ! i) \<noteq> 0"
    "tot \<le> kWrrMaxSeq + length b"
    "sum_list (map sb_weight b) \<le> kWrrMaxSeq * wrr_gcd b \<Longrightarrow> i < length b \<Longrightarrow> w ! i * wrr_gcd b = sb_weight (b ! i)"
proof -
  define g where "g = wrr_gcd b"
  define v where "v = map (\<lambda>x. sb_weight x div g) b"
  define t where "t = sum_list (map sb_weight b) div g"
  define f where "f = (\<lambda>x. if x \<noteq> 0 then max 1 (x * kWrrMaxSeq div t) else x)"
  have g: "0 < g" using pos wrr_gcd_pos(1) by (auto simp: g_def)
  have dv: "x \<in> set b \<Longrightarrow> g dvd sb_weight x" for x
    using wrr_gcd_pos(2) [of x b] by (cases "sb_weight x = 0") (auto simp: g_def)
  have st: "sum_list v = t" unfolding v_def t_def by (rule sum_list_div [OF dv g])
  have lv: "length v = length b" by (simp add: v_def)
  have nz: "i < length b \<Longrightarrow> v ! i \<noteq> 0 \<longleftrightarrow> sb_weight (b ! i) \<noteq> 0" for i
    using dv [of "b ! i"] g by (auto simp: v_def dvd_div_eq_0_iff)
  have wt: "w = (if t > kWrrMaxSeq then map f v else v)" "tot = sum_list w"
    using w st unfolding wrr_weights_def Let_def g_def [symmetric] v_def [symmetric] t_def [symmetric]
      f_def [symmetric] by (auto split: if_splits)
  show len: "length w = length b" and "tot = sum_list w" using wt lv by simp_all
  have f0: "f x \<noteq> 0 \<longleftrightarrow> x \<noteq> 0" for x by (simp add: f_def max_def)
  show iff: "i < length b \<Longrightarrow> w ! i \<noteq> 0 \<longleftrightarrow> sb_weight (b ! i) \<noteq> 0" for i
    using nz [of i] f0 lv by (simp add: wt(1))
  obtain k where "k < length b" "sb_weight (b ! k) \<noteq> 0" using pos by (auto simp: in_set_conv_nth)
  then show "0 < tot" using iff [of k] len wt(2) sum_list_gt_0 [of w] by auto
  show "tot \<le> kWrrMaxSeq + length b"
  proof (cases "t > kWrrMaxSeq")
    case True
    have "sum_list (map f v) \<le> t * kWrrMaxSeq div t + length b"
      using scaled_sum_le [of kWrrMaxSeq t v] unfolding f_def [symmetric] st lv .
    then show ?thesis using True by (simp add: wt)
  next
    case False
    then show ?thesis using st wt by simp
  qed
  assume small: "sum_list (map sb_weight b) \<le> kWrrMaxSeq * wrr_gcd b" and i: "i < length b"
  have "t \<le> kWrrMaxSeq" using div_le_mono [OF small, of g] g by (simp add: t_def g_def)
  then show "w ! i * wrr_gcd b = sb_weight (b ! i)"
    using i dv [of "b ! i"] by (simp add: wt(1) v_def g_def)
qed

section \<open>Picking from the table\<close>

record scheduler =
  sched_type :: scheduler_type
  sched_table :: "nat list"
  sched_cursor :: "u32 list"

text \<open>\<^verbatim>\<open>pick\<close> with \<^verbatim>\<open>rte_jhash_3words\<close> as a parameter; \<^verbatim>\<open>None\<close> stands for the result -1. Only the
  cursor of the calling worker changes.\<close>

definition sched_pick :: "(u32 \<Rightarrow> u32 \<Rightarrow> u32 \<Rightarrow> u32 \<Rightarrow> u32) \<Rightarrow> scheduler \<Rightarrow> five_tuple \<Rightarrow> nat \<Rightarrow> scheduler \<times> nat option" where
  "sched_pick jhash3 s tuple worker =
     (if sched_table s = [] then (s, None)
      else if sched_type s = MAGLEV then
        (let (w0, w1, w2) = tuple_words tuple;
             h = jhash3 w0 w1 w2 0x9e3779b9
         in (s, Some (sched_table s ! (unat h mod length (sched_table s)))))
      else
        (let c = worker mod length (sched_cursor s);
             v = sched_cursor s ! c
         in (s\<lparr>sched_cursor := (sched_cursor s)[c := v + 1]\<rparr>,
             Some (sched_table s ! (unat v mod length (sched_table s))))))"

definition distribution :: "scheduler \<Rightarrow> nat \<Rightarrow> nat list" where
  "distribution s n = map (count_list (sched_table s)) [0..<n]"

text \<open>A number of picks in a row by one worker.\<close>

primrec sched_picks :: "(u32 \<Rightarrow> u32 \<Rightarrow> u32 \<Rightarrow> u32 \<Rightarrow> u32) \<Rightarrow> nat \<Rightarrow> scheduler \<Rightarrow> five_tuple list \<Rightarrow> nat option list" where
  "sched_picks jhash3 worker s [] = []"
| "sched_picks jhash3 worker s (t # ts) =
     (let (s', r) = sched_pick jhash3 s t worker in r # sched_picks jhash3 worker s' ts)"

lemma sched_picks_wrr:
  assumes "sched_type s = WRR" "sched_table s \<noteq> []" "sched_cursor s \<noteq> []"
    and "v = unat (sched_cursor s ! (worker mod length (sched_cursor s)))" "v + length ts \<le> 2 ^ 32"
  shows "sched_picks jh worker s ts =
    map (\<lambda>k. Some (sched_table s ! (k mod length (sched_table s)))) [v..<v + length ts]"
  using assms
proof (induction ts arbitrary: s v)
  case (Cons t ts)
  let ?c = "worker mod length (sched_cursor s)"
  let ?s = "s\<lparr>sched_cursor := (sched_cursor s)[?c := sched_cursor s ! ?c + 1]\<rparr>"
  have c: "?c < length (sched_cursor s)" using Cons.prems(3) by simp
  have p: "sched_pick jh s t worker = (?s, Some (sched_table s ! (v mod length (sched_table s))))"
    using Cons.prems by (simp add: sched_pick_def Let_def)
  show ?case
  proof (cases "ts = []")
    case True
    then show ?thesis using p by simp
  next
    case False
    then have "v + 1 < 2 ^ 32" using Cons.prems(5) by (cases ts) auto
    then have v': "unat (sched_cursor ?s ! ?c) = v + 1"
      using Cons.prems(4) c by (simp add: unat_word_ariths)
    have "sched_picks jh worker ?s ts =
        map (\<lambda>k. Some (sched_table ?s ! (k mod length (sched_table ?s)))) [v + 1..<v + 1 + length ts]"
      by (rule Cons.IH) (use Cons.prems v' in auto)
    then show ?thesis using p by (simp add: upt_conv_Cons del: upt_Suc)
  qed
qed simp

text \<open>A window as long as the table is a rotation of it.\<close>

lemma window_mset:
  assumes "xs \<noteq> []"
  shows "mset (map (\<lambda>k. xs ! (k mod length xs)) [v..<v + length xs]) = mset xs"
proof -
  let ?n = "length xs"
  have "map (\<lambda>k. xs ! (k mod ?n)) [v..<v + ?n] = rotate v xs"
    by (rule nth_equalityI) (simp_all add: nth_rotate add.commute)
  moreover have "mset (rotate v xs) = mset xs"
    unfolding rotate_drop_take by (metis append_take_drop_id mset_append union_commute)
  ultimately show ?thesis by simp
qed

section \<open>Properties\<close>

lemma build_wrr_exact:
  assumes "\<exists>x\<in>set b. sb_weight x \<noteq> 0" "length b \<le> 2 ^ 16" "i < length b"
  shows "count_list (build_wrr b) i = fst (wrr_weights b) ! i"
proof -
  obtain w tot where w: "wrr_weights b = (w, tot)" by fastforce
  note ok = wrr_weights_ok [OF assms(1) w]
  have "\<exists>k<length w. w ! k \<noteq> 0" using assms(1) ok(1,4) by (metis in_set_conv_nth)
  then show ?thesis
    using wrr_seq_exact [of w tot i] ok(1,2) assms(2,3) by (simp add: build_wrr_def w)
qed

lemma build_wrr_entries:
  assumes "\<exists>x\<in>set b. sb_weight x \<noteq> 0" "length b \<le> 2 ^ 16"
  shows "build_wrr b \<noteq> []" "x \<in> set (build_wrr b) \<Longrightarrow> x < length b \<and> sb_weight (b ! x) \<noteq> 0"
    "length (build_wrr b) = snd (wrr_weights b)"
proof -
  obtain w tot where w: "wrr_weights b = (w, tot)" by fastforce
  note ok = wrr_weights_ok [OF assms(1) w]
  have ex: "\<exists>k<length w. w ! k \<noteq> 0" using assms(1) ok(1,4) by (metis in_set_conv_nth)
  have "wrr_inv w (replicate (length w) 0)"
    using ok(2,3) by (simp add: wrr_inv_def sum_list_replicate)
  from wrr_seq_credit [OF this ex ok(2), of tot] assms(2) ok(1)
  have s: "set (build_wrr b) \<subseteq> {i. i < length w \<and> w ! i \<noteq> 0}" "length (build_wrr b) = tot"
    by (auto simp: build_wrr_def w)
  then show "build_wrr b \<noteq> []" "length (build_wrr b) = snd (wrr_weights b)" using ok(3) w by auto
  show "x \<in> set (build_wrr b) \<Longrightarrow> x < length b \<and> sb_weight (b ! x) \<noteq> 0"
    using s(1) ok(1,4) by auto
qed


definition demo_backends :: "nat list \<Rightarrow> sched_backend list" where
  "demo_backends ws = map (\<lambda>w. \<lparr>sb_ip = 0, sb_port = 0, sb_weight = w\<rparr>) ws"




text \<open>\<open>kWrrMaxSeq\<close> is not a bound on the length of the sequence. Scaling keeps every positive
  weight at 1 or more, so the sequence can be longer, here by one; it is never longer than
  \<open>kWrrMaxSeq\<close> plus the number of backends.\<close>

lemma wrr_max_seq_exceeded:
  "length (build_wrr (demo_backends [1, 1, 100000])) = kWrrMaxSeq + 1 \<and>
   (\<forall>b. (\<exists>x\<in>set b. sb_weight x \<noteq> 0) \<longrightarrow> length b \<le> 2 ^ 16 \<longrightarrow> length (build_wrr b) \<le> kWrrMaxSeq + length b)"
proof (intro conjI allI impI)
  let ?b = "demo_backends [1, 1, 100000]"
  have "length (build_wrr ?b) = snd (wrr_weights ?b)"
    by (rule build_wrr_entries) (simp_all add: demo_backends_def)
  also have "\<dots> = kWrrMaxSeq + 1"
    by (simp add: wrr_weights_def wrr_gcd_def demo_backends_def kWrrMaxSeq_def Let_def)
  finally show "length (build_wrr ?b) = kWrrMaxSeq + 1" .
  fix b :: "sched_backend list"
  assume b: "\<exists>x\<in>set b. sb_weight x \<noteq> 0" "length b \<le> 2 ^ 16"
  show "length (build_wrr b) \<le> kWrrMaxSeq + length b"
    unfolding build_wrr_entries(3) [OF b] by (rule wrr_weights_ok(5) [OF b(1) prod.collapse [symmetric]])
qed

end
