(* ===== verification/Maglev.thy ===== *)
theory Maglev
  imports Scheduler "HOL-Library.Log_Nat"
begin

text \<open>
  The Maglev lookup table of \<^verbatim>\<open>src/lb/scheduler.cpp\<close> (\<^verbatim>\<open>build_maglev\<close>) and the scheduler's \<^verbatim>\<open>build\<close>
  and \<^verbatim>\<open>pick\<close>. The credits are C++ \<^verbatim>\<open>double\<close>s: every operation on them is the exact rational
  operation followed by rounding to the nearest 53-bit value, ties to even (\<open>fl\<close>). All credits are
  0 or between 2 to the -33 and 2, so exponent range plays no part. \<^verbatim>\<open>rte_jhash_32b\<close> is a parameter.
\<close>

section \<open>Rounding\<close>

definition pow2 :: "int \<Rightarrow> rat" where
  "pow2 k = (if 0 \<le> k then 2 ^ nat k else 1 / 2 ^ nat (- k))"

definition round_even :: "rat \<Rightarrow> int" where
  "round_even x =
     (let f = \<lfloor>x\<rfloor>; d = x - of_int f
      in if d < 1 / 2 then f else if d > 1 / 2 then f + 1 else if even f then f else f + 1)"

definition exponent :: "rat \<Rightarrow> int" where
  "exponent x =
     (let (p, q) = quotient_of x; e = bitlen p - bitlen q in if pow2 e \<le> x then e else e - 1)"

definition fl :: "rat \<Rightarrow> rat" where
  "fl x =
     (if x = 0 then 0
      else let u = pow2 (exponent \<bar>x\<bar> - 52) in sgn x * of_int (round_even (\<bar>x\<bar> / u)) * u)"

section \<open>Building the table\<close>

definition kMaglevSize :: nat where "kMaglevSize = 65537"
definition kEmpty :: nat where "kEmpty = 65535"

text \<open>The constants of one run: the backends, their offsets and skips, and the largest weight.\<close>

record maglev_env =
  mg_b :: "sched_backend list"
  mg_offset :: "nat list"
  mg_skip :: "nat list"
  mg_max_w :: nat

record maglev_state =
  mg_table :: "nat list"
  mg_next :: "nat list"
  mg_credit :: "rat list"
  mg_filled :: nat

definition maglev_setup :: "(u32 \<Rightarrow> u32 \<Rightarrow> u32 \<Rightarrow> u32) \<Rightarrow> sched_backend list \<Rightarrow> maglev_env" where
  "maglev_setup jhash2 b =
     \<lparr>mg_b = b,
      mg_offset = map (\<lambda>x. unat (jhash2 (sb_ip x) (ucast (sb_port x)) 0x2545F491) mod kMaglevSize) b,
      mg_skip = map (\<lambda>x. unat (jhash2 (sb_ip x) (ucast (sb_port x)) 0x7A3B1C5D) mod (kMaglevSize - 1) + 1) b,
      mg_max_w = foldl (\<lambda>m x. max m (sb_weight x)) 0 b\<rparr>"

text \<open>The \<^verbatim>\<open>do ... while\<close> along a backend's permutation: the first empty slot and the position after
  it. It returns only if there is one.\<close>

partial_function (option) maglev_probe :: "nat list \<Rightarrow> nat \<Rightarrow> nat \<Rightarrow> nat \<Rightarrow> (nat \<times> nat) option" where
  "maglev_probe tab offs skip next =
     (let c = (offs + next * skip) mod kMaglevSize
      in if tab ! c \<noteq> kEmpty then maglev_probe tab offs skip (next + 1) else Some (c, next + 1))"

definition maglev_credit :: "maglev_env \<Rightarrow> nat \<Rightarrow> rat \<Rightarrow> rat" where
  "maglev_credit e i cr = fl (cr + fl (of_nat (sb_weight (mg_b e ! i)) / of_nat (mg_max_w e)))"

definition maglev_visit :: "maglev_env \<Rightarrow> nat \<Rightarrow> maglev_state \<Rightarrow> maglev_state option" where
  "maglev_visit e i st =
     (if sb_weight (mg_b e ! i) = 0 then Some st
      else
        let cr = maglev_credit e i (mg_credit st ! i)
        in if cr < 1 then Some (st\<lparr>mg_credit := (mg_credit st)[i := cr]\<rparr>)
           else
             case maglev_probe (mg_table st) (mg_offset e ! i) (mg_skip e ! i) (mg_next st ! i) of
               None \<Rightarrow> None
             | Some (c, nx) \<Rightarrow>
                 Some \<lparr>mg_table = (mg_table st)[c := i mod 2 ^ 16],
                       mg_next = (mg_next st)[i := nx],
                       mg_credit = (mg_credit st)[i := fl (cr - 1)],
                       mg_filled = mg_filled st + 1\<rparr>)"

primrec maglev_for :: "maglev_env \<Rightarrow> nat list \<Rightarrow> maglev_state \<Rightarrow> maglev_state option" where
  "maglev_for e [] st = Some st"
| "maglev_for e (i # is) st =
     (if mg_filled st < kMaglevSize
      then (case maglev_visit e i st of None \<Rightarrow> None | Some st' \<Rightarrow> maglev_for e is st')
      else Some st)"

partial_function (option) maglev_while :: "maglev_env \<Rightarrow> maglev_state \<Rightarrow> maglev_state option" where
  "maglev_while e st =
     (if mg_filled st < kMaglevSize
      then (case maglev_for e [0..<length (mg_b e)] st of None \<Rightarrow> None | Some st' \<Rightarrow> maglev_while e st')
      else Some st)"

definition maglev_start :: "nat \<Rightarrow> maglev_state" where
  "maglev_start n =
     \<lparr>mg_table = replicate kMaglevSize kEmpty, mg_next = replicate n 0, mg_credit = replicate n 0,
      mg_filled = 0\<rparr>"

definition build_maglev :: "(u32 \<Rightarrow> u32 \<Rightarrow> u32 \<Rightarrow> u32) \<Rightarrow> sched_backend list \<Rightarrow> nat list option" where
  "build_maglev jhash2 b =
     map_option mg_table (maglev_while (maglev_setup jhash2 b) (maglev_start (length b)))"

text \<open>\<^verbatim>\<open>Scheduler::build\<close> on a scheduler object; the cursors are reset only when a table is built.\<close>

definition sched_build :: "(u32 \<Rightarrow> u32 \<Rightarrow> u32 \<Rightarrow> u32) \<Rightarrow> scheduler_type \<Rightarrow> sched_backend list \<Rightarrow> scheduler
    \<Rightarrow> scheduler option" where
  "sched_build jhash2 ty b s =
     (if \<not> (\<exists>x\<in>set b. sb_weight x > 0) then Some (s\<lparr>sched_type := ty, sched_table := []\<rparr>)
      else
        case (if ty = MAGLEV then build_maglev jhash2 b else Some (build_wrr b)) of
          None \<Rightarrow> None
        | Some tab \<Rightarrow>
            Some (s\<lparr>sched_type := ty, sched_table := tab,
                    sched_cursor := map (\<lambda>i. word_of_nat (i * 7919)) [0..<length (sched_cursor s)]\<rparr>))"

section \<open>Probing\<close>

lemma fl_0 [simp]: "fl 0 = 0"
  by (simp add: fl_def)

lemma fl_1 [simp]: "fl 1 = 1"
  by (simp add: fl_def exponent_def pow2_def round_even_def quotient_of_number Let_def)

text \<open>65537 has no divisor up to 256, so it is prime.\<close>

lemma no_small_divisor: "\<forall>d\<in>set [2..256]. 65537 mod d \<noteq> (0 :: int)"
  by code_simp

lemma small_not_divisor:
  assumes "x dvd (65537 :: nat)" "1 < x"
  shows "257 \<le> x"
proof (rule ccontr)
  assume "\<not> 257 \<le> x"
  then have "int x \<in> set [2..256]" unfolding set_upto using assms(2) by simp
  from bspec [OF no_small_divisor this] have "65537 mod int x \<noteq> 0" .
  moreover have "int x dvd 65537" using assms(1) by (metis of_nat_dvd_iff of_nat_numeral)
  ultimately show False by (simp add: dvd_eq_mod_eq_0)
qed

lemma coprime_kMaglevSize:
  assumes "0 < s" "s < kMaglevSize"
  shows "coprime s kMaglevSize"
proof (rule ccontr)
  assume nc: "\<not> coprime s kMaglevSize"
  define d where "d = gcd s kMaglevSize"
  have ds: "d dvd s" and dM: "d dvd 65537" by (simp_all add: d_def kMaglevSize_def [symmetric])
  have "d \<noteq> 1" using nc by (simp add: d_def coprime_iff_gcd_eq_1)
  moreover have "d \<noteq> 0" using assms(1) by (simp add: d_def)
  ultimately have d1: "1 < d" by simp
  obtain q where q: "65537 = d * q" using dM by (elim dvdE)
  have "d < 65537" using dvd_imp_le [OF ds assms(1)] assms(2) by (simp add: kMaglevSize_def)
  then have "q \<noteq> 1" "q \<noteq> 0" using q by auto
  then have "257 \<le> q" using small_not_divisor [of q] q by simp
  moreover have "257 \<le> d" using small_not_divisor [OF dM d1] .
  ultimately have "257 * 257 \<le> d * q" by (intro mult_le_mono)
  then show False using q by simp
qed

text \<open>A backend's permutation visits every slot.\<close>

definition perm :: "maglev_env \<Rightarrow> nat \<Rightarrow> nat \<Rightarrow> nat" where
  "perm e i j = (mg_offset e ! i + j * mg_skip e ! i) mod kMaglevSize"

lemma skip_steps_surj:
  assumes "0 < s" "s < kMaglevSize" "c < kMaglevSize"
  shows "\<exists>j. (a + j * s) mod kMaglevSize = c"
proof -
  let ?f = "\<lambda>j. (a + j * s) mod kMaglevSize"
  have "inj_on ?f {..<kMaglevSize}"
  proof (rule linorder_inj_onI)
    fix j k assume jk: "j < k" "j \<in> {..<kMaglevSize}" "k \<in> {..<kMaglevSize}"
    show "?f j \<noteq> ?f k"
    proof
      assume "?f j = ?f k"
      then have "kMaglevSize dvd (a + k * s) - (a + j * s)"
        using jk(1) mod_eq_dvd_iff_nat [of "a + j * s" "a + k * s" kMaglevSize] by simp
      then have "kMaglevSize dvd (k - j) * s" by (simp add: diff_mult_distrib)
      then have "kMaglevSize dvd k - j"
        using coprime_kMaglevSize [OF assms(1,2)] by (simp add: coprime_dvd_mult_left_iff coprime_commute)
      then show False using dvd_imp_le [of kMaglevSize "k - j"] jk by simp
    qed
  qed auto
  then have "card (?f ` {..<kMaglevSize}) = kMaglevSize" by (simp add: card_image)
  moreover have "?f ` {..<kMaglevSize} \<subseteq> {..<kMaglevSize}" by (auto simp: kMaglevSize_def)
  ultimately have "?f ` {..<kMaglevSize} = {..<kMaglevSize}" by (intro card_subset_eq) auto
  then have "c \<in> ?f ` {..<kMaglevSize}" using assms(3) by (simp only: lessThan_iff)
  then show ?thesis by (elim imageE) (metis)
qed

lemma maglev_probe_finds:
  assumes "nx \<le> j" "tab ! perm e i j = kEmpty"
  shows "\<exists>k\<ge>nx. maglev_probe tab (mg_offset e ! i) (mg_skip e ! i) nx = Some (perm e i k, k + 1) \<and>
    tab ! perm e i k = kEmpty \<and> (\<forall>l. nx \<le> l \<longrightarrow> l < k \<longrightarrow> tab ! perm e i l \<noteq> kEmpty)"
  using assms(1)
proof (induction "j - nx" arbitrary: nx)
  case 0
  then show ?case
    using assms(2) by (intro exI [of _ nx]) (simp add: maglev_probe.simps [of tab _ _ nx] perm_def Let_def)
next
  case (Suc n)
  show ?case
  proof (cases "tab ! perm e i nx = kEmpty")
    case True
    then show ?thesis
      by (intro exI [of _ nx]) (simp add: maglev_probe.simps [of tab _ _ nx] perm_def Let_def)
  next
    case False
    have "n = j - Suc nx" "Suc nx \<le> j" using Suc.hyps(2) by auto
    from Suc.hyps(1) [OF this] obtain k where k: "Suc nx \<le> k"
      "maglev_probe tab (mg_offset e ! i) (mg_skip e ! i) (Suc nx) = Some (perm e i k, k + 1)"
      "tab ! perm e i k = kEmpty" "\<forall>l. Suc nx \<le> l \<longrightarrow> l < k \<longrightarrow> tab ! perm e i l \<noteq> kEmpty"
      by blast
    moreover have "nx \<le> l \<Longrightarrow> l < k \<Longrightarrow> tab ! perm e i l \<noteq> kEmpty" for l
      using k(4) False by (cases "l = nx") auto
    ultimately show ?thesis
      using False by (intro exI [of _ k]) (simp add: maglev_probe.simps [of tab _ _ nx] perm_def Let_def)
  qed
qed

section \<open>The invariant of the outer loop\<close>

definition filled_slots :: "maglev_state \<Rightarrow> nat set" where
  "filled_slots st = {c. c < kMaglevSize \<and> mg_table st ! c \<noteq> kEmpty}"

definition env_ok :: "maglev_env \<Rightarrow> bool" where
  "env_ok e \<longleftrightarrow> length (mg_b e) < kEmpty \<and>
     (\<forall>i<length (mg_b e). 0 < mg_skip e ! i \<and> mg_skip e ! i < kMaglevSize) \<and>
     (\<forall>i<length (mg_b e). sb_weight (mg_b e ! i) \<le> mg_max_w e) \<and> 0 < mg_max_w e \<and>
     (\<exists>i<length (mg_b e). sb_weight (mg_b e ! i) = mg_max_w e)"

definition mg_inv :: "maglev_env \<Rightarrow> maglev_state \<Rightarrow> bool" where
  "mg_inv e st \<longleftrightarrow>
     length (mg_table st) = kMaglevSize \<and> length (mg_next st) = length (mg_b e) \<and>
     length (mg_credit st) = length (mg_b e) \<and> mg_filled st = card (filled_slots st) \<and>
     (\<forall>c<kMaglevSize. mg_table st ! c = kEmpty \<or>
        (mg_table st ! c < length (mg_b e) \<and> sb_weight (mg_b e ! (mg_table st ! c)) \<noteq> 0)) \<and>
     (\<forall>i<length (mg_b e). \<forall>j<mg_next st ! i. mg_table st ! perm e i j \<noteq> kEmpty)"

lemma perm_less [simp]: "perm e i j < kMaglevSize"
  by (simp add: perm_def kMaglevSize_def)

lemma empty_slot:
  assumes "mg_inv e st" "mg_filled st < kMaglevSize"
  shows "\<exists>c<kMaglevSize. mg_table st ! c = kEmpty"
proof (rule ccontr)
  assume "\<not> (\<exists>c<kMaglevSize. mg_table st ! c = kEmpty)"
  then have "filled_slots st = {..<kMaglevSize}" by (auto simp: filled_slots_def)
  then show False using assms by (simp add: mg_inv_def)
qed

lemma probe_next:
  assumes e: "env_ok e" and inv: "mg_inv e st" and i: "i < length (mg_b e)" and f: "mg_filled st < kMaglevSize"
  shows "\<exists>k. maglev_probe (mg_table st) (mg_offset e ! i) (mg_skip e ! i) (mg_next st ! i) = Some (perm e i k, k + 1) \<and>
    mg_table st ! perm e i k = kEmpty \<and> (\<forall>l<k. mg_table st ! perm e i l \<noteq> kEmpty)"
proof -
  obtain c where c: "c < kMaglevSize" "mg_table st ! c = kEmpty" using empty_slot [OF inv f] by blast
  obtain j where j: "perm e i j = c"
    using skip_steps_surj [OF _ _ c(1)] e i unfolding env_ok_def perm_def by blast
  have old: "\<And>l. l < mg_next st ! i \<Longrightarrow> mg_table st ! perm e i l \<noteq> kEmpty" using inv i by (simp add: mg_inv_def)
  have "mg_next st ! i \<le> j" using old [of j] c(2) j by (metis not_less)
  from maglev_probe_finds [OF this] c(2) j
  obtain k where "maglev_probe (mg_table st) (mg_offset e ! i) (mg_skip e ! i) (mg_next st ! i) = Some (perm e i k, k + 1)"
    "mg_table st ! perm e i k = kEmpty" "\<forall>l. mg_next st ! i \<le> l \<longrightarrow> l < k \<longrightarrow> mg_table st ! perm e i l \<noteq> kEmpty"
    by blast
  then show ?thesis using old by (metis not_less)
qed

text \<open>One backend's turn: it takes a slot exactly when its credit reaches 1.\<close>

definition takes :: "maglev_env \<Rightarrow> nat \<Rightarrow> rat \<Rightarrow> bool" where
  "takes e i cr \<longleftrightarrow> sb_weight (mg_b e ! i) \<noteq> 0 \<and> \<not> maglev_credit e i cr < 1"

definition credit_after :: "maglev_env \<Rightarrow> nat \<Rightarrow> rat \<Rightarrow> rat" where
  "credit_after e i cr =
     (if sb_weight (mg_b e ! i) = 0 then cr
      else if maglev_credit e i cr < 1 then maglev_credit e i cr else fl (maglev_credit e i cr - 1))"

abbreviation slots_of :: "maglev_state \<Rightarrow> nat \<Rightarrow> nat" where
  "slots_of st i \<equiv> card {c. c < kMaglevSize \<and> mg_table st ! c = i}"

lemma fill_slot:
  assumes e: "env_ok e" and inv: "mg_inv e st" and i: "i < length (mg_b e)" "sb_weight (mg_b e ! i) \<noteq> 0"
    and k: "mg_table st ! perm e i k = kEmpty" "\<forall>l<k. mg_table st ! perm e i l \<noteq> kEmpty"
    and st': "st' = \<lparr>mg_table = (mg_table st)[perm e i k := i mod 2 ^ 16], mg_next = (mg_next st)[i := k + 1],
        mg_credit = (mg_credit st)[i := x], mg_filled = mg_filled st + 1\<rparr>"
  shows "mg_inv e st'"
    and "m < length (mg_b e) \<Longrightarrow> slots_of st' m = slots_of st m + (if m = i then 1 else 0)"
proof -
  let ?c = "perm e i k"
  have len: "length (mg_table st) = kMaglevSize" using inv by (simp add: mg_inv_def)
  have i16: "i mod 2 ^ 16 = i" "i \<noteq> kEmpty" using i e by (auto simp: env_ok_def kEmpty_def)
  have tab: "c < kMaglevSize \<Longrightarrow> mg_table st' ! c = (if c = ?c then i else mg_table st ! c)" for c
    using len i16(1) by (simp add: st' nth_list_update)
  have "c \<in> filled_slots st' \<longleftrightarrow> c = ?c \<or> c \<in> filled_slots st" for c
    using tab [of c] i16(2) by (cases "c = ?c") (auto simp: filled_slots_def)
  then have "filled_slots st' = insert ?c (filled_slots st)" "?c \<notin> filled_slots st"
    using k(1) by (auto simp: filled_slots_def)
  moreover have "finite (filled_slots st)" by (simp add: filled_slots_def)
  ultimately have "card (filled_slots st') = card (filled_slots st) + 1" by simp
  moreover have "mg_table st' ! perm e j l \<noteq> kEmpty" if j: "j < length (mg_b e)" "l < mg_next st' ! j" for j l
  proof (cases "j = i \<and> \<not> l < mg_next st ! i")
    case True
    then have "l \<le> k" using j(2) inv i(1) by (simp add: st' mg_inv_def)
    then show ?thesis using True k(2) tab [of "perm e i l"] i16(2) by (cases "l = k") auto
  next
    case False
    then have "l < mg_next st ! j" using j inv by (cases "j = i") (auto simp: st' mg_inv_def)
    then have "mg_table st ! perm e j l \<noteq> kEmpty" using inv j(1) by (simp add: mg_inv_def)
    then show ?thesis using tab [of "perm e j l"] i16(2) by simp
  qed
  moreover have "length (mg_table st') = kMaglevSize" "length (mg_next st') = length (mg_b e)"
    "length (mg_credit st') = length (mg_b e)" "mg_filled st' = card (filled_slots st) + 1"
    using inv by (simp_all add: st' mg_inv_def)
  moreover have "mg_table st' ! c = kEmpty \<or> mg_table st' ! c < length (mg_b e) \<and> sb_weight (mg_b e ! (mg_table st' ! c)) \<noteq> 0"
    if "c < kMaglevSize" for c
    using tab [OF that] inv i that by (auto simp: mg_inv_def)
  ultimately show "mg_inv e st'" unfolding mg_inv_def by metis
  assume m: "m < length (mg_b e)"
  then have "m \<noteq> kEmpty" using e by (simp add: env_ok_def)
  let ?A = "{c. c < kMaglevSize \<and> mg_table st ! c = m}"
  have nc: "?c \<notin> ?A" using k(1) \<open>m \<noteq> kEmpty\<close> by simp
  have mem: "c \<in> {c. c < kMaglevSize \<and> mg_table st' ! c = m} \<longleftrightarrow> c \<in> ?A \<or> (c = ?c \<and> m = i)" for c
    using tab [of c] nc by (cases "c = ?c") auto
  have "{c. c < kMaglevSize \<and> mg_table st' ! c = m} = (if m = i then insert ?c ?A else ?A)"
    using mem by (intro set_eqI) (auto simp only: insert_iff split: if_splits)
  then show "slots_of st' m = slots_of st m + (if m = i then 1 else 0)" using nc by simp
qed

lemma visit_ok:
  assumes e: "env_ok e" and inv: "mg_inv e st" and i: "i < length (mg_b e)" and f: "mg_filled st < kMaglevSize"
  obtains st' where "maglev_visit e i st = Some st'" "mg_inv e st'"
    "mg_credit st' = (mg_credit st)[i := credit_after e i (mg_credit st ! i)]"
    "mg_filled st' = mg_filled st + (if takes e i (mg_credit st ! i) then 1 else 0)"
    "\<And>m. m < length (mg_b e) \<Longrightarrow>
       slots_of st' m = slots_of st m + (if m = i \<and> takes e i (mg_credit st ! i) then 1 else 0)"
proof (cases "takes e i (mg_credit st ! i)")
  case True
  then have w: "sb_weight (mg_b e ! i) \<noteq> 0" "\<not> maglev_credit e i (mg_credit st ! i) < 1"
    by (auto simp: takes_def)
  obtain k where k: "maglev_probe (mg_table st) (mg_offset e ! i) (mg_skip e ! i) (mg_next st ! i) = Some (perm e i k, k + 1)"
    "mg_table st ! perm e i k = kEmpty" "\<forall>l<k. mg_table st ! perm e i l \<noteq> kEmpty"
    using probe_next [OF e inv i f] by blast
  define st' where "st' = \<lparr>mg_table = (mg_table st)[perm e i k := i mod 2 ^ 16], mg_next = (mg_next st)[i := k + 1],
        mg_credit = (mg_credit st)[i := fl (maglev_credit e i (mg_credit st ! i) - 1)], mg_filled = mg_filled st + 1\<rparr>"
  note fs = fill_slot [OF e inv i w(1) k(2,3) st'_def]
  have "maglev_visit e i st = Some st'"
    using w k(1) unfolding maglev_visit_def Let_def st'_def by simp
  then show thesis
    using that fs True w by (simp add: credit_after_def) (simp add: st'_def)
next
  case False
  define st' where "st' = st\<lparr>mg_credit := (mg_credit st)[i := credit_after e i (mg_credit st ! i)]\<rparr>"
  have "mg_inv e st'" using inv by (simp add: mg_inv_def st'_def filled_slots_def)
  moreover have "maglev_visit e i st = Some st'"
    using False by (auto simp: maglev_visit_def st'_def takes_def credit_after_def Let_def)
  ultimately show thesis using that False by (simp add: st'_def)
qed

section \<open>Rounds\<close>

text \<open>One pass over the backends. If the table is still not full afterwards, every backend had its
  turn; in any case no backend took more than one slot.\<close>

lemma for_ok:
  assumes e: "env_ok e" and "mg_inv e st" "distinct is" "set is \<subseteq> {..<length (mg_b e)}"
  shows "\<exists>st'. maglev_for e is st = Some st' \<and> mg_inv e st' \<and> mg_filled st \<le> mg_filled st' \<and>
    (\<forall>m<length (mg_b e). slots_of st m \<le> slots_of st' m \<and> slots_of st' m \<le> slots_of st m + 1) \<and>
    (\<forall>m<length (mg_b e). m \<notin> set is \<longrightarrow> slots_of st' m = slots_of st m) \<and>
    (mg_filled st' < kMaglevSize \<longrightarrow>
       (\<forall>m<length (mg_b e). mg_credit st' ! m =
            (if m \<in> set is then credit_after e m (mg_credit st ! m) else mg_credit st ! m)) \<and>
       (\<forall>m\<in>set is. slots_of st' m = slots_of st m + (if takes e m (mg_credit st ! m) then 1 else 0))) \<and>
    (mg_filled st < kMaglevSize \<longrightarrow> (\<exists>m\<in>set is. takes e m (mg_credit st ! m)) \<longrightarrow> mg_filled st < mg_filled st')"
  using assms(2-4)
proof (induction "is" arbitrary: st)
  case Nil
  then show ?case by simp
next
  case (Cons i js)
  show ?case
  proof (cases "mg_filled st < kMaglevSize")
    case False
    then show ?thesis using Cons.prems by simp
  next
    case True
    have i: "i < length (mg_b e)" "i \<notin> set js" "distinct js" "set js \<subseteq> {..<length (mg_b e)}"
      using Cons.prems by auto
    let ?t = "takes e i (mg_credit st ! i)"
    obtain u where u: "maglev_visit e i st = Some u" "mg_inv e u"
      "mg_credit u = (mg_credit st)[i := credit_after e i (mg_credit st ! i)]"
      "mg_filled u = mg_filled st + (if ?t then 1 else 0)"
      "\<And>m. m < length (mg_b e) \<Longrightarrow> slots_of u m = slots_of st m + (if m = i \<and> ?t then 1 else 0)"
      by (rule visit_ok [OF e Cons.prems(1) i(1) True]) blast
    have lc: "length (mg_credit st) = length (mg_b e)" using Cons.prems(1) by (simp add: mg_inv_def)
    have cr: "m < length (mg_b e) \<Longrightarrow> m \<noteq> i \<Longrightarrow> mg_credit u ! m = mg_credit st ! m"
      "mg_credit u ! i = credit_after e i (mg_credit st ! i)" for m
      using i(1) lc by (simp_all add: u(3))
    obtain v where v: "maglev_for e js u = Some v" "mg_inv e v" "mg_filled u \<le> mg_filled v"
      "\<And>m. m < length (mg_b e) \<Longrightarrow> slots_of u m \<le> slots_of v m \<and> slots_of v m \<le> slots_of u m + 1"
      "\<And>m. m < length (mg_b e) \<Longrightarrow> m \<notin> set js \<Longrightarrow> slots_of v m = slots_of u m"
      and vc: "mg_filled v < kMaglevSize \<Longrightarrow> m < length (mg_b e) \<Longrightarrow> mg_credit v ! m =
            (if m \<in> set js then credit_after e m (mg_credit u ! m) else mg_credit u ! m)"
      and vs: "mg_filled v < kMaglevSize \<Longrightarrow> m \<in> set js \<Longrightarrow>
            slots_of v m = slots_of u m + (if takes e m (mg_credit u ! m) then 1 else 0)"
      and vp: "mg_filled u < kMaglevSize \<Longrightarrow> \<exists>m\<in>set js. takes e m (mg_credit u ! m) \<Longrightarrow> mg_filled u < mg_filled v" for m
      using Cons.IH [OF u(2) i(3,4)] by blast
    have js: "m \<in> set js \<Longrightarrow> m < length (mg_b e) \<and> m \<noteq> i \<and> mg_credit u ! m = mg_credit st ! m" for m
      using i(2,4) cr(1) by (metis lessThan_iff subsetD)
    show ?thesis
    proof (intro exI [of _ v] conjI allI impI ballI)
      show "maglev_for e (i # js) st = Some v" using True u(1) v(1) by simp
      show "mg_inv e v" "mg_filled st \<le> mg_filled v" using v(2,3) u(4) by simp_all
      fix m
      show "slots_of st m \<le> slots_of v m" "slots_of v m \<le> slots_of st m + 1" if m: "m < length (mg_b e)"
        using v(4,5) [OF m] u(5) [OF m] i(2) by (cases "m = i"; simp)+
      show "slots_of v m = slots_of st m" if "m < length (mg_b e)" "m \<notin> set (i # js)"
        using v(5) u(5) that by simp
      show "mg_credit v ! m = (if m \<in> set (i # js) then credit_after e m (mg_credit st ! m) else mg_credit st ! m)"
        if "mg_filled v < kMaglevSize" "m < length (mg_b e)"
        using vc [OF that] cr i(2) js that by (cases "m = i") auto
      show "slots_of v m = slots_of st m + (if takes e m (mg_credit st ! m) then 1 else 0)"
        if "mg_filled v < kMaglevSize" "m \<in> set (i # js)"
        using that vs [OF that(1), of m] v(5) [OF i(1,2)] u(5) js i(1) by (cases "m = i") auto
    next
      assume "\<exists>m\<in>set (i # js). takes e m (mg_credit st ! m)"
      then show "mg_filled st < mg_filled v"
        using u(4) v(3) vp js True by (cases ?t) auto
    qed
  qed
qed

text \<open>At the start of a round, backends of the same weight have the same credit and the same number
  of slots, and those of the largest weight have no credit.\<close>

definition round_ok :: "maglev_env \<Rightarrow> maglev_state \<Rightarrow> bool" where
  "round_ok e st \<longleftrightarrow>
     (\<forall>i<length (mg_b e). sb_weight (mg_b e ! i) = mg_max_w e \<longrightarrow> mg_credit st ! i = 0) \<and>
     (\<forall>i<length (mg_b e). \<forall>j<length (mg_b e). sb_weight (mg_b e ! i) = sb_weight (mg_b e ! j) \<longrightarrow>
        mg_credit st ! i = mg_credit st ! j \<and> slots_of st i = slots_of st j)"

lemma max_weight_takes:
  assumes "0 < mg_max_w e" "sb_weight (mg_b e ! i) = mg_max_w e"
  shows "takes e i 0" "credit_after e i 0 = 0"
proof -
  have "maglev_credit e i 0 = 1" using assms by (simp add: maglev_credit_def)
  then show "takes e i 0" "credit_after e i 0 = 0" using assms by (simp_all add: takes_def credit_after_def)
qed

lemma same_weight_step:
  "sb_weight (mg_b e ! i) = sb_weight (mg_b e ! j) \<Longrightarrow> takes e i c = takes e j c \<and> credit_after e i c = credit_after e j c"
  by (simp add: takes_def credit_after_def maglev_credit_def)

lemma filled_le: "mg_inv e st \<Longrightarrow> mg_filled st \<le> kMaglevSize"
  using card_mono [of "{..<kMaglevSize}" "filled_slots st"] by (auto simp: mg_inv_def filled_slots_def)

lemma round_step:
  assumes e: "env_ok e" and inv: "mg_inv e st" and r: "round_ok e st" and f: "mg_filled st < kMaglevSize"
  obtains st' where "maglev_for e [0..<length (mg_b e)] st = Some st'" "mg_inv e st'" "mg_filled st < mg_filled st'"
    "mg_filled st' < kMaglevSize \<Longrightarrow> round_ok e st'"
    "\<And>i j. i < length (mg_b e) \<Longrightarrow> j < length (mg_b e) \<Longrightarrow> sb_weight (mg_b e ! i) = sb_weight (mg_b e ! j) \<Longrightarrow>
       slots_of st' i \<le> slots_of st' j + 1"
proof -
  obtain k where k: "k < length (mg_b e)" "sb_weight (mg_b e ! k) = mg_max_w e" and mx: "0 < mg_max_w e"
    using e by (auto simp: env_ok_def)
  have z: "takes e k (mg_credit st ! k)" using r k max_weight_takes [OF mx k(2)] by (simp add: round_ok_def)
  let ?is = "[0..<length (mg_b e)]"
  have all: "set ?is = {..<length (mg_b e)}" by auto
  obtain st' where st': "maglev_for e ?is st = Some st'" "mg_inv e st'"
    and b: "\<forall>m<length (mg_b e). slots_of st m \<le> slots_of st' m \<and> slots_of st' m \<le> slots_of st m + 1"
    and F: "mg_filled st' < kMaglevSize \<longrightarrow>
       (\<forall>m<length (mg_b e). mg_credit st' ! m =
            (if m \<in> set ?is then credit_after e m (mg_credit st ! m) else mg_credit st ! m)) \<and>
       (\<forall>m\<in>set ?is. slots_of st' m = slots_of st m + (if takes e m (mg_credit st ! m) then 1 else 0))"
    and P: "mg_filled st < kMaglevSize \<longrightarrow> (\<exists>m\<in>set ?is. takes e m (mg_credit st ! m)) \<longrightarrow> mg_filled st < mg_filled st'"
    using for_ok [OF e inv distinct_upt equalityD1 [OF all]] by (elim exE conjE) (rule that)
  have p: "mg_filled st < mg_filled st'" using P f z k(1) unfolding all by blast
  have c: "mg_credit st' ! m = credit_after e m (mg_credit st ! m)"
    and s: "slots_of st' m = slots_of st m + (if takes e m (mg_credit st ! m) then 1 else 0)"
    if "mg_filled st' < kMaglevSize" "m < length (mg_b e)" for m
    using F that unfolding all by simp_all
  have eq: "mg_credit st ! i = mg_credit st ! j \<and> slots_of st i = slots_of st j"
    if "i < length (mg_b e)" "j < length (mg_b e)" "sb_weight (mg_b e ! i) = sb_weight (mg_b e ! j)" for i j
    using r that unfolding round_ok_def by blast
  have "round_ok e st'" if q: "mg_filled st' < kMaglevSize"
    unfolding round_ok_def
  proof (intro conjI allI impI)
    fix i assume i: "i < length (mg_b e)" "sb_weight (mg_b e ! i) = mg_max_w e"
    then show "mg_credit st' ! i = 0"
      using c [OF q i(1)] max_weight_takes(2) [OF mx i(2)] r by (simp add: round_ok_def)
  next
    fix i j assume ij: "i < length (mg_b e)" "j < length (mg_b e)" "sb_weight (mg_b e ! i) = sb_weight (mg_b e ! j)"
    show "mg_credit st' ! i = mg_credit st' ! j" "slots_of st' i = slots_of st' j"
      using c [OF q] s [OF q] ij eq [OF ij] same_weight_step [OF ij(3)] by simp_all
  qed
  moreover have "slots_of st' i \<le> slots_of st' j + 1"
    if "i < length (mg_b e)" "j < length (mg_b e)" "sb_weight (mg_b e ! i) = sb_weight (mg_b e ! j)" for i j
  proof -
    have "slots_of st' i \<le> slots_of st i + 1" "slots_of st j \<le> slots_of st' j" using b that(1,2) by blast+
    then show ?thesis using eq [OF that] by linarith
  qed
  ultimately show thesis using that st' p by blast
qed

lemma while_ok:
  assumes "env_ok e" "mg_inv e st" "round_ok e st"
  shows "\<exists>st'. maglev_while e st = Some st' \<and> mg_inv e st' \<and> mg_filled st' = kMaglevSize \<and>
    (\<forall>i<length (mg_b e). \<forall>j<length (mg_b e). sb_weight (mg_b e ! i) = sb_weight (mg_b e ! j) \<longrightarrow>
       slots_of st' i \<le> slots_of st' j + 1)"
  using assms(2,3)
proof (induction "kMaglevSize - mg_filled st" arbitrary: st rule: less_induct)
  case less
  show ?case
  proof (cases "mg_filled st < kMaglevSize")
    case False
    then have "maglev_while e st = Some st" "mg_filled st = kMaglevSize"
      using filled_le [OF less.prems(1)] by (simp_all add: maglev_while.simps [of e st])
    moreover have "slots_of st i \<le> slots_of st j + 1"
      if "i < length (mg_b e)" "j < length (mg_b e)" "sb_weight (mg_b e ! i) = sb_weight (mg_b e ! j)" for i j
    proof -
      have "slots_of st i = slots_of st j" using less.prems(2) that unfolding round_ok_def by blast
      then show ?thesis by simp
    qed
    ultimately show ?thesis using less.prems(1) by blast
  next
    case True
    obtain u where u: "maglev_for e [0..<length (mg_b e)] st = Some u" "mg_inv e u" "mg_filled st < mg_filled u"
      "mg_filled u < kMaglevSize \<Longrightarrow> round_ok e u"
      "\<And>i j. i < length (mg_b e) \<Longrightarrow> j < length (mg_b e) \<Longrightarrow> sb_weight (mg_b e ! i) = sb_weight (mg_b e ! j) \<Longrightarrow>
         slots_of u i \<le> slots_of u j + 1"
      by (rule round_step [OF assms(1) less.prems True]) blast
    have w: "maglev_while e st = maglev_while e u" using True u(1) by (simp add: maglev_while.simps [of e st])
    show ?thesis
    proof (cases "mg_filled u < kMaglevSize")
      case True
      then show ?thesis unfolding w using less.hyps [OF _ u(2) u(4)] u(3) by simp
    next
      case False
      then have "maglev_while e u = Some u" by (simp add: maglev_while.simps [of e u])
      moreover have "mg_filled u = kMaglevSize" using False filled_le [OF u(2)] by simp
      ultimately show ?thesis unfolding w using u(2,5) by blast
    qed
  qed
qed

section \<open>The whole build\<close>

lemma foldl_max:
  fixes b :: "sched_backend list"
  shows "a \<le> foldl (\<lambda>m x. max m (sb_weight x)) a b"
    "x \<in> set b \<Longrightarrow> sb_weight x \<le> foldl (\<lambda>m x. max m (sb_weight x)) a b"
    "foldl (\<lambda>m x. max m (sb_weight x)) a b = a \<or> (\<exists>x\<in>set b. sb_weight x = foldl (\<lambda>m x. max m (sb_weight x)) a b)"
proof (induction b arbitrary: a)
  case (Cons y b)
  { case 1 show ?case using Cons(1) [of "max a (sb_weight y)"] by simp }
  { case 2 then show ?case using Cons(1,2) [of "max a (sb_weight y)"] by auto }
  { case 3 show ?case using Cons(3) [of "max a (sb_weight y)"] by (auto simp: max_def) }
qed simp_all

lemma setup_ok:
  assumes "\<exists>x\<in>set b. sb_weight x > 0" "length b < kEmpty"
  shows "env_ok (maglev_setup jhash2 b)" "mg_b (maglev_setup jhash2 b) = b"
proof -
  let ?m = "foldl (\<lambda>m x. max m (sb_weight x)) 0 b"
  have pos: "0 < ?m" using assms(1) foldl_max(2) [of _ b 0] by fastforce
  then have ex: "\<exists>x\<in>set b. sb_weight x = ?m" using foldl_max(3) [of 0 b] by auto
  have skip: "n mod (kMaglevSize - 1) + 1 < kMaglevSize" for n :: nat
    using mod_less_divisor [of "kMaglevSize - 1" n] by (simp add: kMaglevSize_def)
  show "env_ok (maglev_setup jhash2 b)"
    using assms(2) pos ex skip foldl_max(2) [of _ b 0]
    by (auto simp: env_ok_def maglev_setup_def in_set_conv_nth)
qed (simp add: maglev_setup_def)

lemma start_ok:
  assumes "mg_b e = b" "length b < kEmpty"
  shows "mg_inv e (maglev_start (length b))" "round_ok e (maglev_start (length b))"
proof -
  have t: "c < kMaglevSize \<Longrightarrow> mg_table (maglev_start (length b)) ! c = kEmpty" for c
    by (simp add: maglev_start_def)
  then have "filled_slots (maglev_start (length b)) = {}" by (auto simp: filled_slots_def)
  then show "mg_inv e (maglev_start (length b))"
    using assms(1) t by (simp add: mg_inv_def) (simp add: maglev_start_def)
  have z: "slots_of (maglev_start (length b)) m = 0" if "m < length b" for m
  proof -
    have "{c. c < kMaglevSize \<and> mg_table (maglev_start (length b)) ! c = m} = {}"
      using t that assms(2) by auto
    then show ?thesis by simp
  qed
  have c: "i < length b \<Longrightarrow> mg_credit (maglev_start (length b)) ! i = 0" for i by (simp add: maglev_start_def)
  show "round_ok e (maglev_start (length b))"
    unfolding round_ok_def assms(1)
  proof (intro conjI allI impI)
    fix i j assume "i < length b" "j < length b"
    then show "mg_credit (maglev_start (length b)) ! i = mg_credit (maglev_start (length b)) ! j"
      "slots_of (maglev_start (length b)) i = slots_of (maglev_start (length b)) j"
      by (simp only: c, simp only: z)
  qed (rule c)
qed

lemma count_list_card: "count_list xs x = card {c. c < length xs \<and> xs ! c = x}"
proof -
  have "count_list xs x = length (filter (\<lambda>y. y = x) xs)" by (induction xs) auto
  then show ?thesis by (simp add: length_filter_conv_card)
qed

lemma build_maglev_ok:
  assumes "\<exists>x\<in>set b. sb_weight x > 0" "length b < kEmpty"
  shows "\<exists>tab. build_maglev jhash2 b = Some tab \<and> length tab = kMaglevSize \<and>
    (\<forall>x\<in>set tab. x < length b \<and> sb_weight (b ! x) \<noteq> 0) \<and>
    (\<forall>i<length b. \<forall>j<length b. sb_weight (b ! i) = sb_weight (b ! j) \<longrightarrow> count_list tab i \<le> count_list tab j + 1)"
proof -
  define e where "e = maglev_setup jhash2 b"
  have e: "env_ok e" "mg_b e = b" using setup_ok [OF assms] by (simp_all add: e_def)
  obtain st where st: "maglev_while e (maglev_start (length b)) = Some st" "mg_inv e st" "mg_filled st = kMaglevSize"
    "\<forall>i<length b. \<forall>j<length b. sb_weight (b ! i) = sb_weight (b ! j) \<longrightarrow> slots_of st i \<le> slots_of st j + 1"
    using while_ok [OF e(1) start_ok [OF e(2) assms(2)]] e(2) by auto
  have len: "length (mg_table st) = kMaglevSize" using st(2) by (simp add: mg_inv_def)
  have "filled_slots st = {..<kMaglevSize}"
    using st(2,3) by (intro card_subset_eq) (auto simp: mg_inv_def filled_slots_def)
  then have "c < kMaglevSize \<Longrightarrow> mg_table st ! c \<noteq> kEmpty" for c by (auto simp: filled_slots_def)
  then have "\<forall>x\<in>set (mg_table st). x < length b \<and> sb_weight (b ! x) \<noteq> 0"
    using st(2) e(2) len by (auto simp: mg_inv_def in_set_conv_nth)
  then show ?thesis
    using st(1,4) len by (auto simp: build_maglev_def e_def count_list_card)
qed

section \<open>Properties\<close>



text \<open>What the table of a scheduler holds after a build, and keeps through any number of picks.\<close>

definition sched_fits :: "sched_backend list \<Rightarrow> scheduler \<Rightarrow> bool" where
  "sched_fits b s \<longleftrightarrow>
     (if list_all (\<lambda>x. sb_weight x = 0) b then sched_table s = []
      else sched_table s \<noteq> [] \<and> list_all (\<lambda>i. i < length b \<and> sb_weight (b ! i) \<noteq> 0) (sched_table s))"

lemma sched_build_fits:
  assumes "length b < kEmpty"
  shows "\<exists>s'. sched_build jhash2 ty b s = Some s' \<and> sched_fits b s' \<and> length (sched_cursor s') = length (sched_cursor s)"
proof (cases "\<exists>x\<in>set b. sb_weight x > 0")
  case False
  then show ?thesis by (auto simp: sched_build_def sched_fits_def list_all_iff)
next
  case True
  then have nz: "\<exists>x\<in>set b. sb_weight x \<noteq> 0" by auto
  have len: "length b \<le> 2 ^ 16" using assms by (simp add: kEmpty_def)
  obtain tab where tab: "(if ty = MAGLEV then build_maglev jhash2 b else Some (build_wrr b)) = Some tab"
    "tab \<noteq> []" "\<And>x. x \<in> set tab \<Longrightarrow> x < length b \<and> sb_weight (b ! x) \<noteq> 0"
  proof (cases "ty = MAGLEV")
    case True
    then show thesis
      using that build_maglev_ok [OF \<open>\<exists>x\<in>set b. sb_weight x > 0\<close> assms, of jhash2]
      by (metis kMaglevSize_def list.size(3) zero_neq_numeral)
  next
    case False
    then show thesis using that [of "build_wrr b"] build_wrr_entries [OF nz len] by simp
  qed
  then show ?thesis using True nz by (auto simp: sched_build_def sched_fits_def list_all_iff)
qed

lemma sched_pick_fits:
  assumes "sched_fits b s"
  shows "sched_fits b (fst (sched_pick jhash3 s tuple worker))"
    and "case snd (sched_pick jhash3 s tuple worker) of
       None \<Rightarrow> \<forall>x\<in>set b. sb_weight x = 0
     | Some i \<Rightarrow> i < length b \<and> sb_weight (b ! i) \<noteq> 0"
proof -
  show "sched_fits b (fst (sched_pick jhash3 s tuple worker))"
    using assms by (auto simp: sched_pick_def sched_fits_def Let_def split: prod.splits)
  have "sched_table s ! (k mod length (sched_table s)) \<in> set (sched_table s)" if "sched_table s \<noteq> []" for k
    using that by simp
  then show "case snd (sched_pick jhash3 s tuple worker) of
       None \<Rightarrow> \<forall>x\<in>set b. sb_weight x = 0 | Some i \<Rightarrow> i < length b \<and> sb_weight (b ! i) \<noteq> 0"
    using assms
    by (auto simp: sched_pick_def sched_fits_def Let_def list_all_iff split: prod.splits if_splits)
qed

text \<open>C19: Whatever the weights and the algorithm, \<^verbatim>\<open>build\<close> returns and a later \<^verbatim>\<open>pick\<close> answers -1 exactly
  when no backend has positive weight; otherwise it answers the index of a backend of positive
  weight.\<close>

theorem sched_pick_valid:
  assumes "length b < kEmpty"
  shows "\<exists>s'. sched_build jhash2 ty b s = Some s' \<and>
    (case snd (sched_pick jhash3 s' tuple worker) of
       None \<Rightarrow> \<forall>x\<in>set b. sb_weight x = 0
     | Some i \<Rightarrow> i < length b \<and> sb_weight (b ! i) \<noteq> 0)"
  using sched_build_fits [OF assms, of jhash2 ty s] sched_pick_fits(2) by blast

theorem sched_pick_valid_witness:
  "\<exists>s'. sched_build (\<lambda>a b c. a) MAGLEV (demo_backends [0, 2])
      \<lparr>sched_type = WRR, sched_table = [], sched_cursor = [0]\<rparr> = Some s' \<and>
    (case snd (sched_pick (\<lambda>_ _ _ _. 5) s' five_tuple_zero 0) of
       None \<Rightarrow> \<forall>x\<in>set (demo_backends [0, 2]). sb_weight x = 0
     | Some i \<Rightarrow> i < length (demo_backends [0, 2]) \<and> sb_weight (demo_backends [0, 2] ! i) \<noteq> 0)"
  by (rule sched_pick_valid) (simp add: demo_backends_def kEmpty_def)

end
