(* ===== verification/Snapshot.thy ===== *)
theory Snapshot
  imports Open_Table Maglev
begin

text \<open>
  The configuration snapshot and its manager, after \<^verbatim>\<open>include/ctrl/snapshot.h\<close> and
  \<^verbatim>\<open>src/ctrl/snapshot.cpp\<close>. A pointer to a real server of a snapshot is its place in the pool. The hash
  functions of DPDK and the number of cursors of a scheduler (\<^verbatim>\<open>RTE_MAX_LCORE\<close>) are parameters. The lock
  of the manager makes its operations atomic, so each is a function on its state; waiting for the
  workers to leave the old snapshot before it is freed does not show in the model, where the old
  snapshot is simply replaced.
\<close>

record hash_env =
  crc_8byte :: "u64 \<Rightarrow> u32 \<Rightarrow> u32"
  crc_4byte :: "u32 \<Rightarrow> u32 \<Rightarrow> u32"
  jhash_2words :: "u32 \<Rightarrow> u32 \<Rightarrow> u32 \<Rightarrow> u32"
  jhash_3words :: "u32 \<Rightarrow> u32 \<Rightarrow> u32 \<Rightarrow> u32 \<Rightarrow> u32"
  max_lcore :: nat

definition kMaxRsId :: nat where "kMaxRsId = 16384"

section \<open>Snapshots\<close>

record rs_state =
  rst_id :: nat
  rst_svc_idx :: nat
  rst_ip :: ipv4_addr
  rst_port_be :: port_be
  rst_port :: u16
  rst_mac :: mac_addr
  rst_weight :: nat
  rst_enabled :: bool
  rst_healthy :: bool

definition usable :: "rs_state \<Rightarrow> bool" where
  "usable r \<longleftrightarrow> rst_enabled r \<and> rst_healthy r"

definition schedulable :: "rs_state \<Rightarrow> bool" where
  "schedulable r \<longleftrightarrow> usable r \<and> rst_weight r > 0"

record service =
  sv_idx :: nat
  sv_name :: string
  sv_vip :: ipv4_addr
  sv_port_be :: port_be
  sv_port :: u16
  sv_proto :: u8
  sv_rs :: "nat list"
  sv_sched :: scheduler

record snapshot =
  snap_version :: nat
  snap_mode :: forward_mode
  snap_services :: "service list"
  snap_rs_pool :: "rs_state list"
  snap_rs_by_id :: "nat option list"
  snap_local_ips :: "ipv4_addr list"
  snap_hc_src :: ipv4_addr
  snap_svc_slots :: "int list"
  snap_vips :: "ipv4_addr list"
  snap_lips :: "ipv4_addr list"
  snap_locals :: "ipv4_addr list"

definition svc_hash :: "hash_env \<Rightarrow> ipv4_addr \<Rightarrow> port_be \<Rightarrow> u8 \<Rightarrow> u32" where
  "svc_hash env vip port_be proto =
     crc_8byte env (push_bit 24 (ucast vip) OR push_bit 8 (ucast port_be) OR ucast proto) 0"

definition addr_hash :: "hash_env \<Rightarrow> ipv4_addr \<Rightarrow> u32" where
  "addr_hash env ip = crc_4byte env ip 0"

text \<open>\<^verbatim>\<open>h & (kSlots - 1)\<close>\<close>

definition svc_home :: "hash_env \<Rightarrow> ipv4_addr \<Rightarrow> port_be \<Rightarrow> u8 \<Rightarrow> nat" where
  "svc_home env vip port_be proto = unat (svc_hash env vip port_be proto AND 511)"

definition addr_home :: "hash_env \<Rightarrow> ipv4_addr \<Rightarrow> nat" where
  "addr_home env ip = unat (addr_hash env ip AND 511)"

text \<open>The loops give \<open>None\<close> when they do not end.\<close>

definition set_has :: "hash_env \<Rightarrow> ipv4_addr list \<Rightarrow> ipv4_addr \<Rightarrow> bool option" where
  "set_has env xs ip = map_option (\<lambda>i. xs ! i = ip) (probe (\<lambda>v. v = ip \<or> v = 0) xs (addr_home env ip))"

definition set_add :: "hash_env \<Rightarrow> ipv4_addr list \<Rightarrow> ipv4_addr \<Rightarrow> ipv4_addr list option" where
  "set_add env xs ip =
     (if ip = 0 then Some xs
      else case set_has env xs ip of
        None \<Rightarrow> None
      | Some True \<Rightarrow> Some xs
      | Some False \<Rightarrow> map_option (\<lambda>i. xs[i := ip]) (probe (\<lambda>v. v = 0) xs (addr_home env ip)))"

fun set_add_all :: "hash_env \<Rightarrow> ipv4_addr list \<Rightarrow> ipv4_addr list \<Rightarrow> ipv4_addr list option" where
  "set_add_all env xs [] = Some xs"
| "set_add_all env xs (ip # ips) =
     (case set_add env xs ip of None \<Rightarrow> None | Some ys \<Rightarrow> set_add_all env ys ips)"

definition find_service :: "hash_env \<Rightarrow> snapshot \<Rightarrow> ipv4_addr \<Rightarrow> port_be \<Rightarrow> u8 \<Rightarrow> nat option option" where
  "find_service env snap vip port_be proto =
     map_option (\<lambda>i. let idx = snap_svc_slots snap ! i in if idx < 0 then None else Some (nat idx))
       (probe (\<lambda>idx. idx < 0 \<or>
            (let s = snap_services snap ! nat idx in sv_vip s = vip \<and> sv_port_be s = port_be \<and> sv_proto s = proto))
          (snap_svc_slots snap) (svc_home env vip port_be proto))"

definition is_vip :: "hash_env \<Rightarrow> snapshot \<Rightarrow> ipv4_addr \<Rightarrow> bool option" where
  "is_vip env snap ip = set_has env (snap_vips snap) ip"

definition is_lip :: "hash_env \<Rightarrow> snapshot \<Rightarrow> ipv4_addr \<Rightarrow> bool option" where
  "is_lip env snap ip = set_has env (snap_lips snap) ip"

definition is_local :: "hash_env \<Rightarrow> snapshot \<Rightarrow> ipv4_addr \<Rightarrow> bool option" where
  "is_local env snap ip = set_has env (snap_locals snap) ip"

definition snap_rs :: "snapshot \<Rightarrow> nat \<Rightarrow> rs_state option" where
  "snap_rs snap i =
     (if i < length (snap_rs_by_id snap) then map_option ((!) (snap_rs_pool snap)) (snap_rs_by_id snap ! i) else None)"

definition int16_of :: "nat \<Rightarrow> int" where
  "int16_of n = sint (word_of_nat n :: 16 word)"

fun index_services :: "hash_env \<Rightarrow> int list \<Rightarrow> service list \<Rightarrow> int list option" where
  "index_services env slots [] = Some slots"
| "index_services env slots (s # ss) =
     (case probe (\<lambda>v. v < 0) slots (svc_home env (sv_vip s) (sv_port_be s) (sv_proto s)) of
        None \<Rightarrow> None
      | Some i \<Rightarrow> index_services env (slots[i := int16_of (sv_idx s)]) ss)"

definition snap_index :: "hash_env \<Rightarrow> snapshot \<Rightarrow> snapshot option" where
  "snap_index env snap =
     (let vs = map sv_vip (snap_services snap); ls = snap_local_ips snap in
      case index_services env (replicate kSlots (- 1)) (snap_services snap) of None \<Rightarrow> None | Some slots \<Rightarrow>
      case set_add_all env (replicate kSlots 0) vs of None \<Rightarrow> None | Some vips \<Rightarrow>
      case set_add_all env (replicate kSlots 0) ls of None \<Rightarrow> None | Some lips \<Rightarrow>
      case set_add_all env (replicate kSlots 0) (vs @ ls @ [snap_hc_src snap]) of None \<Rightarrow> None | Some locals \<Rightarrow>
        Some (snap\<lparr>snap_svc_slots := slots, snap_vips := vips, snap_lips := lips, snap_locals := locals\<rparr>))"

section \<open>The manager\<close>

record desired_rs =
  dr_id :: nat
  dr_conf :: rs_conf
  dr_enabled :: bool
  dr_healthy :: bool

record desired_service =
  ds_conf :: service_conf
  ds_rs :: "desired_rs list"

record manager =
  mgr_mode :: forward_mode
  mgr_local_ips :: "ipv4_addr list"
  mgr_hc_src :: ipv4_addr
  mgr_services :: "desired_service list"
  mgr_next_rs_id :: nat
  mgr_version :: nat
  mgr_cur :: "snapshot option"

definition manager_zero :: manager where
  "manager_zero = \<lparr>mgr_mode = NAT, mgr_local_ips = [], mgr_hc_src = 0, mgr_services = [], mgr_next_rs_id = 1,
     mgr_version = 0, mgr_cur = None\<rparr>"

datatype snap_error = No_such_rs nat | Weight_range | No_such_service nat | Too_many_rs | Rs_exists nat | Ids_exhausted

definition rs_of :: "nat \<Rightarrow> desired_rs \<Rightarrow> rs_state" where
  "rs_of i dr =
     \<lparr>rst_id = dr_id dr, rst_svc_idx = i, rst_ip = rc_ip (dr_conf dr), rst_port_be = htons (rc_port (dr_conf dr)),
      rst_port = rc_port (dr_conf dr), rst_mac = rc_mac (dr_conf dr), rst_weight = rc_weight (dr_conf dr),
      rst_enabled = dr_enabled dr, rst_healthy = dr_healthy dr\<rparr>"

definition backend_of :: "rs_state \<Rightarrow> sched_backend" where
  "backend_of r = \<lparr>sb_ip = rst_ip r, sb_port = rst_port r, sb_weight = if schedulable r then rst_weight r else 0\<rparr>"

definition sched_default :: "hash_env \<Rightarrow> scheduler" where
  "sched_default env = \<lparr>sched_type = WRR, sched_table = [], sched_cursor = replicate (max_lcore env) 0\<rparr>"

text \<open>One round of the loop over the services, on the pool and the table of ids; the inner loop over
  the real servers is a map.\<close>

definition build_service ::
  "hash_env \<Rightarrow> nat \<Rightarrow> desired_service \<Rightarrow> rs_state list \<Rightarrow> nat option list \<Rightarrow> (service \<times> rs_state list \<times> nat option list) option" where
  "build_service env i ds pool by_id =
     (let rs = map (rs_of (i mod 65536)) (ds_rs ds);
          places = [length pool ..< length pool + length rs];
          by_id = fold (\<lambda>(k, r) b. b[rst_id r := Some k]) (zip places rs) by_id
      in case sched_build (jhash_2words env) (sc_sched (ds_conf ds)) (map backend_of rs) (sched_default env) of
           None \<Rightarrow> None
         | Some sched \<Rightarrow>
             Some (\<lparr>sv_idx = i mod 65536, sv_name = sc_name (ds_conf ds), sv_vip = sc_vip (ds_conf ds),
                    sv_port_be = htons (sc_port (ds_conf ds)), sv_port = sc_port (ds_conf ds), sv_proto = sc_proto (ds_conf ds),
                    sv_rs = places, sv_sched = sched\<rparr>, pool @ rs, by_id))"

fun build_services ::
  "hash_env \<Rightarrow> nat \<Rightarrow> desired_service list \<Rightarrow> rs_state list \<Rightarrow> nat option list \<Rightarrow> (service list \<times> rs_state list \<times> nat option list) option" where
  "build_services env i [] pool by_id = Some ([], pool, by_id)"
| "build_services env i (ds # dss) pool by_id =
     (case build_service env i ds pool by_id of
        None \<Rightarrow> None
      | Some (s, pool, by_id) \<Rightarrow>
          (case build_services env (i + 1) dss pool by_id of
             None \<Rightarrow> None
           | Some (ss, pool, by_id) \<Rightarrow> Some (s # ss, pool, by_id)))"

definition build :: "hash_env \<Rightarrow> manager \<Rightarrow> snapshot option" where
  "build env m =
     (case build_services env 0 (mgr_services m) [] (replicate (mgr_next_rs_id m) None) of
        None \<Rightarrow> None
      | Some (ss, pool, by_id) \<Rightarrow>
          snap_index env
            \<lparr>snap_version = mgr_version m, snap_mode = mgr_mode m, snap_services = ss, snap_rs_pool = pool,
             snap_rs_by_id = by_id, snap_local_ips = mgr_local_ips m, snap_hc_src = mgr_hc_src m,
             snap_svc_slots = [], snap_vips = [], snap_lips = [], snap_locals = []\<rparr>)"

definition publish :: "hash_env \<Rightarrow> manager \<Rightarrow> manager option" where
  "publish env m =
     (let m = m\<lparr>mgr_version := mgr_version m + 1\<rparr>
      in map_option (\<lambda>s. m\<lparr>mgr_cur := Some s\<rparr>) (build env m))"

fun number_rs :: "nat \<Rightarrow> rs_conf list \<Rightarrow> desired_rs list \<times> nat" where
  "number_rs n [] = ([], n)"
| "number_rs n (rc # rcs) =
     (let (rs, n') = number_rs (n + 1) rcs in (\<lparr>dr_id = n, dr_conf = rc, dr_enabled = True, dr_healthy = True\<rparr> # rs, n'))"

fun desired_services :: "nat \<Rightarrow> service_conf list \<Rightarrow> desired_service list \<times> nat" where
  "desired_services n [] = ([], n)"
| "desired_services n (sc # scs) =
     (let (rs, n) = number_rs n (sc_rs sc);
          (dss, n) = desired_services n scs
      in (\<lparr>ds_conf = sc\<lparr>sc_rs := []\<rparr>, ds_rs = rs\<rparr> # dss, n))"

definition mgr_init :: "hash_env \<Rightarrow> lb_config \<Rightarrow> manager \<Rightarrow> manager option" where
  "mgr_init env cfg m =
     (let (dss, n) = desired_services (mgr_next_rs_id m) (lb_services cfg)
      in publish env (m\<lparr>mgr_mode := lb_mode cfg, mgr_local_ips := if lb_mode cfg = NAT then lb_local_ips cfg else [],
                        mgr_hc_src := lb_hc_src cfg, mgr_services := mgr_services m @ dss, mgr_next_rs_id := n\<rparr>))"

definition mgr_destroy :: "manager \<Rightarrow> manager" where
  "mgr_destroy m = m\<lparr>mgr_cur := None\<rparr>"

text \<open>\<^verbatim>\<open>find_rs\<close> gives a pointer to the first match, service by service; writing through it changes
  that one.\<close>

fun update_rs :: "nat \<Rightarrow> (desired_rs \<Rightarrow> desired_rs) \<Rightarrow> desired_rs list \<Rightarrow> desired_rs list option" where
  "update_rs i f [] = None"
| "update_rs i f (r # rs) = (if dr_id r = i then Some (f r # rs) else map_option ((#) r) (update_rs i f rs))"

fun find_rs_update :: "nat \<Rightarrow> (desired_rs \<Rightarrow> desired_rs) \<Rightarrow> desired_service list \<Rightarrow> desired_service list option" where
  "find_rs_update i f [] = None"
| "find_rs_update i f (ds # dss) =
     (case update_rs i f (ds_rs ds) of
        Some rs \<Rightarrow> Some (ds\<lparr>ds_rs := rs\<rparr> # dss)
      | None \<Rightarrow> map_option ((#) ds) (find_rs_update i f dss))"

definition set_weight :: "nat \<Rightarrow> nat \<Rightarrow> manager \<Rightarrow> snap_error option \<times> manager" where
  "set_weight i weight m =
     (case find_rs_update i (\<lambda>r. r\<lparr>dr_conf := (dr_conf r)\<lparr>rc_weight := weight\<rparr>\<rparr>) (mgr_services m) of
        None \<Rightarrow> (Some (No_such_rs i), m)
      | Some dss \<Rightarrow> if weight > 65535 then (Some Weight_range, m) else (None, m\<lparr>mgr_services := dss\<rparr>))"

definition set_enabled :: "nat \<Rightarrow> bool \<Rightarrow> manager \<Rightarrow> snap_error option \<times> manager" where
  "set_enabled i en m =
     (case find_rs_update i (\<lambda>r. r\<lparr>dr_enabled := en\<rparr>) (mgr_services m) of
        None \<Rightarrow> (Some (No_such_rs i), m)
      | Some dss \<Rightarrow> (None, m\<lparr>mgr_services := dss\<rparr>))"

definition set_health :: "nat \<Rightarrow> bool \<Rightarrow> manager \<Rightarrow> manager" where
  "set_health i h m =
     (case find_rs_update i (\<lambda>r. r\<lparr>dr_healthy := h\<rparr>) (mgr_services m) of
        None \<Rightarrow> m | Some dss \<Rightarrow> m\<lparr>mgr_services := dss\<rparr>)"

definition add_rs :: "nat \<Rightarrow> rs_conf \<Rightarrow> manager \<Rightarrow> (snap_error + nat) \<times> manager" where
  "add_rs svc rc m =
     (if svc \<ge> length (mgr_services m) then (Inl (No_such_service svc), m)
      else
        let ds = mgr_services m ! svc in
        if length (ds_rs ds) \<ge> kMaxRsPerService then (Inl Too_many_rs, m)
        else case find (\<lambda>r. rc_ip (dr_conf r) = rc_ip rc \<and> rc_port (dr_conf r) = rc_port rc) (ds_rs ds) of
          Some r \<Rightarrow> (Inl (Rs_exists (dr_id r)), m)
        | None \<Rightarrow>
            if mgr_next_rs_id m \<ge> kMaxRsId then (Inl Ids_exhausted, m)
            else
              let r = \<lparr>dr_id = mgr_next_rs_id m, dr_conf = rc, dr_enabled = True, dr_healthy = True\<rparr>
              in (Inr (mgr_next_rs_id m),
                  m\<lparr>mgr_next_rs_id := mgr_next_rs_id m + 1,
                    mgr_services := (mgr_services m)[svc := ds\<lparr>ds_rs := ds_rs ds @ [r]\<rparr>]\<rparr>))"

fun erase_rs :: "nat \<Rightarrow> desired_rs list \<Rightarrow> desired_rs list option" where
  "erase_rs i [] = None"
| "erase_rs i (r # rs) = (if dr_id r = i then Some rs else map_option ((#) r) (erase_rs i rs))"

fun erase_first :: "nat \<Rightarrow> desired_service list \<Rightarrow> desired_service list option" where
  "erase_first i [] = None"
| "erase_first i (ds # dss) =
     (case erase_rs i (ds_rs ds) of
        Some rs \<Rightarrow> Some (ds\<lparr>ds_rs := rs\<rparr> # dss)
      | None \<Rightarrow> map_option ((#) ds) (erase_first i dss))"

definition del_rs :: "nat \<Rightarrow> manager \<Rightarrow> snap_error option \<times> manager" where
  "del_rs i m =
     (case erase_first i (mgr_services m) of
        None \<Rightarrow> (Some (No_such_rs i), m)
      | Some dss \<Rightarrow> (None, m\<lparr>mgr_services := dss\<rparr>))"

record rs_info =
  ri_id :: nat
  ri_ip :: ipv4_addr
  ri_port :: u16

record service_info =
  si_idx :: nat
  si_name :: string
  si_vip :: ipv4_addr
  si_port :: u16
  si_proto :: u8
  si_rs :: "rs_info list"

definition list_services :: "manager \<Rightarrow> service_info list" where
  "list_services m =
     map (\<lambda>(i, ds). \<lparr>si_idx = i mod 65536, si_name = sc_name (ds_conf ds), si_vip = sc_vip (ds_conf ds),
          si_port = sc_port (ds_conf ds), si_proto = sc_proto (ds_conf ds),
          si_rs = map (\<lambda>r. \<lparr>ri_id = dr_id r, ri_ip = rc_ip (dr_conf r), ri_port = rc_port (dr_conf r)\<rparr>) (ds_rs ds)\<rparr>)
       (enumerate 0 (mgr_services m))"

end
