(* ===== verification/Snapshot_Props.thy ===== *)
theory Snapshot_Props
  imports Snapshot
begin

text \<open>
  Correctness of snapshots: the lookup tables of a published snapshot answer every query and answer
  it right, real servers are found by their ids, and the schedulers pick servers that may take new
  connections.
\<close>

section \<open>The address tables\<close>

lemma unat_and_511: "unat (w AND 511 :: u32) < 512"
proof -
  have "w AND 511 = take_bit 9 w" by (simp add: take_bit_eq_mask mask_eq_exp_minus_1)
  then have "unat (w AND 511) = unat w mod 512" by (simp only: unsigned_take_bit_eq) (simp add: take_bit_eq_mod)
  then show ?thesis by simp
qed

interpretation addrs: open_table "\<lambda>v :: ipv4_addr. v = 0" "addr_home env" for env
  by unfold_locales (simp add: addr_home_def unat_and_511 kSlots_def)

definition addr_set :: "ipv4_addr list \<Rightarrow> ipv4_addr set" where
  "addr_set xs = set xs - {0}"

lemma addr_set_stored: "addrs.stored xs = addr_set xs"
  by (auto simp: addrs.stored_def addr_set_def)

lemma set_has_exact:
  assumes "addrs.good env xs" "addrs.occupied xs < kSlots" "ip \<noteq> 0"
  shows "set_has env xs ip = Some (ip \<in> addr_set xs)"
proof -
  have len: "length xs = kSlots" using assms(1) by (simp add: addrs.good_def)
  have free: "\<exists>j < kSlots. xs ! j = 0" using addrs.occupied_free [of xs] assms(2) len by simp
  obtain j where j: "probe (\<lambda>v. v = 0 \<or> v = ip) xs (addr_home env ip) = Some j" "j < kSlots" "xs ! j = 0 \<or> xs ! j = ip"
      "(\<exists>v\<in>addrs.stored xs. v = ip) \<longleftrightarrow> xs ! j \<noteq> 0"
    using addrs.lookup_good [OF assms(1) free, of "\<lambda>v. v = ip" "addr_home env ip"] addrs.home_less by auto
  have "(\<lambda>v. v = ip \<or> v = 0) = (\<lambda>v. v = 0 \<or> v = ip)" by auto
  then show ?thesis using j assms(3) by (auto simp: set_has_def addr_set_stored)
qed

lemma set_has_zero:
  assumes "length xs = kSlots" "addrs.occupied xs < kSlots"
  shows "set_has env xs 0 = Some True"
proof -
  obtain j0 where j0: "j0 < kSlots" "xs ! j0 = 0" using addrs.occupied_free [of xs] assms by auto
  obtain d where "probe (\<lambda>v. v = 0 \<or> v = 0) xs (addr_home env 0) = Some d" "xs ! d = 0"
    using probe_some [of j0 "\<lambda>v. v = 0 \<or> v = 0" xs "addr_home env 0"] j0 addrs.home_less by metis
  then show ?thesis by (simp add: set_has_def)
qed

lemma set_add_exact:
  assumes "addrs.good env xs" "addrs.occupied xs + 1 < kSlots"
  obtains ys where "set_add env xs ip = Some ys" "addrs.good env ys" "addrs.occupied ys \<le> addrs.occupied xs + 1"
    "addr_set ys = addr_set xs \<union> ({ip} - {0})"
proof (cases "ip = 0 \<or> ip \<in> addr_set xs")
  case True
  then have "set_add env xs ip = Some xs" using set_has_exact [OF assms(1), of ip] assms(2) by (auto simp: set_add_def)
  then show thesis using that [of xs] assms(1) True by auto
next
  case False
  have len: "length xs = kSlots" using assms(1) by (simp add: addrs.good_def)
  have free: "\<exists>j < kSlots. xs ! j = 0" using addrs.occupied_free [of xs] assms(2) len by simp
  obtain j where j: "probe (\<lambda>v. v = 0) xs (addr_home env ip) = Some j" "addrs.good env (xs[j := ip])"
      "addrs.stored (xs[j := ip]) = insert ip (addrs.stored xs)" "j < kSlots" "xs ! j = 0"
    using addrs.insert_good [OF assms(1) free, of ip] False by metis
  have "set_add env xs ip = Some (xs[j := ip])"
    using set_has_exact [OF assms(1), of ip] assms(2) False j(1) by (simp add: set_add_def)
  moreover have "addrs.occupied (xs[j := ip]) = Suc (addrs.occupied xs)"
    using addrs.occupied_insert [of j xs ip] j len False by simp
  ultimately show thesis using that [of "xs[j := ip]"] j False by (auto simp: addr_set_stored)
qed

lemma set_add_all_exact:
  assumes "addrs.good env xs" "addrs.occupied xs + length ips < kSlots"
  shows "\<exists>ys. set_add_all env xs ips = Some ys \<and> addrs.good env ys \<and> addrs.occupied ys < kSlots \<and>
    addr_set ys = addr_set xs \<union> (set ips - {0})"
  using assms
proof (induction ips arbitrary: xs)
  case (Cons ip ips)
  obtain zs where z: "set_add env xs ip = Some zs" "addrs.good env zs" "addrs.occupied zs \<le> addrs.occupied xs + 1"
      "addr_set zs = addr_set xs \<union> ({ip} - {0})"
    using set_add_exact [OF Cons.prems(1), of ip] Cons.prems(2) by auto
  have "addrs.occupied zs + length ips < kSlots" using z(3) Cons.prems(2) by simp
  from Cons.IH [OF z(2) this] show ?case using z(1,4) by auto
qed simp

lemma fresh_set:
  assumes "length ips < kSlots"
  shows "\<exists>ys. set_add_all env (replicate kSlots 0) ips = Some ys \<and> addrs.good env ys \<and> addrs.occupied ys < kSlots \<and>
    addr_set ys = set ips - {0}"
  using set_add_all_exact [of env "replicate kSlots 0" ips] assms addrs.good_empty [of 0 env]
  by (simp add: addrs.occupied_empty addr_set_def)

section \<open>The service table\<close>

definition key_home :: "hash_env \<Rightarrow> service list \<Rightarrow> int \<Rightarrow> nat" where
  "key_home env ss v = (let s = ss ! nat v in svc_home env (sv_vip s) (sv_port_be s) (sv_proto s))"

interpretation svcs: open_table "\<lambda>v :: int. v < 0" "key_home env ss" for env ss
  by unfold_locales (simp add: key_home_def svc_home_def unat_and_511 kSlots_def Let_def)

lemma int16_small: "n < 32768 \<Longrightarrow> int16_of n = int n"
  by (simp add: int16_of_def signed_of_nat signed_take_bit_int_eq_self)

lemma index_services_exact:
  assumes "svcs.good env ss slots" "svcs.stored slots = int ` {..<k}" "svcs.occupied slots = k"
    and "k \<le> length ss" "length ss < kSlots" "\<And>i. i < length ss \<Longrightarrow> sv_idx (ss ! i) = i"
  shows "\<exists>slots'. index_services env slots (drop k ss) = Some slots' \<and> svcs.good env ss slots' \<and>
    svcs.stored slots' = int ` {..<length ss} \<and> svcs.occupied slots' = length ss"
  using assms(1-4)
proof (induction "length ss - k" arbitrary: k slots)
  case 0
  then show ?case by simp
next
  case (Suc n)
  then have k: "k < length ss" by simp
  have len: "length slots = kSlots" using Suc.prems(1) by (simp add: svcs.good_def)
  have free: "\<exists>j < kSlots. slots ! j < 0" using svcs.occupied_free [of slots] Suc.prems(3) k assms(5) len by simp
  have idx: "int16_of (sv_idx (ss ! k)) = int k" using assms(5,6) k int16_small [of k] by (simp add: kSlots_def)
  obtain j where j: "probe (\<lambda>v. v < 0) slots (key_home env ss (int k)) = Some j" "svcs.good env ss (slots[j := int k])"
      "svcs.stored (slots[j := int k]) = insert (int k) (svcs.stored slots)" "j < kSlots" "slots ! j < 0"
    using svcs.insert_good [OF Suc.prems(1) free, of "int k"] by auto
  have "svcs.occupied (slots[j := int k]) = Suc k"
    using svcs.occupied_insert [of j slots "int k"] j len Suc.prems(3) by simp
  moreover have "svcs.stored (slots[j := int k]) = int ` {..<Suc k}"
    using j(3) Suc.prems(2) by (auto simp: lessThan_Suc)
  ultimately have "\<exists>slots'. index_services env (slots[j := int k]) (drop (Suc k) ss) = Some slots' \<and> svcs.good env ss slots' \<and>
      svcs.stored slots' = int ` {..<length ss} \<and> svcs.occupied slots' = length ss"
    using Suc.hyps(2) j(2) k by (intro Suc.hyps(1)) auto
  moreover have "drop k ss = ss ! k # drop (Suc k) ss" using k by (simp add: Cons_nth_drop_Suc)
  ultimately show ?case using j(1) idx by (simp add: key_home_def Let_def)
qed

lemma fresh_index:
  assumes "length ss < kSlots" "\<And>i. i < length ss \<Longrightarrow> sv_idx (ss ! i) = i"
  shows "\<exists>slots. index_services env (replicate kSlots (- 1)) ss = Some slots \<and> svcs.good env ss slots \<and>
    svcs.stored slots = int ` {..<length ss} \<and> svcs.occupied slots = length ss"
  using index_services_exact [of env ss "replicate kSlots (- 1)" 0] assms svcs.good_empty [of "- 1" env ss]
  by (simp add: svcs.stored_empty svcs.occupied_empty)

lemma find_service_exact:
  assumes "svcs.good env (snap_services snap) (snap_svc_slots snap)"
    "svcs.stored (snap_svc_slots snap) = int ` {..<length (snap_services snap)}"
    "svcs.occupied (snap_svc_slots snap) < kSlots"
  shows "\<exists>r. find_service env snap vip port proto = Some r \<and>
    (case r of None \<Rightarrow> \<forall>s\<in>set (snap_services snap). \<not> (sv_vip s = vip \<and> sv_port_be s = port \<and> sv_proto s = proto)
     | Some i \<Rightarrow> i < length (snap_services snap) \<and> sv_vip (snap_services snap ! i) = vip \<and>
         sv_port_be (snap_services snap ! i) = port \<and> sv_proto (snap_services snap ! i) = proto)"
proof -
  let ?ss = "snap_services snap" and ?slots = "snap_svc_slots snap"
  define m where "m = (\<lambda>v :: int. let s = ?ss ! nat v in sv_vip s = vip \<and> sv_port_be s = port \<and> sv_proto s = proto)"
  have len: "length ?slots = kSlots" using assms(1) by (simp add: svcs.good_def)
  have free: "\<exists>j < kSlots. ?slots ! j < 0" using svcs.occupied_free [of ?slots] assms(3) len by simp
  have h: "svc_home env vip port proto < kSlots" by (simp add: svc_home_def unat_and_511 kSlots_def)
  obtain j where j: "probe (\<lambda>v. v < 0 \<or> m v) ?slots (svc_home env vip port proto) = Some j" "j < kSlots" "?slots ! j < 0 \<or> m (?slots ! j)"
      "(\<exists>v\<in>svcs.stored ?slots. m v) \<longleftrightarrow> \<not> ?slots ! j < 0"
    using svcs.lookup_good [OF assms(1) free, of m "svc_home env vip port proto"] h
    by (auto simp: m_def key_home_def Let_def)
  have f: "find_service env snap vip port proto = Some (if ?slots ! j < 0 then None else Some (nat (?slots ! j)))"
    using j(1) by (simp add: find_service_def m_def Let_def)
  show ?thesis
  proof (cases "?slots ! j < 0")
    case True
    then have "\<forall>i < length ?ss. \<not> m (int i)" using j(4) assms(2) by auto
    then have "\<forall>s\<in>set ?ss. \<not> (sv_vip s = vip \<and> sv_port_be s = port \<and> sv_proto s = proto)"
      by (auto simp: m_def Let_def all_set_conv_all_nth)
    then show ?thesis using f True by simp
  next
    case False
    then have "?slots ! j \<in> svcs.stored ?slots" using j(2) len by (simp add: svcs.stored_def)
    then have "nat (?slots ! j) < length ?ss" using assms(2) by auto
    then show ?thesis using f False j(3) by (simp add: m_def Let_def)
  qed
qed

section \<open>Building a snapshot\<close>

text \<open>The table of ids points at the servers of the pool.\<close>

definition ids_ok :: "rs_state list \<Rightarrow> nat option list \<Rightarrow> bool" where
  "ids_ok pool by_id \<longleftrightarrow>
     (\<forall>i < length by_id. \<forall>k. by_id ! i = Some k \<longleftrightarrow> k < length pool \<and> rst_id (pool ! k) = i)"

lemma ids_ok_snoc:
  assumes "ids_ok pool by_id" "rst_id r < length by_id" "rst_id r \<notin> rst_id ` set pool"
  shows "ids_ok (pool @ [r]) (by_id[rst_id r := Some (length pool)])"
proof -
  have "rst_id (pool ! k) \<noteq> rst_id r" if "k < length pool" for k using assms(3) that by (metis imageI nth_mem)
  then show ?thesis
    using assms(1,2) by (auto simp: ids_ok_def nth_list_update nth_append less_Suc_eq)
qed

lemma ids_ok_append:
  assumes "ids_ok pool by_id" "distinct (map rst_id (pool @ rs))" "\<forall>r\<in>set rs. rst_id r < length by_id"
  shows "ids_ok (pool @ rs)
      (fold (\<lambda>(k, r) b. b[rst_id r := Some k]) (zip [length pool ..< length pool + length rs] rs) by_id)"
  using assms
proof (induction rs arbitrary: pool by_id)
  case (Cons r rs)
  have "ids_ok (pool @ [r]) (by_id[rst_id r := Some (length pool)])"
    using Cons.prems by (intro ids_ok_snoc) auto
  moreover have "[length pool ..< length pool + length (r # rs)] = length pool # [length (pool @ [r]) ..< length (pool @ [r]) + length rs]"
    by (simp add: upt_rec [of "length pool"] del: upt_Suc)
  ultimately show ?case using Cons.IH [of "pool @ [r]" "by_id[rst_id r := Some (length pool)]"] Cons.prems by (simp del: upt_Suc)
qed simp

lemma fold_ids_length [simp]: "length (fold (\<lambda>(k, r) b. b[rst_id r := Some k]) xs by_id) = length by_id"
  by (induction xs arbitrary: by_id) auto

text \<open>What a service of a snapshot has of a service of the manager.\<close>

definition svc_built :: "nat \<Rightarrow> desired_service \<Rightarrow> rs_state list \<Rightarrow> service \<Rightarrow> bool" where
  "svc_built k ds pool s \<longleftrightarrow> sv_idx s = k \<and> sv_name s = sc_name (ds_conf ds) \<and> sv_vip s = sc_vip (ds_conf ds) \<and>
     sv_port s = sc_port (ds_conf ds) \<and> sv_port_be s = htons (sc_port (ds_conf ds)) \<and> sv_proto s = sc_proto (ds_conf ds) \<and>
     (\<forall>p\<in>set (sv_rs s). p < length pool) \<and> map ((!) pool) (sv_rs s) = map (rs_of k) (ds_rs ds) \<and>
     sched_fits (map (backend_of \<circ> rs_of k) (ds_rs ds)) (sv_sched s)"

lemma svc_built_append: "svc_built k ds pool s \<Longrightarrow> svc_built k ds (pool @ rs) s"
proof -
  assume a: "svc_built k ds pool s"
  then have "map ((!) (pool @ rs)) (sv_rs s) = map ((!) pool) (sv_rs s)"
    by (intro map_cong) (auto simp: svc_built_def nth_append)
  then show ?thesis using a by (simp add: svc_built_def del: map_eq_conv) (meson trans_less_add1)
qed

lemma map_nth_tail: "map ((!) (pool @ rs)) [length pool ..< length pool + length rs] = rs"
  by (rule nth_equalityI) (auto simp: nth_append)

lemma build_service_exact:
  assumes "length (ds_rs ds) < kEmpty" "i < 65536" "ids_ok pool by_id"
    "distinct (map rst_id pool @ map dr_id (ds_rs ds))" "\<forall>r\<in>set (ds_rs ds). dr_id r < length by_id"
  obtains s by_id' where "build_service env i ds pool by_id = Some (s, pool @ map (rs_of i) (ds_rs ds), by_id')"
    "ids_ok (pool @ map (rs_of i) (ds_rs ds)) by_id'" "length by_id' = length by_id"
    "svc_built i ds (pool @ map (rs_of i) (ds_rs ds)) s"
proof -
  let ?rs = "map (rs_of i) (ds_rs ds)"
  define b where "b = fold (\<lambda>(k, r) b. b[rst_id r := Some k]) (zip [length pool ..< length pool + length ?rs] ?rs) by_id"
  have ids: "rst_id \<circ> rs_of i = dr_id" by (auto simp: rs_of_def)
  have "ids_ok (pool @ ?rs) b"
    unfolding b_def using assms(3-5) by (intro ids_ok_append) (auto simp: ids rs_of_def)
  moreover obtain sched where sched: "sched_build (jhash_2words env) (sc_sched (ds_conf ds)) (map backend_of ?rs) (sched_default env) = Some sched"
      "sched_fits (map backend_of ?rs) sched"
    using sched_build_fits [of "map backend_of ?rs"] assms(1) by force
  ultimately show thesis
    using that [of _ b] sched assms(2) map_nth_tail [of pool ?rs]
    by (simp add: build_service_def Let_def b_def svc_built_def)
qed

definition pool_of :: "nat \<Rightarrow> desired_service list \<Rightarrow> rs_state list" where
  "pool_of i dss = concat (map (\<lambda>(k, ds). map (rs_of k) (ds_rs ds)) (enumerate i dss))"

lemma pool_of_Cons: "pool_of i (ds # dss) = map (rs_of i) (ds_rs ds) @ pool_of (Suc i) dss"
  by (simp add: pool_of_def)

definition ids_of :: "desired_service list \<Rightarrow> nat list" where
  "ids_of dss = concat (map (\<lambda>ds. map dr_id (ds_rs ds)) dss)"

lemma build_services_exact:
  assumes "\<forall>ds\<in>set dss. length (ds_rs ds) < kEmpty" "i + length dss \<le> 65536" "ids_ok pool by_id"
    "distinct (map rst_id pool @ ids_of dss)" "\<forall>x\<in>set (ids_of dss). x < length by_id"
  shows "\<exists>ss by_id'. build_services env i dss pool by_id = Some (ss, pool @ pool_of i dss, by_id') \<and>
    ids_ok (pool @ pool_of i dss) by_id' \<and> length by_id' = length by_id \<and> length ss = length dss \<and>
    (\<forall>k < length dss. svc_built (i + k) (dss ! k) (pool @ pool_of i dss) (ss ! k))"
  using assms
proof (induction dss arbitrary: i pool by_id)
  case Nil
  then show ?case by (simp add: pool_of_def)
next
  case (Cons ds dss)
  let ?pool = "pool @ map (rs_of i) (ds_rs ds)"
  have ids: "rst_id (rs_of i r) = dr_id r" "rst_id \<circ> rs_of i = dr_id" for r by (auto simp: rs_of_def)
  obtain s b where s: "build_service env i ds pool by_id = Some (s, ?pool, b)" "ids_ok ?pool b" "length b = length by_id"
      "svc_built i ds ?pool s"
    by (rule build_service_exact [of ds i pool by_id env]) (use Cons.prems in \<open>auto simp: ids_of_def\<close>)
  have "\<exists>ss by_id'. build_services env (Suc i) dss ?pool b = Some (ss, ?pool @ pool_of (Suc i) dss, by_id') \<and>
      ids_ok (?pool @ pool_of (Suc i) dss) by_id' \<and> length by_id' = length b \<and> length ss = length dss \<and>
      (\<forall>k < length dss. svc_built (Suc i + k) (dss ! k) (?pool @ pool_of (Suc i) dss) (ss ! k))"
    by (rule Cons.IH) (use Cons.prems s ids in \<open>auto simp: ids_of_def\<close>)
  then obtain ss b' where ss: "build_services env (Suc i) dss ?pool b = Some (ss, pool @ pool_of i (ds # dss), b')"
      "ids_ok (pool @ pool_of i (ds # dss)) b'" "length b' = length by_id" "length ss = length dss"
      "\<forall>k < length dss. svc_built (Suc i + k) (dss ! k) (pool @ pool_of i (ds # dss)) (ss ! k)"
    using s(3) by (auto simp: pool_of_Cons)
  have "svc_built i ds (pool @ pool_of i (ds # dss)) s"
    using svc_built_append [OF s(4), of "pool_of (Suc i) dss"] by (simp add: pool_of_Cons)
  then have "\<forall>k < length (ds # dss). svc_built (i + k) ((ds # dss) ! k) (pool @ pool_of i (ds # dss)) ((s # ss) ! k)"
    using ss(5) by (simp add: All_less_Suc2)
  then show ?case using s(1) ss by (simp del: nth_Cons_Suc)
qed

section \<open>Managers\<close>

definition mgr_fits :: "manager \<Rightarrow> bool" where
  "mgr_fits m \<longleftrightarrow> length (mgr_services m) \<le> kMaxServices \<and>
     list_all (\<lambda>ds. length (ds_rs ds) \<le> kMaxRsPerService) (mgr_services m) \<and> length (mgr_local_ips m) \<le> kMaxLocalIps \<and>
     distinct (ids_of (mgr_services m)) \<and> list_all (\<lambda>i. i < mgr_next_rs_id m) (ids_of (mgr_services m))"

text \<open>What a snapshot built from a manager holds.\<close>

definition snap_of :: "hash_env \<Rightarrow> manager \<Rightarrow> snapshot \<Rightarrow> bool" where
  "snap_of env m snap \<longleftrightarrow>
     snap_version snap = mgr_version m \<and> snap_mode snap = mgr_mode m \<and> snap_local_ips snap = mgr_local_ips m \<and>
     snap_hc_src snap = mgr_hc_src m \<and>
     snap_rs_pool snap = pool_of 0 (mgr_services m) \<and> ids_ok (snap_rs_pool snap) (snap_rs_by_id snap) \<and>
     length (snap_rs_by_id snap) = mgr_next_rs_id m \<and> length (snap_services snap) = length (mgr_services m) \<and>
     (\<forall>k < length (mgr_services m). svc_built k (mgr_services m ! k) (snap_rs_pool snap) (snap_services snap ! k)) \<and>
     svcs.good env (snap_services snap) (snap_svc_slots snap) \<and>
     svcs.stored (snap_svc_slots snap) = int ` {..<length (snap_services snap)} \<and>
     svcs.occupied (snap_svc_slots snap) < kSlots \<and>
     (\<forall>(xs, ips) \<in> {(snap_vips snap, map (sc_vip \<circ> ds_conf) (mgr_services m)), (snap_lips snap, mgr_local_ips m),
         (snap_locals snap, map (sc_vip \<circ> ds_conf) (mgr_services m) @ mgr_local_ips m @ [mgr_hc_src m])}.
        addrs.good env xs \<and> addrs.occupied xs < kSlots \<and> addr_set xs = set ips - {0})"

lemmas limits = kMaxServices_def kMaxRsPerService_def kMaxLocalIps_def kSlots_def kEmpty_def

lemma snap_index_exact:
  assumes "length (snap_services snap) \<le> kMaxServices" "length (snap_local_ips snap) \<le> kMaxLocalIps"
    "\<And>k. k < length (snap_services snap) \<Longrightarrow> sv_idx (snap_services snap ! k) = k"
  obtains slots vips lips locals where
    "snap_index env snap = Some (snap\<lparr>snap_svc_slots := slots, snap_vips := vips, snap_lips := lips, snap_locals := locals\<rparr>)"
    "svcs.good env (snap_services snap) slots" "svcs.stored slots = int ` {..<length (snap_services snap)}"
    "svcs.occupied slots < kSlots"
    "addrs.good env vips \<and> addrs.occupied vips < kSlots \<and> addr_set vips = set (map sv_vip (snap_services snap)) - {0}"
    "addrs.good env lips \<and> addrs.occupied lips < kSlots \<and> addr_set lips = set (snap_local_ips snap) - {0}"
    "addrs.good env locals \<and> addrs.occupied locals < kSlots \<and>
       addr_set locals = set (map sv_vip (snap_services snap) @ snap_local_ips snap @ [snap_hc_src snap]) - {0}"
proof -
  have len: "length (snap_services snap) < kSlots" "length (map sv_vip (snap_services snap)) < kSlots"
      "length (snap_local_ips snap) < kSlots"
      "length (map sv_vip (snap_services snap) @ snap_local_ips snap @ [snap_hc_src snap]) < kSlots"
    using assms(1,2) by (simp_all add: limits)
  obtain slots where "index_services env (replicate kSlots (- 1)) (snap_services snap) = Some slots"
      "svcs.good env (snap_services snap) slots" "svcs.stored slots = int ` {..<length (snap_services snap)}"
      "svcs.occupied slots = length (snap_services snap)"
    using fresh_index [OF len(1) assms(3)] by blast
  moreover note fresh_set [OF len(2), of env] fresh_set [OF len(3), of env] fresh_set [OF len(4), of env]
  ultimately show thesis using that len(1) unfolding snap_index_def Let_def by force
qed

lemma build_exact:
  assumes "mgr_fits m"
  obtains snap where "build env m = Some snap" "snap_of env m snap"
proof -
  have m: "length (mgr_services m) \<le> kMaxServices" "\<forall>ds\<in>set (mgr_services m). length (ds_rs ds) < kEmpty"
      "length (mgr_local_ips m) \<le> kMaxLocalIps" "distinct (ids_of (mgr_services m))"
      "\<forall>i\<in>set (ids_of (mgr_services m)). i < mgr_next_rs_id m"
    using assms by (auto simp: mgr_fits_def list_all_iff limits)
  have "\<exists>ss by_id. build_services env 0 (mgr_services m) [] (replicate (mgr_next_rs_id m) None) =
        Some (ss, [] @ pool_of 0 (mgr_services m), by_id) \<and>
      ids_ok ([] @ pool_of 0 (mgr_services m)) by_id \<and> length by_id = length (replicate (mgr_next_rs_id m) (None :: nat option)) \<and>
      length ss = length (mgr_services m) \<and>
      (\<forall>k < length (mgr_services m). svc_built (0 + k) (mgr_services m ! k) ([] @ pool_of 0 (mgr_services m)) (ss ! k))"
    by (rule build_services_exact) (use m in \<open>auto simp: ids_ok_def limits\<close>)
  then obtain ss by_id where ss: "build_services env 0 (mgr_services m) [] (replicate (mgr_next_rs_id m) None) =
        Some (ss, pool_of 0 (mgr_services m), by_id)" "ids_ok (pool_of 0 (mgr_services m)) by_id"
      "length by_id = mgr_next_rs_id m" "length ss = length (mgr_services m)"
      "\<forall>k < length (mgr_services m). svc_built k (mgr_services m ! k) (pool_of 0 (mgr_services m)) (ss ! k)"
    by auto
  have vip: "map sv_vip ss = map (sc_vip \<circ> ds_conf) (mgr_services m)"
    using ss(4,5) by (intro nth_equalityI) (auto simp: svc_built_def)
  have idx: "sv_idx (ss ! k) = k" if "k < length ss" for k using ss(4,5) that by (auto simp: svc_built_def)
  define s0 where "s0 = \<lparr>snap_version = mgr_version m, snap_mode = mgr_mode m, snap_services = ss,
      snap_rs_pool = pool_of 0 (mgr_services m), snap_rs_by_id = by_id, snap_local_ips = mgr_local_ips m,
      snap_hc_src = mgr_hc_src m, snap_svc_slots = [], snap_vips = [], snap_lips = [], snap_locals = []\<rparr>"
  have s0: "snap_services s0 = ss" "snap_local_ips s0 = mgr_local_ips m" "snap_hc_src s0 = mgr_hc_src m" by (simp_all add: s0_def)
  have b: "build env m = snap_index env s0" by (simp add: build_def ss(1) s0_def)
  show thesis
  proof (rule snap_index_exact [of s0 env], unfold s0)
    fix slots vips lips locals
    assume "snap_index env s0 = Some (s0\<lparr>snap_svc_slots := slots, snap_vips := vips, snap_lips := lips, snap_locals := locals\<rparr>)"
      "svcs.good env ss slots" "svcs.stored slots = int ` {..<length ss}" "svcs.occupied slots < kSlots"
      "addrs.good env vips \<and> addrs.occupied vips < kSlots \<and> addr_set vips = set (map sv_vip ss) - {0}"
      "addrs.good env lips \<and> addrs.occupied lips < kSlots \<and> addr_set lips = set (mgr_local_ips m) - {0}"
      "addrs.good env locals \<and> addrs.occupied locals < kSlots \<and>
         addr_set locals = set (map sv_vip ss @ mgr_local_ips m @ [mgr_hc_src m]) - {0}"
    then show thesis
      using ss(2-5) by (intro that) (simp_all only: b vip, simp add: snap_of_def s0_def)
  qed (use m(1,3) ss(4) idx in auto)
qed

end
