(* ===== verification/Snapshot_Runs.thy ===== *)
theory Snapshot_Runs
  imports Snapshot_Props
begin

text \<open>
  Runs of the snapshot manager: the operations keep its invariant, every publication succeeds, and
  what a worker reads from the published snapshot is what the manager was told.
\<close>

section \<open>Operations\<close>

lemma update_rs_keeps:
  assumes "update_rs i f rs = Some rs'" "\<And>r. dr_id (f r) = dr_id r"
  shows "map dr_id rs' = map dr_id rs \<and> length rs' = length rs"
  using assms(1)
proof (induction rs arbitrary: rs')
  case (Cons r rs)
  then show ?case using assms(2) by (auto split: if_splits)
qed simp

lemma find_rs_update_keeps:
  assumes "find_rs_update i f dss = Some dss'" "\<And>r. dr_id (f r) = dr_id r"
  shows "ids_of dss' = ids_of dss \<and> map (length \<circ> ds_rs) dss' = map (length \<circ> ds_rs) dss \<and> map ds_conf dss' = map ds_conf dss"
  using assms(1)
proof (induction dss arbitrary: dss')
  case (Cons ds dss)
  show ?case
  proof (cases "update_rs i f (ds_rs ds)")
    case None
    then show ?thesis using Cons by (auto simp: ids_of_def)
  next
    case (Some rs)
    then show ?thesis using Cons.prems update_rs_keeps [OF Some assms(2)] by (auto simp: ids_of_def)
  qed
qed simp

lemma erase_rs_keeps:
  assumes "erase_rs i rs = Some rs'"
  shows "map dr_id rs' = remove1 i (map dr_id rs) \<and> length rs' \<le> length rs \<and> i \<in> set (map dr_id rs)"
  using assms
proof (induction rs arbitrary: rs')
  case (Cons r rs)
  then show ?case by (fastforce split: if_splits)
qed simp

lemma erase_rs_None: "erase_rs i rs = None \<longleftrightarrow> i \<notin> dr_id ` set rs"
  by (induction rs) auto

lemma erase_first_keeps:
  assumes "erase_first i dss = Some dss'"
  shows "ids_of dss' = remove1 i (ids_of dss) \<and> list_all2 (\<lambda>a b. length (ds_rs a) \<le> length (ds_rs b)) dss' dss \<and>
    map ds_conf dss' = map ds_conf dss"
  using assms
proof (induction dss arbitrary: dss')
  case (Cons ds dss)
  show ?case
  proof (cases "erase_rs i (ds_rs ds)")
    case None
    then obtain dss0 where d: "erase_first i dss = Some dss0" "dss' = ds # dss0" using Cons.prems by auto
    have "i \<notin> set (map dr_id (ds_rs ds))" using None by (simp add: erase_rs_None)
    then show ?thesis using Cons.IH [OF d(1)] d(2) by (simp add: ids_of_def remove1_append)
  next
    case (Some rs)
    then show ?thesis using Cons.prems erase_rs_keeps [OF Some]
      by (auto simp: ids_of_def remove1_append list_all2_refl)
  qed
qed simp

lemma erase_first_None: "erase_first i dss = None \<longleftrightarrow> i \<notin> set (ids_of dss)"
proof (induction dss)
  case (Cons ds dss)
  then show ?case by (cases "erase_rs i (ds_rs ds)") (auto simp: ids_of_def erase_rs_None [symmetric])
qed (simp add: ids_of_def)

text \<open>Everything of a manager that its operations may change in a bounded way: which ids may appear.\<close>

definition extends :: "manager \<Rightarrow> manager \<Rightarrow> bool" where
  "extends m m' \<longleftrightarrow> mgr_next_rs_id m \<le> mgr_next_rs_id m' \<and>
     (\<forall>i \<in> set (ids_of (mgr_services m')). i \<in> set (ids_of (mgr_services m)) \<or> mgr_next_rs_id m \<le> i) \<and>
     map ds_conf (mgr_services m') = map ds_conf (mgr_services m) \<and>
     mgr_local_ips m' = mgr_local_ips m \<and> mgr_hc_src m' = mgr_hc_src m \<and> mgr_mode m' = mgr_mode m"

lemma extends_refl [simp]: "extends m m"
  by (simp add: extends_def)

lemma extends_trans: "extends a b \<Longrightarrow> extends b c \<Longrightarrow> extends a c"
  unfolding extends_def by (metis le_trans)

lemma list_all_lengths:
  "list_all (\<lambda>ds. length (ds_rs ds) \<le> n) dss \<longleftrightarrow> list_all (\<lambda>k. k \<le> n) (map (length \<circ> ds_rs) dss)"
  by (simp add: list_all_iff)

lemma update_fits:
  assumes "find_rs_update i f (mgr_services m) = Some dss" "\<And>r. dr_id (f r) = dr_id r" "mgr_fits m"
  shows "mgr_fits (m\<lparr>mgr_services := dss\<rparr>) \<and> extends m (m\<lparr>mgr_services := dss\<rparr>)"
proof -
  have k: "ids_of dss = ids_of (mgr_services m)" "map (length \<circ> ds_rs) dss = map (length \<circ> ds_rs) (mgr_services m)"
      "map ds_conf dss = map ds_conf (mgr_services m)" using find_rs_update_keeps [OF assms(1,2)] by auto
  have "length dss = length (mgr_services m)" using map_eq_imp_length_eq [OF k(3)] .
  then show ?thesis using assms(3) k by (simp add: mgr_fits_def list_all_lengths extends_def)
qed

lemma set_weight_fits:
  "mgr_fits m \<Longrightarrow> mgr_fits (snd (set_weight i w m)) \<and> extends m (snd (set_weight i w m))"
  by (auto simp: set_weight_def dest!: update_fits split: option.splits)

lemma set_enabled_fits:
  "mgr_fits m \<Longrightarrow> mgr_fits (snd (set_enabled i en m)) \<and> extends m (snd (set_enabled i en m))"
  by (auto simp: set_enabled_def dest!: update_fits split: option.splits)

lemma set_health_fits:
  "mgr_fits m \<Longrightarrow> mgr_fits (set_health i h m) \<and> extends m (set_health i h m)"
  by (auto simp: set_health_def dest!: update_fits split: option.splits)

lemma del_rs_fits:
  assumes "mgr_fits m"
  shows "mgr_fits (snd (del_rs i m)) \<and> extends m (snd (del_rs i m)) \<and> i \<notin> set (ids_of (mgr_services (snd (del_rs i m))))"
proof (cases "erase_first i (mgr_services m)")
  case None
  then show ?thesis using assms erase_first_None [of i "mgr_services m"] by (simp add: del_rs_def)
next
  case (Some dss)
  have k: "ids_of dss = remove1 i (ids_of (mgr_services m))"
      "list_all2 (\<lambda>a b. length (ds_rs a) \<le> length (ds_rs b)) dss (mgr_services m)"
      "map ds_conf dss = map ds_conf (mgr_services m)" using erase_first_keeps [OF Some] by auto
  have "list_all (\<lambda>ds. length (ds_rs ds) \<le> kMaxRsPerService) dss"
    using k(2) assms by (force simp: mgr_fits_def list_all_length list_all2_conv_all_nth)
  moreover have "length dss = length (mgr_services m)" using map_eq_imp_length_eq [OF k(3)] .
  ultimately show ?thesis
    using assms k Some set_remove1_subset [of i "ids_of (mgr_services m)"]
    by (auto simp: del_rs_def mgr_fits_def extends_def list_all_iff)
qed

lemma mset_ids_of_update:
  assumes "k < length dss"
  shows "mset (ids_of (dss[k := ds])) + mset (map dr_id (ds_rs (dss ! k))) = mset (ids_of dss) + mset (map dr_id (ds_rs ds))"
  using assms
proof (induction dss arbitrary: k)
  case (Cons d dss)
  then show ?case by (cases k) (simp_all add: ids_of_def)
qed simp

lemma add_rs_fits:
  assumes "mgr_fits m"
  shows "mgr_fits (snd (add_rs k rc m)) \<and> extends m (snd (add_rs k rc m))"
proof (cases "fst (add_rs k rc m)")
  case (Inl e)
  then have "snd (add_rs k rc m) = m" by (auto simp: add_rs_def Let_def split: if_splits option.splits)
  then show ?thesis using assms by simp
next
  case (Inr n)
  define r where "r = \<lparr>dr_id = mgr_next_rs_id m, dr_conf = rc, dr_enabled = True, dr_healthy = True\<rparr>"
  let ?ds = "mgr_services m ! k"
  let ?ds' = "?ds\<lparr>ds_rs := ds_rs ?ds @ [r]\<rparr>"
  let ?dss = "(mgr_services m)[k := ?ds']"
  from Inr have k: "k < length (mgr_services m)" "length (ds_rs ?ds) < kMaxRsPerService"
      "snd (add_rs k rc m) = m\<lparr>mgr_next_rs_id := mgr_next_rs_id m + 1, mgr_services := ?dss\<rparr>"
    by (auto simp: add_rs_def Let_def r_def split: if_splits option.splits)
  have "mset (ids_of ?dss) = mset (mgr_next_rs_id m # ids_of (mgr_services m))"
    using mset_ids_of_update [OF k(1), of ?ds'] by (simp add: r_def)
  then have ids: "set (ids_of ?dss) = insert (mgr_next_rs_id m) (set (ids_of (mgr_services m)))"
      "distinct (ids_of ?dss) \<longleftrightarrow> distinct (mgr_next_rs_id m # ids_of (mgr_services m))"
    by (metis list.simps(15) set_mset_mset) (metis \<open>mset (ids_of ?dss) = _\<close> mset_eq_imp_distinct_iff)
  have "list_all (\<lambda>ds. length (ds_rs ds) \<le> kMaxRsPerService) ?dss"
    using assms k(1,2) by (auto simp: mgr_fits_def list_all_length nth_list_update)
  moreover have "map ds_conf ?dss = map ds_conf (mgr_services m)"
    using k(1) by (simp add: map_update list_update_same_conv)
  ultimately show ?thesis using assms k(3) ids by (auto simp: mgr_fits_def extends_def list_all_iff less_Suc_eq)
qed

lemma publish_exact:
  assumes "mgr_fits m"
  obtains m' snap where "publish env m = Some m'" "mgr_cur m' = Some snap" "snap_of env m' snap" "mgr_fits m'"
    "extends m m'" "mgr_services m' = mgr_services m"
proof -
  have "mgr_fits (m\<lparr>mgr_version := mgr_version m + 1\<rparr>)" using assms by (simp add: mgr_fits_def)
  then obtain snap where "build env (m\<lparr>mgr_version := mgr_version m + 1\<rparr>) = Some snap"
      "snap_of env (m\<lparr>mgr_version := mgr_version m + 1\<rparr>) snap" by (rule build_exact)
  moreover have "snap_of env (m\<lparr>mgr_cur := c\<rparr>) = snap_of env m" for m c by (rule ext) (simp add: snap_of_def)
  ultimately show thesis using assms
    by (intro that [of "m\<lparr>mgr_version := mgr_version m + 1, mgr_cur := Some snap\<rparr>" snap])
      (simp_all add: publish_def Let_def mgr_fits_def extends_def)
qed

lemma number_rs_exact:
  "number_rs n rcs = (rs, n') \<Longrightarrow> map dr_id rs = [n..<n'] \<and> n' = n + length rcs \<and> length rs = length rcs"
proof (induction rcs arbitrary: n rs n')
  case (Cons rc rcs)
  obtain rs0 n0 where r: "number_rs (n + 1) rcs = (rs0, n0)" by fastforce
  show ?case using Cons.IH [OF r] Cons.prems r upt_conv_Cons [of n n'] by auto
qed simp

lemma desired_services_exact:
  "desired_services n scs = (dss, n') \<Longrightarrow>
     ids_of dss = [n..<n'] \<and> n \<le> n' \<and> n' = n + sum_list (map (length \<circ> sc_rs) scs) \<and> length dss = length scs \<and>
     map (length \<circ> ds_rs) dss = map (length \<circ> sc_rs) scs"
proof (induction scs arbitrary: n dss n')
  case (Cons sc scs)
  obtain rs n1 where r: "number_rs n (sc_rs sc) = (rs, n1)" by fastforce
  obtain dss0 n2 where d: "desired_services n1 scs = (dss0, n2)" by fastforce
  from Cons.prems r d have e: "dss = \<lparr>ds_conf = sc\<lparr>sc_rs := []\<rparr>, ds_rs = rs\<rparr> # dss0" "n' = n2" by auto
  show ?case using Cons.IH [OF d] number_rs_exact [OF r] e
    by (auto simp: ids_of_def upt_add_eq_append [symmetric] le_iff_add)
qed (simp add: ids_of_def)

section \<open>Runs\<close>

text \<open>The limits that the validation of a configuration checks.\<close>

definition cfg_fits :: "lb_config \<Rightarrow> bool" where
  "cfg_fits cfg \<longleftrightarrow> length (lb_services cfg) \<le> kMaxServices \<and>
     list_all (\<lambda>sc. length (sc_rs sc) \<le> kMaxRsPerService) (lb_services cfg) \<and> length (lb_local_ips cfg) \<le> kMaxLocalIps"

inductive mgr_step :: "hash_env \<Rightarrow> manager \<Rightarrow> manager \<Rightarrow> bool" for env where
  step_weight: "mgr_step env m (snd (set_weight i w m))"
| step_enabled: "mgr_step env m (snd (set_enabled i en m))"
| step_health: "mgr_step env m (set_health i h m)"
| step_add: "mgr_step env m (snd (add_rs k rc m))"
| step_del: "mgr_step env m (snd (del_rs i m))"
| step_publish: "publish env m = Some m' \<Longrightarrow> mgr_step env m m'"

inductive mgr_reach :: "hash_env \<Rightarrow> lb_config \<Rightarrow> manager \<Rightarrow> bool" for env cfg where
  reach_init: "mgr_init env cfg manager_zero = Some m \<Longrightarrow> mgr_reach env cfg m"
| reach_step: "mgr_reach env cfg m \<Longrightarrow> mgr_step env m m' \<Longrightarrow> mgr_reach env cfg m'"

lemma mgr_step_fits: "mgr_step env m m' \<Longrightarrow> mgr_fits m \<Longrightarrow> mgr_fits m' \<and> extends m m'"
proof (induction rule: mgr_step.induct)
  case (step_publish m m')
  then show ?case by (metis publish_exact option.inject)
qed (simp_all add: set_weight_fits set_enabled_fits set_health_fits add_rs_fits del_rs_fits)

lemma init_fits:
  assumes "cfg_fits cfg"
  obtains m where "mgr_init env cfg manager_zero = Some m" "mgr_fits m"
    "mgr_next_rs_id m = 1 + sum_list (map (length \<circ> sc_rs) (lb_services cfg))"
    "ids_of (mgr_services m) = [1..<mgr_next_rs_id m]"
proof -
  obtain dss n where d: "desired_services 1 (lb_services cfg) = (dss, n)" by fastforce
  note e = desired_services_exact [OF d]
  define m where "m = manager_zero\<lparr>mgr_mode := lb_mode cfg, mgr_local_ips := if lb_mode cfg = NAT then lb_local_ips cfg else [],
    mgr_hc_src := lb_hc_src cfg, mgr_services := dss, mgr_next_rs_id := n\<rparr>"
  have "mgr_fits m"
    using assms e unfolding mgr_fits_def m_def cfg_fits_def list_all_lengths by (auto simp: list_all_iff)
  then obtain m' where "publish env m = Some m'" "mgr_fits m'" "mgr_services m' = mgr_services m" "mgr_next_rs_id m' = mgr_next_rs_id m"
    by (rule publish_exact [of m env]) (auto simp: publish_def Let_def)
  then show thesis using e d by (intro that [of m']) (auto simp: mgr_init_def m_def manager_zero_def)
qed

lemma reach_fits: "mgr_reach env cfg m \<Longrightarrow> cfg_fits cfg \<Longrightarrow> mgr_fits m"
proof (induction rule: mgr_reach.induct)
  case (reach_init m)
  then show ?case by (metis init_fits option.inject)
qed (blast dest: mgr_step_fits)

lemma steps_extend:
  assumes "(mgr_step env)\<^sup>*\<^sup>* m m'" "mgr_fits m"
  shows "mgr_fits m' \<and> extends m m'"
  using assms by (induction rule: rtranclp_induct) (auto dest: mgr_step_fits intro: extends_trans)

section \<open>What a published snapshot tells\<close>

lemma snap_rs_exact:
  assumes "snap_of env m snap" "mgr_fits m"
  shows "snap_rs snap i = Some r \<longleftrightarrow>
    (\<exists>k < length (mgr_services m). \<exists>dr \<in> set (ds_rs (mgr_services m ! k)). dr_id dr = i \<and> r = rs_of k dr)"
proof -
  have s: "snap_rs_pool snap = pool_of 0 (mgr_services m)" "ids_ok (snap_rs_pool snap) (snap_rs_by_id snap)"
      "length (snap_rs_by_id snap) = mgr_next_rs_id m" using assms(1) by (auto simp: snap_of_def)
  have pool: "r \<in> set (pool_of 0 (mgr_services m)) \<longleftrightarrow>
      (\<exists>k < length (mgr_services m). \<exists>dr \<in> set (ds_rs (mgr_services m ! k)). r = rs_of k dr)"
    by (force simp: pool_of_def in_set_enumerate_eq image_iff)
  have small: "dr_id dr < mgr_next_rs_id m" if "k < length (mgr_services m)" "dr \<in> set (ds_rs (mgr_services m ! k))" for k dr
    using assms(2) that by (fastforce simp: mgr_fits_def list_all_iff ids_of_def)
  have idr: "rst_id (rs_of k dr) = dr_id dr" for k dr by (simp add: rs_of_def)
  have "snap_rs snap i = Some r \<longleftrightarrow> i < mgr_next_rs_id m \<and> r \<in> set (snap_rs_pool snap) \<and> rst_id r = i"
    using s(2,3) by (auto simp: snap_rs_def ids_ok_def in_set_conv_nth split: if_splits)
  also have "\<dots> \<longleftrightarrow> (\<exists>k < length (mgr_services m). \<exists>dr \<in> set (ds_rs (mgr_services m ! k)). dr_id dr = i \<and> r = rs_of k dr)"
    unfolding s(1) pool using small idr by metis
  finally show ?thesis .
qed

lemma snap_of_service:
  assumes "snap_of env m snap" "k < length (mgr_services m)"
  shows "svc_built k (mgr_services m ! k) (snap_rs_pool snap) (snap_services snap ! k)"
    and "k < length (snap_services snap)"
  using assms unfolding snap_of_def by auto

text \<open>The index of a service with a key, among those the manager holds.\<close>

definition key_matches :: "ipv4_addr \<Rightarrow> u16 \<Rightarrow> u8 \<Rightarrow> desired_service \<Rightarrow> bool" where
  "key_matches vip port proto ds \<longleftrightarrow>
     sc_vip (ds_conf ds) = vip \<and> sc_port (ds_conf ds) = port \<and> sc_proto (ds_conf ds) = proto"

lemma find_service_snap:
  assumes "snap_of env m snap"
  shows "\<exists>r. find_service env snap vip (htons port) proto = Some r \<and>
    (case r of None \<Rightarrow> \<forall>ds\<in>set (mgr_services m). \<not> key_matches vip port proto ds
     | Some k \<Rightarrow> k < length (mgr_services m) \<and> key_matches vip port proto (mgr_services m ! k))"
proof -
  have len: "length (snap_services snap) = length (mgr_services m)" using assms by (simp add: snap_of_def)
  have key: "key_matches vip port proto (mgr_services m ! k) \<longleftrightarrow>
      (let s = snap_services snap ! k in sv_vip s = vip \<and> sv_port_be s = htons port \<and> sv_proto s = proto)"
    if "k < length (mgr_services m)" for k
    using snap_of_service(1) [OF assms that] by (simp add: svc_built_def key_matches_def Let_def)
  obtain r where r: "find_service env snap vip (htons port) proto = Some r"
      "case r of None \<Rightarrow> \<forall>s\<in>set (snap_services snap). \<not> (sv_vip s = vip \<and> sv_port_be s = htons port \<and> sv_proto s = proto)
       | Some i \<Rightarrow> i < length (snap_services snap) \<and> sv_vip (snap_services snap ! i) = vip \<and>
           sv_port_be (snap_services snap ! i) = htons port \<and> sv_proto (snap_services snap ! i) = proto"
    using find_service_exact [of env snap vip "htons port" proto] assms unfolding snap_of_def by blast
  show ?thesis
  proof (cases r)
    case None
    then have "\<forall>k < length (mgr_services m). \<not> key_matches vip port proto (mgr_services m ! k)"
      using r(2) len key by (simp add: all_set_conv_all_nth Let_def)
    then show ?thesis using None r(1) by (simp add: all_set_conv_all_nth)
  next
    case (Some k)
    then show ?thesis using r len key [of k] by (simp add: Let_def)
  qed
qed

lemma address_tables:
  assumes "snap_of env m snap" "ip \<noteq> 0"
  shows "is_vip env snap ip = Some (ip \<in> set (map (sc_vip \<circ> ds_conf) (mgr_services m)))"
    and "is_lip env snap ip = Some (ip \<in> set (mgr_local_ips m))"
    and "is_local env snap ip = Some (ip \<in> set (map (sc_vip \<circ> ds_conf) (mgr_services m) @ mgr_local_ips m @ [mgr_hc_src m]))"
proof -
  let ?vs = "map (sc_vip \<circ> ds_conf) (mgr_services m)"
  have t: "\<forall>(xs, ips) \<in> {(snap_vips snap, ?vs), (snap_lips snap, mgr_local_ips m),
      (snap_locals snap, ?vs @ mgr_local_ips m @ [mgr_hc_src m])}.
     addrs.good env xs \<and> addrs.occupied xs < kSlots \<and> addr_set xs = set ips - {0}"
    using assms(1) unfolding snap_of_def by blast
  have "set_has env xs ip = Some (ip \<in> set ips)"
    if "(xs, ips) \<in> {(snap_vips snap, ?vs), (snap_lips snap, mgr_local_ips m),
      (snap_locals snap, ?vs @ mgr_local_ips m @ [mgr_hc_src m])}" for xs ips
    using bspec [OF t that] set_has_exact [of env xs ip] assms(2) by auto
  from this [of "snap_vips snap" ?vs] this [of "snap_lips snap" "mgr_local_ips m"]
    this [of "snap_locals snap" "?vs @ mgr_local_ips m @ [mgr_hc_src m]"]
  show "is_vip env snap ip = Some (ip \<in> set ?vs)" "is_lip env snap ip = Some (ip \<in> set (mgr_local_ips m))"
    "is_local env snap ip = Some (ip \<in> set (?vs @ mgr_local_ips m @ [mgr_hc_src m]))"
    unfolding is_vip_def is_lip_def is_local_def by blast+
qed

lemma zero_is_local: "snap_of env m snap \<Longrightarrow> is_local env snap 0 = Some True"
  by (auto simp: snap_of_def is_local_def addrs.good_def intro: set_has_zero)

lemma reach_publish:
  assumes "cfg_fits cfg" "mgr_reach env cfg m"
  obtains m' snap where "publish env m = Some m'" "mgr_cur m' = Some snap" "snap_of env m' snap" "mgr_fits m'"
    "mgr_services m' = mgr_services m" "mgr_local_ips m' = mgr_local_ips m" "mgr_hc_src m' = mgr_hc_src m"
  using publish_exact [OF reach_fits [OF assms(2,1)]] that unfolding extends_def by metis

lemma sched_picks_fit:
  assumes "sched_fits b s"
  shows "list_all (\<lambda>r. case r of None \<Rightarrow> list_all (\<lambda>x. sb_weight x = 0) b | Some i \<Rightarrow> i < length b \<and> sb_weight (b ! i) \<noteq> 0)
    (sched_picks jhash3 w s ts)"
  using assms
proof (induction ts arbitrary: s)
  case (Cons t ts)
  have "case snd (sched_pick jhash3 s t w) of None \<Rightarrow> list_all (\<lambda>x. sb_weight x = 0) b
      | Some i \<Rightarrow> i < length b \<and> sb_weight (b ! i) \<noteq> 0"
    using sched_pick_fits(2) [OF Cons.prems, of jhash3 t w] unfolding list_all_iff .
  then show ?case using Cons.IH [OF sched_pick_fits(1) [OF Cons.prems]] by (simp add: case_prod_beta Let_def)
qed simp

text \<open>C29: Whatever was done to the manager, a publication succeeds, and the new snapshot finds a real server
  by its id exactly when the manager holds a real server with that id, with the weight and the flags
  the manager has for it; each service has the real servers of the manager, in their order.\<close>

theorem snapshot_refines_manager:
  assumes "cfg_fits cfg" "mgr_reach env cfg m"
  shows "\<exists>m' snap. publish env m = Some m' \<and> mgr_cur m' = Some snap \<and>
    (\<forall>i r. snap_rs snap i = Some r \<longleftrightarrow>
       (\<exists>k < length (mgr_services m). \<exists>dr \<in> set (ds_rs (mgr_services m ! k)). dr_id dr = i \<and> r = rs_of k dr)) \<and>
    map (\<lambda>s. map ((!) (snap_rs_pool snap)) (sv_rs s)) (snap_services snap) =
    map (\<lambda>(k, ds). map (rs_of k) (ds_rs ds)) (enumerate 0 (mgr_services m))"
proof (rule reach_publish [OF assms])
  fix m' snap
  assume a: "publish env m = Some m'" "mgr_cur m' = Some snap" "snap_of env m' snap" "mgr_fits m'" "mgr_services m' = mgr_services m"
  have "map (\<lambda>s. map ((!) (snap_rs_pool snap)) (sv_rs s)) (snap_services snap) =
      map (\<lambda>(k, ds). map (rs_of k) (ds_rs ds)) (enumerate 0 (mgr_services m))"
    using a(3,5) snap_of_service(1) [OF a(3)] unfolding svc_built_def
    by (intro nth_equalityI) (simp_all add: snap_of_def nth_enumerate_eq)
  then show ?thesis using a(1,2) snap_rs_exact [OF a(3,4)] unfolding a(5) by blast
qed

text \<open>C30: The lookup of a service in a published snapshot always ends. It answers a service of the manager with
  that address, port and protocol, or that there is none.\<close>

theorem snapshot_finds_service:
  assumes "cfg_fits cfg" "mgr_reach env cfg m" "publish env m = Some m'" "mgr_cur m' = Some snap"
  shows "\<exists>r. find_service env snap vip (htons port) proto = Some r \<and>
    (case r of None \<Rightarrow> \<forall>ds\<in>set (mgr_services m). \<not> key_matches vip port proto ds
     | Some k \<Rightarrow> k < length (mgr_services m) \<and> key_matches vip port proto (mgr_services m ! k))"
proof (rule reach_publish [OF assms(1,2)])
  fix m2 snap2
  assume a: "publish env m = Some m2" "mgr_cur m2 = Some snap2" "snap_of env m2 snap2" "mgr_services m2 = mgr_services m"
  then show ?thesis using find_service_snap [OF a(3), of vip port proto, unfolded a(4)] assms(3,4) by simp
qed

text \<open>C31: The address tables of a published snapshot always answer, and answer right: a service address, a local
  address used for translation, or any address the balancer answers ARP for.\<close>

theorem snapshot_addresses:
  assumes "cfg_fits cfg" "mgr_reach env cfg m" "publish env m = Some m'" "mgr_cur m' = Some snap" "ip \<noteq> 0"
  shows "is_vip env snap ip = Some (ip \<in> set (map (sc_vip \<circ> ds_conf) (mgr_services m))) \<and>
    is_lip env snap ip = Some (ip \<in> set (mgr_local_ips m)) \<and>
    is_local env snap ip = Some (ip \<in> set (map (sc_vip \<circ> ds_conf) (mgr_services m)) \<or> ip \<in> set (mgr_local_ips m) \<or> ip = mgr_hc_src m)"
proof (rule reach_publish [OF assms(1,2)])
  fix m2 snap2
  assume a: "publish env m = Some m2" "mgr_cur m2 = Some snap2" "snap_of env m2 snap2" "mgr_services m2 = mgr_services m"
    "mgr_local_ips m2 = mgr_local_ips m" "mgr_hc_src m2 = mgr_hc_src m"
  then have "snap2 = snap" using assms(3,4) by simp
  then show ?thesis using address_tables [OF a(3) assms(5)] a(4-6) by auto
qed

text \<open>The address 0.0.0.0 counts as an address of the balancer in every published snapshot, because the
  lookup stops at a free slot and compares it with the address it looks for.\<close>

lemma snapshot_zero_is_local:
  assumes "cfg_fits cfg" "mgr_reach env cfg m" "publish env m = Some m'" "mgr_cur m' = Some snap"
  shows "is_local env snap 0 = Some True"
  using reach_publish [OF assms(1,2)] zero_is_local [of env m' snap] assms(3,4) by (metis option.inject)

lemma picks_schedulable:
  assumes "cfg_fits cfg" "mgr_reach env cfg m" "publish env m = Some m'" "mgr_cur m' = Some snap" "k < length (mgr_services m)"
  shows "list_all (\<lambda>p. case p of
      None \<Rightarrow> list_all (\<lambda>dr. \<not> schedulable (rs_of k dr)) (ds_rs (mgr_services m ! k))
    | Some j \<Rightarrow> j < length (ds_rs (mgr_services m ! k)) \<and> schedulable (rs_of k (ds_rs (mgr_services m ! k) ! j)))
    (sched_picks jhash3 w (sv_sched (snap_services snap ! k)) ts)"
proof (rule reach_publish [OF assms(1,2)])
  fix m2 snap2
  assume a: "publish env m = Some m2" "mgr_cur m2 = Some snap2" "snap_of env m2 snap2" "mgr_services m2 = mgr_services m"
  have fits: "sched_fits (map (backend_of \<circ> rs_of k) (ds_rs (mgr_services m ! k))) (sv_sched (snap_services snap ! k))"
    using snap_of_service(1) [OF a(3), of k] a assms(3-5) by (simp add: svc_built_def)
  have w: "sb_weight (backend_of r) = 0 \<longleftrightarrow> \<not> schedulable r" for r by (simp add: backend_of_def schedulable_def)
  show ?thesis
    using sched_picks_fit [OF fits, of jhash3 w ts] by (auto simp: w list_all_iff split: option.splits)
qed

text \<open>C32: However often a worker picks from the scheduler of a service, every pick is a real server of the service
  that is enabled, healthy and of positive weight; no server is picked only if there is none such.\<close>

theorem snapshot_picks_schedulable:
  assumes "cfg_fits cfg" "mgr_reach env cfg m" "publish env m = Some m'" "mgr_cur m' = Some snap" "k < length (mgr_services m)"
  shows "list_all (\<lambda>p. case p of
      None \<Rightarrow> list_all (\<lambda>dr. \<not> schedulable (rs_of k dr)) (ds_rs (mgr_services m ! k))
    | Some j \<Rightarrow> j < length (ds_rs (mgr_services m ! k)) \<and> schedulable (rs_of k (ds_rs (mgr_services m ! k) ! j)))
    (sched_picks jhash3 w (sv_sched (snap_services snap ! k)) ts)"
  using assms by (rule picks_schedulable)

text \<open>C33: A real server that was deleted never comes back under its id, whatever is done later.\<close>

theorem rs_ids_never_reused:
  assumes "cfg_fits cfg" "mgr_reach env cfg m" "i < mgr_next_rs_id m" "(mgr_step env)\<^sup>*\<^sup>* (snd (del_rs i m)) m'"
  shows "i \<notin> set (ids_of (mgr_services m'))"
proof -
  note d = del_rs_fits [OF reach_fits [OF assms(2,1)], of i]
  have "extends (snd (del_rs i m)) m'" using steps_extend [OF assms(4)] d by blast
  moreover have "mgr_next_rs_id m \<le> mgr_next_rs_id (snd (del_rs i m))" using d by (simp add: extends_def)
  ultimately show ?thesis using d assms(3) unfolding extends_def by fastforce
qed


section \<open>Witnesses\<close>

definition demo_env :: hash_env where
  "demo_env = \<lparr>crc_8byte = \<lambda>_ _. 0, crc_4byte = \<lambda>_ _. 0, jhash_2words = \<lambda>a b c. a, jhash_3words = \<lambda>a b c d. a, max_lcore = 2\<rparr>"

definition demo_cfg :: lb_config where
  "demo_cfg = lb_config_default\<lparr>lb_services := [service_conf_default\<lparr>sc_vip := 1, sc_rs := [rs_conf_default]\<rparr>]\<rparr>"

lemma demo_cfg_fits: "cfg_fits demo_cfg"
  by (simp add: cfg_fits_def demo_cfg_def limits lb_config_default_def)

lemma demo_run:
  obtains m m' snap where "mgr_reach demo_env demo_cfg m" "publish demo_env m = Some m'" "mgr_cur m' = Some snap"
    "length (mgr_services m) = 1" "mgr_next_rs_id m = 2"
proof (rule init_fits [OF demo_cfg_fits, of demo_env])
  fix m
  assume a: "mgr_init demo_env demo_cfg manager_zero = Some m"
    "mgr_next_rs_id m = 1 + sum_list (map (length \<circ> sc_rs) (lb_services demo_cfg))"
  then have r: "mgr_reach demo_env demo_cfg m" by (simp add: reach_init)
  have "length (mgr_services m) = 1"
    using a(1) by (auto simp: mgr_init_def demo_cfg_def publish_def Let_def manager_zero_def)
  moreover have "mgr_next_rs_id m = 2" using a(2) by (simp add: demo_cfg_def)
  ultimately show thesis using reach_publish [OF demo_cfg_fits r] r that by metis
qed

theorem snapshot_refines_manager_witness:
  "\<exists>m m' snap. mgr_reach demo_env demo_cfg m \<and> publish demo_env m = Some m' \<and> mgr_cur m' = Some snap \<and>
    (\<forall>i r. snap_rs snap i = Some r \<longleftrightarrow>
       (\<exists>k < length (mgr_services m). \<exists>dr \<in> set (ds_rs (mgr_services m ! k)). dr_id dr = i \<and> r = rs_of k dr))"
  by (rule demo_run) (use snapshot_refines_manager [OF demo_cfg_fits] in blast)

theorem snapshot_finds_service_witness:
  "\<exists>m m' snap r. mgr_reach demo_env demo_cfg m \<and> publish demo_env m = Some m' \<and> mgr_cur m' = Some snap \<and>
    find_service demo_env snap 1 (htons 80) 6 = Some r"
  by (rule demo_run) (use snapshot_finds_service [OF demo_cfg_fits] in blast)

theorem snapshot_addresses_witness:
  "\<exists>m m' snap. mgr_reach demo_env demo_cfg m \<and> publish demo_env m = Some m' \<and> mgr_cur m' = Some snap \<and>
    is_vip demo_env snap 1 = Some (1 \<in> set (map (sc_vip \<circ> ds_conf) (mgr_services m)))"
  by (rule demo_run) (use snapshot_addresses [OF demo_cfg_fits _ _ _ one_neq_zero] in blast)

theorem snapshot_picks_schedulable_witness:
  "\<exists>m m' snap. mgr_reach demo_env demo_cfg m \<and> publish demo_env m = Some m' \<and> mgr_cur m' = Some snap \<and>
    list_all (\<lambda>p. case p of
        None \<Rightarrow> list_all (\<lambda>dr. \<not> schedulable (rs_of 0 dr)) (ds_rs (mgr_services m ! 0))
      | Some j \<Rightarrow> j < length (ds_rs (mgr_services m ! 0)) \<and> schedulable (rs_of 0 (ds_rs (mgr_services m ! 0) ! j)))
    (sched_picks (\<lambda>_ _ _ _. 0) 0 (sv_sched (snap_services snap ! 0)) [five_tuple_zero, five_tuple_zero])"
proof (rule demo_run)
  fix m m' snap
  assume a: "mgr_reach demo_env demo_cfg m" "publish demo_env m = Some m'" "mgr_cur m' = Some snap" "length (mgr_services m) = 1"
  have "0 < length (mgr_services m)" using a(4) by simp
  from a(1-3) snapshot_picks_schedulable [OF demo_cfg_fits a(1-3) this] show ?thesis by blast
qed

theorem rs_ids_never_reused_witness:
  "\<exists>m. mgr_reach demo_env demo_cfg m \<and> 1 \<notin> set (ids_of (mgr_services (snd (set_weight 1 5 (snd (del_rs 1 m))))))"
proof (rule demo_run)
  fix m
  assume a: "mgr_reach demo_env demo_cfg m" "mgr_next_rs_id m = 2"
  have "(mgr_step demo_env)\<^sup>*\<^sup>* (snd (del_rs 1 m)) (snd (set_weight 1 5 (snd (del_rs 1 m))))"
    using step_weight by (rule r_into_rtranclp)
  with rs_ids_never_reused [OF demo_cfg_fits a(1)] a(2) have
    "1 \<notin> set (ids_of (mgr_services (snd (set_weight 1 5 (snd (del_rs 1 m))))))" by simp
  with a(1) show ?thesis by blast
qed

end
