(* ===== verification/Config_Props.thy ===== *)
theory Config_Props
  imports Config Snapshot_Runs
begin

text \<open>
  What a configuration that was loaded satisfies, and what the text functions below it guarantee.
\<close>

section \<open>Typed access\<close>

lemma get_u32_range:
  assumes "get_u32 secs name key out lo hi = Some n"
  shows "n = out \<or> lo \<le> n \<and> n \<le> hi"
  using assms by (auto simp: get_u32_def Let_def split: if_splits prod.splits)

lemma get_u32_within:
  assumes "get_u32 secs name key out lo hi = Some n" "lo \<le> out" "out \<le> hi"
  shows "lo \<le> n" "n \<le> hi"
  using get_u32_range [OF assms(1)] assms(2,3) by auto

section \<open>Services\<close>

definition rs_conf_ok :: "rs_conf \<Rightarrow> bool" where
  "rs_conf_ok rs \<longleftrightarrow> rc_port rs \<noteq> 0 \<and> rc_weight rs \<le> 65535 \<and> length (rc_mac rs) = 6"

definition service_conf_ok :: "service_conf \<Rightarrow> bool" where
  "service_conf_ok svc \<longleftrightarrow> sc_port svc \<noteq> 0 \<and> (sc_proto svc = 6 \<or> sc_proto svc = 17) \<and> list_all rs_conf_ok (sc_rs svc)"

lemma of_nat_port:
  assumes "(n :: nat) \<noteq> 0" "n \<le> 65535"
  shows "(of_nat n :: u16) \<noteq> 0" "unat (of_nat n :: u16) = n"
proof -
  show "unat (of_nat n :: u16) = n" using assms(2) by (simp add: unat_of_nat)
  then show "(of_nat n :: u16) \<noteq> 0" using assms(1) by (metis unat_0)
qed

lemma parse_port_ok: "parse_port s = Some p \<Longrightarrow> p \<noteq> 0"
  by (auto simp: parse_port_def of_nat_port split: if_splits prod.splits)

lemma scan_fields_length: "scan_fields n s = Some vs \<Longrightarrow> length vs = n"
  by (induction n s arbitrary: vs rule: scan_fields.induct) (auto split: option.splits if_splits prod.splits)

lemma parse_mac_length: "parse_mac s = Some m \<Longrightarrow> length m = 6"
  by (auto simp: parse_mac_def dest: scan_fields_length split: option.splits if_splits)

lemma parse_rs_ok:
  assumes "parse_rs val = Some rs"
  shows "rs_conf_ok rs"
proof -
  obtain ip port w mac where p: "parse_port (split_str val CHR '':'' ! 1) = Some port"
    "w \<le> 65535" "length mac = 6" "rs = \<lparr>rc_ip = ip, rc_port = port, rc_weight = w, rc_mac = mac\<rparr>"
    using assms unfolding parse_rs_def Let_def
    by (auto simp: parse_weight_def rs_conf_default_def mac_zero_def parse_mac_length
        split: if_splits prod.splits bind_splits)
  then show ?thesis using parse_port_ok by (simp add: rs_conf_ok_def)
qed

lemma parse_rs_list_ok: "parse_rs_list vs = Some rs \<Longrightarrow> list_all rs_conf_ok rs"
  by (induction vs arbitrary: rs) (auto simp: parse_rs_ok split: bind_splits)

lemma parse_service_ok:
  assumes "parse_service secs name sec = Some svc"
  shows "service_conf_ok svc"
proof -
  obtain port proto rs where p: "get_u32 secs name ''port'' 0 1 65535 = Some port" "port \<noteq> 0"
    "proto_of (to_lower (cfg_get secs name ''proto'' ''tcp'')) = Some proto"
    "parse_rs_list (map snd (service_servers sec)) = Some rs"
    "sc_port svc = of_nat port" "sc_proto svc = proto" "sc_rs svc = rs"
    using assms unfolding parse_service_def by (auto split: bind_splits if_splits)
  then have "port \<le> 65535" using get_u32_range [OF p(1)] by auto
  then show ?thesis using p parse_rs_list_ok [OF p(4)] of_nat_port(1) [OF p(2)]
    by (auto simp: service_conf_ok_def proto_of_def split: if_splits)
qed

lemma parse_services_ok: "parse_services secs rest = Some svcs \<Longrightarrow> list_all service_conf_ok svcs"
  by (induction secs rest arbitrary: svcs rule: parse_services.induct) (auto simp: parse_service_ok split: bind_splits if_splits)

lemma legacy_ports_ok:
  "legacy_ports vip rs ps = Some svcs \<Longrightarrow> list_all rs_conf_ok rs \<Longrightarrow> list_all service_conf_ok svcs"
  by (induction ps arbitrary: svcs) (auto simp: service_conf_ok_def parse_port_ok split: bind_splits)

lemma parse_legacy_ok: "parse_legacy_services secs = Some svcs \<Longrightarrow> list_all service_conf_ok svcs"
  unfolding parse_legacy_services_def by (auto split: bind_splits intro: legacy_ports_ok parse_rs_list_ok)

section \<open>Timeouts and limits\<close>

definition timeouts_ok :: "timeout_conf \<Rightarrow> bool" where
  "timeouts_ok t \<longleftrightarrow>
     list_all (\<lambda>n. 1 \<le> n \<and> n \<le> 86400) [to_tcp_syn t, to_tcp_established t, to_tcp_fin t, to_tcp_timewait t, to_tcp_close t, to_udp t] \<and>
     list_all (\<lambda>n. n \<le> to_tcp_established t) [to_tcp_syn t, to_tcp_fin t, to_tcp_timewait t, to_tcp_close t]"

definition limits_ok :: "lb_config \<Rightarrow> bool" where
  "limits_ok c \<longleftrightarrow> timeouts_ok (lb_timeouts c) \<and> 1024 \<le> lb_max_sessions c \<and> lb_max_sessions c \<le> 2 ^ 26 \<and>
     length (lb_vip_mac c) = 6 \<and> list_all service_conf_ok (lb_services c) \<and>
     1000 \<le> hcf_interval_ms (lb_health c) \<and> hcf_interval_ms (lb_health c) \<le> 3600000 \<and>
     10 \<le> hcf_timeout_ms (lb_health c) \<and> hcf_timeout_ms (lb_health c) \<le> 60000 \<and>
     1 \<le> hcf_fall (lb_health c) \<and> hcf_fall (lb_health c) \<le> 100 \<and> 1 \<le> hcf_rise (lb_health c) \<and> hcf_rise (lb_health c) \<le> 100"

lemma build_timeouts_ok:
  assumes "build_timeouts secs timeout_conf_default = Some t"
  shows "timeouts_ok t"
proof -
  let ?g = "\<lambda>key out. get_u32 secs ''global'' key out 1 86400"
  obtain legacy t0 syn est fin tw cl udp where l: "?g ''session_timeout'' 0 = Some legacy"
    and t0: "t0 = (if legacy \<noteq> 0 then timeout_conf_default\<lparr>to_tcp_established := legacy, to_udp := legacy\<rparr> else timeout_conf_default)"
    and g: "?g ''tcp_syn_timeout'' (to_tcp_syn t0) = Some syn" "?g ''tcp_established_timeout'' (to_tcp_established t0) = Some est"
      "?g ''tcp_fin_timeout'' (to_tcp_fin t0) = Some fin" "?g ''tcp_timewait_timeout'' (to_tcp_timewait t0) = Some tw"
      "?g ''tcp_close_timeout'' (to_tcp_close t0) = Some cl" "?g ''udp_timeout'' (to_udp t0) = Some udp"
    and t: "t = \<lparr>to_tcp_syn = min syn est, to_tcp_established = est, to_tcp_fin = min fin est,
      to_tcp_timewait = min tw est, to_tcp_close = min cl est, to_udp = udp\<rparr>"
    using assms unfolding build_timeouts_def by (auto simp only: bind_eq_Some_conv option.inject)
  have "list_all (\<lambda>x. 1 \<le> x \<and> x \<le> 86400)
      [to_tcp_syn t0, to_tcp_established t0, to_tcp_fin t0, to_tcp_timewait t0, to_tcp_close t0, to_udp t0]"
    using get_u32_range [OF l] by (auto simp: t0 timeout_conf_default_def)
  then have "list_all (\<lambda>x. 1 \<le> x \<and> x \<le> 86400) [syn, est, fin, tw, cl, udp]"
    using g [THEN get_u32_within(1)] g [THEN get_u32_within(2)] by simp
  then show ?thesis by (simp add: timeouts_ok_def t min_le_iff_disj)
qed

lemma build_global_ok:
  assumes "build_global secs lb_config_default = Some c"
  shows "timeouts_ok (lb_timeouts c)" "1024 \<le> lb_max_sessions c" "lb_max_sessions c \<le> 2 ^ 26"
    "lb_services c = []" "lb_local_ips c = []" "lb_vip_mac c = mac_zero" "lb_health c = health_conf_default"
proof -
  obtain t ms where t: "build_timeouts secs timeout_conf_default = Some t" "lb_timeouts c = t"
    and ms: "get_u32 secs ''global'' ''max_sessions'' 1048576 1024 67108864 = Some ms" "lb_max_sessions c = ms"
    and c: "lb_services c = []" "lb_local_ips c = []" "lb_vip_mac c = mac_zero" "lb_health c = health_conf_default"
    using assms unfolding build_global_def by (auto simp: bind_eq_Some_conv lb_config_default_def)
  show "timeouts_ok (lb_timeouts c)" using build_timeouts_ok [OF t(1)] t(2) by simp
  show "1024 \<le> lb_max_sessions c" "lb_max_sessions c \<le> 2 ^ 26" using get_u32_within [OF ms(1)] ms(2) by auto
  show "lb_services c = []" "lb_local_ips c = []" "lb_vip_mac c = mac_zero" "lb_health c = health_conf_default"
    by (fact c)+
qed

lemma build_network_ok:
  assumes "build_network secs c = Some c'" "length (lb_vip_mac c) = 6"
  shows "length (lb_vip_mac c') = 6" "lb_timeouts c' = lb_timeouts c" "lb_max_sessions c' = lb_max_sessions c"
    "lb_services c' = lb_services c" "lb_health c' = lb_health c"
  using assms unfolding build_network_def Let_def
  by (auto simp: bind_eq_Some_conv parse_mac_length split: if_splits)

lemma build_health_ok:
  assumes "build_health secs health_conf_default = Some h"
  shows "1000 \<le> hcf_interval_ms h" "hcf_interval_ms h \<le> 3600000" "10 \<le> hcf_timeout_ms h" "hcf_timeout_ms h \<le> 60000"
    "1 \<le> hcf_fall h" "hcf_fall h \<le> 100" "1 \<le> hcf_rise h" "hcf_rise h \<le> 100"
proof -
  obtain ival tmo fall rise where g: "get_u32 secs ''healthcheck'' ''interval'' 5000 1 3600 = Some ival"
    "get_u32 secs ''healthcheck'' ''timeout'' 3000 10 60000 = Some tmo"
    "get_u32 secs ''healthcheck'' ''failure_threshold'' 3 1 100 = Some fall"
    "get_u32 secs ''healthcheck'' ''success_threshold'' 2 1 100 = Some rise"
    and h: "hcf_interval_ms h = (if cfg_get secs ''healthcheck'' ''interval'' [] \<noteq> [] then ival * 1000 else ival)"
      "hcf_timeout_ms h = tmo" "hcf_fall h = fall" "hcf_rise h = rise"
    using assms unfolding build_health_def by (auto simp: bind_eq_Some_conv health_conf_default_def)
  have "if cfg_get secs ''healthcheck'' ''interval'' [] \<noteq> [] then 1 \<le> ival \<and> ival \<le> 3600 else ival = 5000"
    using g(1) by (auto simp: get_u32_def Let_def split: if_splits prod.splits)
  then show "1000 \<le> hcf_interval_ms h" "hcf_interval_ms h \<le> 3600000" unfolding h(1) by (auto split: if_splits)
  show "10 \<le> hcf_timeout_ms h" "hcf_timeout_ms h \<le> 60000" using get_u32_within [OF g(2)] by (auto simp: h(2))
  show "1 \<le> hcf_fall h" "hcf_fall h \<le> 100" using get_u32_within [OF g(3)] by (auto simp: h(3))
  show "1 \<le> hcf_rise h" "hcf_rise h \<le> 100" using get_u32_within [OF g(4)] by (auto simp: h(4))
qed

lemma build_config_ok:
  assumes "build_config secs lb_config_default = Some c"
  shows "limits_ok c"
proof -
  obtain c1 c2 h svcs where b: "build_global secs lb_config_default = Some c1" "build_network secs c1 = Some c2"
    "build_health secs (lb_health c2) = Some h"
    and s: "(if list_ex (\<lambda>sec. is_service_section (fst sec)) secs then parse_services secs secs else parse_legacy_services secs) = Some svcs"
    and c: "c = c2\<lparr>lb_health := h, lb_control_socket := cfg_get secs ''control'' ''socket'' (lb_control_socket c2),
      lb_services := lb_services c2 @ svcs\<rparr>"
    using assms unfolding build_config_def by (auto simp: bind_eq_Some_conv)
  note g = build_global_ok [OF b(1)]
  have n: "length (lb_vip_mac c1) = 6" by (simp add: g(6) mac_zero_def)
  note n = build_network_ok [OF b(2) n]
  have "list_all service_conf_ok svcs" using s parse_services_ok parse_legacy_ok by (simp split: if_splits)
  then show ?thesis
    using g(1-5) n build_health_ok [OF b(3) [unfolded n(5) g(7)]] by (simp add: limits_ok_def c)
qed

section \<open>Validation\<close>

lemma check_services_iff:
  "check_services svcs keys \<longleftrightarrow>
     list_all (\<lambda>svc. sc_rs svc \<noteq> [] \<and> length (sc_rs svc) \<le> kMaxRsPerService) svcs \<and>
     distinct (map conf_key svcs) \<and> conf_key ` set svcs \<inter> keys = {}"
  by (induction svcs keys rule: check_services.induct) auto

lemma fill_frame [simp]:
  "lb_services (fill_lips c) = lb_services c" "lb_services (fill_hc_src c) = lb_services c" "lb_mode (fill_lips c) = lb_mode c"
  "lb_mode (fill_hc_src c) = lb_mode c" "lb_local_ips (fill_hc_src c) = lb_local_ips c" "lb_health (fill_lips c) = lb_health c"
  "lb_health (fill_hc_src c) = lb_health c" "limits_ok (fill_lips c) = limits_ok c" "limits_ok (fill_hc_src c) = limits_ok c"
  by (simp_all add: fill_lips_def fill_hc_src_def limits_ok_def)

text \<open>What the rest of the program may rely on.\<close>

definition config_ok :: "lb_config \<Rightarrow> bool" where
  "config_ok c \<longleftrightarrow> limits_ok c \<and> cfg_fits c \<and> lb_services c \<noteq> [] \<and> distinct (map conf_key (lb_services c)) \<and>
     list_all (\<lambda>svc. sc_rs svc \<noteq> []) (lb_services c) \<and>
     (lb_mode c = NAT \<longrightarrow> lb_local_ips c \<noteq> []) \<and> (hcf_enabled (lb_health c) \<longrightarrow> lb_hc_src c \<noteq> 0) \<and>
     (lb_mode c = DR \<longrightarrow> list_all (\<lambda>svc. sc_vip svc \<noteq> lb_hc_src c) (lb_services c)) \<and>
     list_all (\<lambda>svc. sc_vip svc \<in> reserved_addrs c \<longrightarrow>
       unat (sc_port svc) < kNatPortMin \<or> kHcPortMax < unat (sc_port svc)) (lb_services c)"

lemma validate_ok:
  assumes "validate c = Some c'" "limits_ok c"
  shows "config_ok c'" "lb_services c' = lb_services c"
proof -
  let ?c = "fill_hc_src (fill_lips c)"
  have c': "c' = ?c" and v: "lb_services c \<noteq> []" "length (lb_services c) \<le> kMaxServices" "check_services (lb_services c) {}"
    "length (lb_local_ips ?c) \<le> kMaxLocalIps" "hcf_enabled (lb_health c) \<longrightarrow> lb_hc_src ?c \<noteq> 0"
    "lb_mode c = DR \<longrightarrow> (\<forall>svc\<in>set (lb_services c). sc_vip svc \<noteq> lb_hc_src ?c)"
    "\<forall>svc\<in>set (lb_services c). sc_vip svc \<in> reserved_addrs ?c \<longrightarrow> \<not> in_port_range (unat (sc_port svc)) kNatPortMin kHcPortMax"
    using assms(1) unfolding validate_def Let_def by (auto simp: list_ex_iff image_iff split: if_splits)
  have "lb_mode c = NAT \<longrightarrow> lb_local_ips (fill_lips c) \<noteq> []" by (simp add: fill_lips_def)
  then show "config_ok c'"
    using v assms(2) unfolding config_ok_def c' cfg_fits_def check_services_iff in_port_range_def
    by (auto simp: list_all_iff not_le)
  show "lb_services c' = lb_services c" by (simp add: c')
qed

lemma config_load_ok: "config_load file = Some c \<Longrightarrow> config_ok c"
  by (auto simp: config_load_def bind_eq_Some_conv dest: build_config_ok validate_ok(1))

definition demo_lines :: "string list" where
  "demo_lines = [''# one service'', ''[network]'', ''local_ips = 10.0.0.3'', ''[service.web]'', ''vip = 10.0.0.2'',
     ''port = 80  # http'', ''Server1 = 10.0.0.5:8080:3'']"

definition demo_file :: string where
  "demo_file = concat (map (\<lambda>l. l @ [CHR 0x0A]) demo_lines)"

definition demo_secs :: sections where
  "demo_secs = [(''network'', [(''local_ips'', ''10.0.0.3'')]),
     (''service.web'', [(''port'', ''80''), (''server1'', ''10.0.0.5:8080:3''), (''vip'', ''10.0.0.2'')])]"

definition demo_config :: lb_config where
  "demo_config = lb_config_default\<lparr>lb_local_ips := [0x0300000A], lb_hc_src := 0x0300000A,
     lb_services := [\<lparr>sc_name = ''web'', sc_vip = 0x0200000A, sc_port = 80, sc_proto = 6, sc_sched = WRR,
       sc_rs = [\<lparr>rc_ip = 0x0500000A, rc_port = 8080, rc_weight = 3, rc_mac = mac_zero\<rparr>]\<rparr>]\<rparr>"

lemmas text_defs = c_str_def code_def isspace_def trim_def to_lower_def tolower_def starts_with_def less_char_def Let_def
lemmas number_defs = strtoul_def skip_sign_def is_digit_of_def digit_value_def isdigit_def digits_value_def ULONG_MAX_def
lemmas read_defs = text_defs number_defs cfg_get_def get_u32_def split_str_def getlines.simps

lemma demo_getlines: "getlines CHR 0x0A demo_file = demo_lines"
  by (simp add: demo_file_def demo_lines_def getlines.simps)

lemma demo_parse_file: "parse_file (Some demo_file) = Some demo_secs"
  unfolding parse_file_def option.case demo_getlines demo_lines_def demo_secs_def
  by (simp add: parse_line_def sec_touch_def sec_put_def section_of_def text_defs char_of_def bit_Suc_0_iff)

lemma demo_ips:
  "parse_ipv4 ''10.0.0.3'' = Some 0x0300000A" "parse_ipv4 ''10.0.0.5'' = Some 0x0500000A" "parse_ipv4 ''10.0.0.2'' = Some 0x0200000A"
  by (simp_all add: parse_ipv4_def text_defs isdigit_def digit_value_def le32_def le16_def)

lemma demo_rs: "parse_rs ''10.0.0.5:8080:3'' = Some \<lparr>rc_ip = 0x0500000A, rc_port = 8080, rc_weight = 3, rc_mac = mac_zero\<rparr>"
proof -
  have "split_str ''10.0.0.5:8080:3'' CHR '':'' = [''10.0.0.5'', ''8080'', ''3'']" by (simp add: read_defs)
  moreover have "parse_port ''8080'' = Some 8080" "parse_weight ''3'' = Some 3"
    by (simp_all add: parse_port_def parse_weight_def read_defs)
  ultimately show ?thesis by (simp add: parse_rs_def demo_ips rs_conf_default_def)
qed

lemma demo_services: "parse_services demo_secs demo_secs = Some (lb_services demo_config)"
proof -
  have "get_u32 demo_secs ''service.web'' ''port'' 0 1 65535 = Some 80" by (simp add: demo_secs_def read_defs)
  moreover have "proto_of (to_lower (cfg_get demo_secs ''service.web'' ''proto'' ''tcp'')) = Some 6"
    "sched_of (to_lower (cfg_get demo_secs ''service.web'' ''scheduler'' ''wrr'')) = Some WRR"
    "cfg_get demo_secs ''service.web'' ''vip'' [] = ''10.0.0.2''"
    by (simp_all add: demo_secs_def proto_of_def sched_of_def cfg_get_def text_defs)
  moreover have "service_servers [(''port'', ''80''), (''server1'', ''10.0.0.5:8080:3''), (''vip'', ''10.0.0.2'')] = [(1, ''10.0.0.5:8080:3'')]"
    by (simp add: service_servers_def add_server_def server_key_def text_defs number_defs)
  ultimately have "parse_service demo_secs ''service.web'' [(''port'', ''80''), (''server1'', ''10.0.0.5:8080:3''), (''vip'', ''10.0.0.2'')] =
      Some (lb_services demo_config ! 0)"
    by (simp add: parse_service_def demo_ips demo_rs demo_config_def)
  then show ?thesis
    by (subst (2) demo_secs_def) (simp add: is_service_section_def starts_with_def demo_config_def)
qed

lemma demo_network: "build_network demo_secs c = Some (c\<lparr>lb_local_ips := lb_local_ips c @ [0x0300000A]\<rparr>)"
proof -
  have "split_str (cfg_get demo_secs ''network'' ''local_ips'' []) CHR '','' = [''10.0.0.3'']" by (simp add: demo_secs_def read_defs)
  then show ?thesis by (simp add: build_network_def get_ip_def demo_ips) (simp add: demo_secs_def cfg_get_def)
qed

lemma demo_defaults: "build_global demo_secs lb_config_default = Some lb_config_default" "build_health demo_secs h = Some h"
  by (simp_all add: build_global_def build_health_def build_timeouts_def get_u32_def get_bool_def cfg_get_def text_defs
      mode_of_def steering_of_def dataplane_of_def lb_config_default_def timeout_conf_default_def demo_secs_def)

lemma demo_load: "config_load (Some demo_file) = Some demo_config"
proof -
  have "list_ex (\<lambda>sec. is_service_section (fst sec)) demo_secs" "cfg_get demo_secs ''control'' ''socket'' d = d" for d
    by (simp_all add: demo_secs_def is_service_section_def starts_with_def cfg_get_def)
  then have "build_config demo_secs lb_config_default = Some (demo_config\<lparr>lb_hc_src := 0\<rparr>)"
    by (simp add: build_config_def demo_defaults demo_network demo_services) (simp add: demo_config_def lb_config_default_def)
  moreover have "validate (demo_config\<lparr>lb_hc_src := 0\<rparr>) = Some demo_config"
    by (simp add: demo_config_def validate_def fill_lips_def fill_hc_src_def reserved_addrs_def lb_config_default_def health_conf_default_def
        kMaxServices_def kMaxRsPerService_def kMaxLocalIps_def in_port_range_def kNatPortMin_def Let_def)
  ultimately show ?thesis by (simp add: config_load_def demo_parse_file)
qed

section \<open>The properties\<close>

text \<open>C39: Every configuration that loads is usable. It has between 1 and 64 services with different addresses, ports or
  protocols, each with 1 to 256 real servers; all ports are nonzero, protocols are TCP or UDP, weights are at most
  65535, hardware addresses have six bytes; timeouts are between 1 and 86400 seconds and none of the handshake
  ones exceeds that of an established connection; FULLNAT has a local address, health checks have a source address,
  and no service lies in the reserved port range of an address that is also used for translation or health checks.\<close>

theorem config_load_valid:
  assumes "config_load file = Some c"
  shows "config_ok c"
  using assms by (rule config_load_ok)

text \<open>C40: Addresses survive printing and parsing.\<close>

theorem address_text_roundtrip:
  assumes "length m = 6"
  shows "parse_ipv4 (ip_to_string ip) = Some ip \<and> parse_mac (mac_to_string m) = Some m"
  using assms by (simp add: parse_ip_to_string parse_mac_to_string)

theorem config_load_valid_witness: "config_load (Some demo_file) = Some demo_config \<and> config_ok demo_config"
  using config_load_valid [OF demo_load] demo_load by simp

theorem address_text_roundtrip_witness: "parse_mac (mac_to_string [0x02, 0, 0, 0xAB, 0, 0xFF]) = Some [0x02, 0, 0, 0xAB, 0, 0xFF]"
  using address_text_roundtrip [of "[0x02, 0, 0, 0xAB, 0, 0xFF]"] by simp

end
