(* ===== verification/Stats.thy ===== *)
theory Stats
  imports Snapshot "HOL-Library.Monad_Syntax"
begin

text \<open>
  The counters, after \<^verbatim>\<open>include/common/stats.h\<close>, \<^verbatim>\<open>src/common/stats.cpp\<close> and the sums over the workers
  of \<^verbatim>\<open>src/dataplane/context.cpp\<close>. A counter is a 64-bit word that wraps around. Each is written by one
  thread only, so that \<^verbatim>\<open>stat_add\<close> is an addition; an array over an enumeration is a function.
\<close>

datatype stat =
  ST_RX | ST_TX | ST_TX_FULL | ST_ARP | ST_ICMP | ST_TCP | ST_UDP | ST_FWD_IN | ST_FWD_OUT | ST_ICMP_ERR_FWD
| ST_DROP_MALFORMED | ST_DROP_FRAGMENT | ST_DROP_CKSUM | ST_DROP_NOT_LOCAL | ST_DROP_NO_SERVICE | ST_DROP_NO_SESSION
| ST_DROP_NO_RS | ST_DROP_RS_DOWN | ST_DROP_TABLE_FULL | ST_DROP_NO_PORT | ST_DROP_NO_NEIGH | ST_DROP_TTL
| ST_DROP_REDIRECT | ST_DROP_OTHER | ST_SESS_NEW | ST_SESS_EXPIRED | ST_SESS_CLOSED | ST_REDIRECT_OUT | ST_REDIRECT_IN
| ST_RING_IN | ST_DROP_RX_RING | ST_RSS_MISMATCH | ST_RSS_NO_HASH | ST_TOA_ADDED | ST_TOA_NO_ROOM | ST_TS_STRIPPED
| ST_HC_RESP | ST_COUNT

datatype byte_stat = BS_RX | BS_TX | BS_FWD_IN | BS_FWD_OUT

definition all_stats :: "stat list" where
  "all_stats =
     [ST_RX, ST_TX, ST_TX_FULL, ST_ARP, ST_ICMP, ST_TCP, ST_UDP, ST_FWD_IN, ST_FWD_OUT, ST_ICMP_ERR_FWD,
      ST_DROP_MALFORMED, ST_DROP_FRAGMENT, ST_DROP_CKSUM, ST_DROP_NOT_LOCAL, ST_DROP_NO_SERVICE, ST_DROP_NO_SESSION,
      ST_DROP_NO_RS, ST_DROP_RS_DOWN, ST_DROP_TABLE_FULL, ST_DROP_NO_PORT, ST_DROP_NO_NEIGH, ST_DROP_TTL,
      ST_DROP_REDIRECT, ST_DROP_OTHER, ST_SESS_NEW, ST_SESS_EXPIRED, ST_SESS_CLOSED, ST_REDIRECT_OUT, ST_REDIRECT_IN,
      ST_RING_IN, ST_DROP_RX_RING, ST_RSS_MISMATCH, ST_RSS_NO_HASH, ST_TOA_ADDED, ST_TOA_NO_ROOM, ST_TS_STRIPPED,
      ST_HC_RESP]"

definition stat_name :: "stat \<Rightarrow> string" where
  "stat_name s =
     (case s of
        ST_RX \<Rightarrow> ''rx'' | ST_TX \<Rightarrow> ''tx'' | ST_TX_FULL \<Rightarrow> ''tx_full'' | ST_ARP \<Rightarrow> ''arp'' | ST_ICMP \<Rightarrow> ''icmp''
      | ST_TCP \<Rightarrow> ''tcp'' | ST_UDP \<Rightarrow> ''udp'' | ST_FWD_IN \<Rightarrow> ''fwd_in'' | ST_FWD_OUT \<Rightarrow> ''fwd_out''
      | ST_ICMP_ERR_FWD \<Rightarrow> ''icmp_err_fwd'' | ST_DROP_MALFORMED \<Rightarrow> ''drop_malformed''
      | ST_DROP_FRAGMENT \<Rightarrow> ''drop_fragment'' | ST_DROP_CKSUM \<Rightarrow> ''drop_cksum''
      | ST_DROP_NOT_LOCAL \<Rightarrow> ''drop_not_local'' | ST_DROP_NO_SERVICE \<Rightarrow> ''drop_no_service''
      | ST_DROP_NO_SESSION \<Rightarrow> ''drop_no_session'' | ST_DROP_NO_RS \<Rightarrow> ''drop_no_rs'' | ST_DROP_RS_DOWN \<Rightarrow> ''drop_rs_down''
      | ST_DROP_TABLE_FULL \<Rightarrow> ''drop_table_full'' | ST_DROP_NO_PORT \<Rightarrow> ''drop_no_port''
      | ST_DROP_NO_NEIGH \<Rightarrow> ''drop_no_neigh'' | ST_DROP_TTL \<Rightarrow> ''drop_ttl'' | ST_DROP_REDIRECT \<Rightarrow> ''drop_redirect''
      | ST_DROP_OTHER \<Rightarrow> ''drop_other'' | ST_SESS_NEW \<Rightarrow> ''sess_new'' | ST_SESS_EXPIRED \<Rightarrow> ''sess_expired''
      | ST_SESS_CLOSED \<Rightarrow> ''sess_closed'' | ST_REDIRECT_OUT \<Rightarrow> ''redirect_out'' | ST_REDIRECT_IN \<Rightarrow> ''redirect_in''
      | ST_RING_IN \<Rightarrow> ''ring_in'' | ST_DROP_RX_RING \<Rightarrow> ''drop_rx_ring'' | ST_RSS_MISMATCH \<Rightarrow> ''rss_mismatch''
      | ST_RSS_NO_HASH \<Rightarrow> ''rss_no_hash'' | ST_TOA_ADDED \<Rightarrow> ''toa_added'' | ST_TOA_NO_ROOM \<Rightarrow> ''toa_no_room''
      | ST_TS_STRIPPED \<Rightarrow> ''ts_stripped'' | ST_HC_RESP \<Rightarrow> ''hc_resp'' | ST_COUNT \<Rightarrow> ''?'')"

definition byte_stat_name :: "byte_stat \<Rightarrow> string" where
  "byte_stat_name s =
     (case s of BS_RX \<Rightarrow> ''rx'' | BS_TX \<Rightarrow> ''tx'' | BS_FWD_IN \<Rightarrow> ''fwd_in'' | BS_FWD_OUT \<Rightarrow> ''fwd_out'')"

record rs_counters =
  rk_conns :: u64
  rk_pkts_in :: u64
  rk_bytes_in :: u64
  rk_pkts_out :: u64
  rk_bytes_out :: u64

definition rs_counters_zero :: rs_counters where
  "rs_counters_zero = \<lparr>rk_conns = 0, rk_pkts_in = 0, rk_bytes_in = 0, rk_pkts_out = 0, rk_bytes_out = 0\<rparr>"

definition kMaxRsCounters :: nat where "kMaxRsCounters = 16384"

record worker_stats =
  ws_c :: "stat \<Rightarrow> u64"
  ws_bytes :: "byte_stat \<Rightarrow> u64"
  ws_busy_tsc :: u64

definition worker_stats_zero :: worker_stats where
  "worker_stats_zero = \<lparr>ws_c = \<lambda>_. 0, ws_bytes = \<lambda>_. 0, ws_busy_tsc = 0\<rparr>"

definition ws_add :: "stat \<Rightarrow> u64 \<Rightarrow> worker_stats \<Rightarrow> worker_stats" where
  "ws_add i n s = s\<lparr>ws_c := (ws_c s)(i := ws_c s i + n)\<rparr>"

definition ws_add_bytes :: "byte_stat \<Rightarrow> u64 \<Rightarrow> worker_stats \<Rightarrow> worker_stats" where
  "ws_add_bytes i n s = s\<lparr>ws_bytes := (ws_bytes s)(i := ws_bytes s i + n)\<rparr>"

definition ws_add_busy :: "u64 \<Rightarrow> worker_stats \<Rightarrow> worker_stats" where
  "ws_add_busy n s = s\<lparr>ws_busy_tsc := ws_busy_tsc s + n\<rparr>"

section \<open>Busy time\<close>

definition kWindow :: u32 where "kWindow = 256"

record busy_meter =
  bm_last :: u64
  bm_idle_cost :: u64
  bm_n :: u32
  bm_idle :: u32

definition busy_meter_zero :: busy_meter where
  "busy_meter_zero = \<lparr>bm_last = 0, bm_idle_cost = 0, bm_n = 0, bm_idle = 0\<rparr>"

text \<open>One call of \<^verbatim>\<open>loop\<close>; \<open>now\<close> is what \<^verbatim>\<open>rte_rdtsc\<close> returns if it is read.\<close>

definition bm_loop :: "bool \<Rightarrow> u64 \<Rightarrow> busy_meter \<times> worker_stats \<Rightarrow> busy_meter \<times> worker_stats" where
  "bm_loop had_work now bs =
     (let (b, st) = bs;
          b = b\<lparr>bm_idle := bm_idle b + (if had_work then 0 else 1), bm_n := bm_n b + 1\<rparr>
      in if bm_n b < kWindow then (b, st)
         else
           let el = now - bm_last b;
               (b, st) =
                 (if bm_last b = 0 then (b, st)
                  else if bm_idle b = bm_n b then
                    let c = el div ucast (bm_n b)
                    in (b\<lparr>bm_idle_cost := if bm_idle_cost b \<noteq> 0 then (bm_idle_cost b * 7 + c) div 8 else c\<rparr>, st)
                  else
                    let idle_t = (if bm_idle_cost b \<noteq> 0 then ucast (bm_idle b) * bm_idle_cost b
                                  else el * ucast (bm_idle b) div ucast (bm_n b))
                    in (b, ws_add_busy (if idle_t < el then el - idle_t else 0) st))
           in (b\<lparr>bm_last := now, bm_n := 0, bm_idle := 0\<rparr>, st))"

section \<open>Sums\<close>

record stats_sum =
  tot_c :: "stat \<Rightarrow> u64"
  tot_bytes :: "byte_stat \<Rightarrow> u64"

definition add_stats :: "worker_stats \<Rightarrow> stats_sum \<Rightarrow> stats_sum" where
  "add_stats w t = \<lparr>tot_c = \<lambda>s. tot_c t s + ws_c w s, tot_bytes = \<lambda>s. tot_bytes t s + ws_bytes w s\<rparr>"

text \<open>The workers, the receiver and the master may each be missing.\<close>

definition stats_total :: "worker_stats option list \<Rightarrow> worker_stats option \<Rightarrow> worker_stats option \<Rightarrow> stats_sum" where
  "stats_total ws receiver master =
     fold (\<lambda>w t. case w of None \<Rightarrow> t | Some w \<Rightarrow> add_stats w t) (ws @ [receiver, master])
       \<lparr>tot_c = \<lambda>_. 0, tot_bytes = \<lambda>_. 0\<rparr>"

definition drop_stats :: "stat list" where
  "drop_stats =
     [ST_DROP_MALFORMED, ST_DROP_FRAGMENT, ST_DROP_CKSUM, ST_DROP_NOT_LOCAL, ST_DROP_NO_SERVICE, ST_DROP_NO_SESSION,
      ST_DROP_NO_RS, ST_DROP_RS_DOWN, ST_DROP_TABLE_FULL, ST_DROP_NO_PORT, ST_DROP_NO_NEIGH, ST_DROP_TTL,
      ST_DROP_REDIRECT, ST_DROP_OTHER]"

definition drops :: "stats_sum \<Rightarrow> u64" where
  "drops t = fold (\<lambda>s n. n + tot_c t s) drop_stats (tot_c t ST_TX_FULL + tot_c t ST_DROP_RX_RING)"

definition sessions_active :: "stats_sum \<Rightarrow> u64" where
  "sessions_active t =
     (let gone = tot_c t ST_SESS_EXPIRED + tot_c t ST_SESS_CLOSED
      in if tot_c t ST_SESS_NEW > gone then tot_c t ST_SESS_NEW - gone else 0)"

definition add_rs_counters :: "rs_counters \<Rightarrow> rs_counters \<Rightarrow> rs_counters" where
  "add_rs_counters c t =
     \<lparr>rk_conns = rk_conns t + rk_conns c, rk_pkts_in = rk_pkts_in t + rk_pkts_in c, rk_bytes_in = rk_bytes_in t + rk_bytes_in c,
      rk_pkts_out = rk_pkts_out t + rk_pkts_out c, rk_bytes_out = rk_bytes_out t + rk_bytes_out c\<rparr>"

text \<open>The counters of the workers, where a worker or its array may be missing.\<close>

definition rs_total :: "rs_counters list option list \<Rightarrow> nat \<Rightarrow> rs_counters" where
  "rs_total ws i =
     (if i \<ge> kMaxRsCounters then rs_counters_zero
      else fold (\<lambda>w t. case w of None \<Rightarrow> t | Some cs \<Rightarrow> add_rs_counters (cs ! i) t) ws rs_counters_zero)"

lemma ws_add_sel [simp]:
  "ws_c (ws_add i n s) j = (if j = i then ws_c s i + n else ws_c s j)" "ws_bytes (ws_add i n s) = ws_bytes s"
  "ws_c (ws_add_bytes k n s) = ws_c s" "ws_c (ws_add_busy n s) = ws_c s"
  by (simp_all add: ws_add_def ws_add_bytes_def ws_add_busy_def)

end
