(* ===== verification/Steering.thy ===== *)
theory Steering
  imports Snapshot
begin

text \<open>
  Which worker a packet belongs to, after \<^verbatim>\<open>include/dataplane/steering.h\<close> and
  \<^verbatim>\<open>src/dataplane/steering.cpp\<close>. The Toeplitz hash of DPDK (\<^verbatim>\<open>rte_softrss_be\<close>) and the conversion of its
  key are parameters.
\<close>

record rss_ops =
  softrss_be :: "u32 list \<Rightarrow> bytes \<Rightarrow> u32"
  convert_rss_key :: "bytes \<Rightarrow> bytes"

definition kMaxReta :: nat where "kMaxReta = 512"
definition kRssKeyLen :: nat where "kRssKeyLen = 40"

definition kDefaultRssKey :: bytes where
  "kDefaultRssKey =
     [0x6D, 0x5A, 0x56, 0xDA, 0x25, 0x5B, 0x0E, 0xC2, 0x41, 0x67,
      0x25, 0x3D, 0x43, 0xA3, 0x8F, 0xB0, 0xD0, 0xCA, 0x2B, 0xCB,
      0xAE, 0x7B, 0x30, 0xB4, 0x77, 0xCB, 0x2D, 0xA3, 0x80, 0x30,
      0xF2, 0x0C, 0x6A, 0x42, 0xB7, 0x3B, 0xBE, 0xAC, 0x01, 0xFA]"

record steering =
  str_hw :: bool
  str_tcp_l4 :: bool
  str_udp_l4 :: bool
  str_n :: nat
  str_reta_size :: nat
  str_reta_owner :: "nat list"
  str_key_be :: bytes

definition steering_zero :: steering where
  "steering_zero = \<lparr>str_hw = False, str_tcp_l4 = False, str_udp_l4 = False, str_n = 1, str_reta_size = 0,
     str_reta_owner = replicate kMaxReta 0, str_key_be = replicate kRssKeyLen 0\<rparr>"

definition init_sw :: "nat \<Rightarrow> steering \<Rightarrow> steering" where
  "init_sw num_workers st =
     st\<lparr>str_hw := False, str_tcp_l4 := False, str_udp_l4 := False, str_n := if num_workers \<noteq> 0 then num_workers else 1\<rparr>"

definition init_hw :: "rss_ops \<Rightarrow> nat \<Rightarrow> bytes \<Rightarrow> nat list \<Rightarrow> nat \<Rightarrow> bool \<Rightarrow> bool \<Rightarrow> steering \<Rightarrow> steering" where
  "init_hw rss num_workers rss_key reta reta_size tcp_l4 udp_l4 st =
     st\<lparr>str_hw := True, str_n := num_workers, str_tcp_l4 := tcp_l4, str_udp_l4 := udp_l4, str_reta_size := reta_size,
        str_reta_owner := fold (\<lambda>i o'. o'[i := (reta ! i) mod num_workers]) [0..<min reta_size kMaxReta] (str_reta_owner st),
        str_key_be := convert_rss_key rss rss_key\<rparr>"

definition l4_hashed :: "steering \<Rightarrow> u8 \<Rightarrow> bool" where
  "l4_hashed st proto = (if proto = 6 then str_tcp_l4 st else str_udp_l4 st)"

definition ret_by_rss :: "steering \<Rightarrow> u8 \<Rightarrow> bool" where
  "ret_by_rss st proto \<longleftrightarrow> str_hw st \<and> (if proto = 6 then str_tcp_l4 st else str_udp_l4 st)"

definition port_step :: "steering \<Rightarrow> u8 \<Rightarrow> nat" where
  "port_step st proto = (if ret_by_rss st proto then 1 else str_n st)"

definition rss_hash :: "rss_ops \<Rightarrow> steering \<Rightarrow> five_tuple \<Rightarrow> bool \<Rightarrow> u32" where
  "rss_hash rss st t l4 =
     (let ports = push_bit 16 (ucast (ntohs (src_port t))) OR ucast (ntohs (dst_port t))
      in softrss_be rss (if l4 then [ntohl (src_ip t), ntohl (dst_ip t), ports] else [ntohl (src_ip t), ntohl (dst_ip t)])
           (str_key_be st))"

definition rss_owner :: "steering \<Rightarrow> u32 \<Rightarrow> nat" where
  "rss_owner st h =
     (if str_reta_size st \<noteq> 0 then str_reta_owner st ! (unat h mod str_reta_size st) else unat h mod str_n st)"

definition fwd_owner :: "hash_env \<Rightarrow> rss_ops \<Rightarrow> steering \<Rightarrow> five_tuple \<Rightarrow> nat" where
  "fwd_owner env rss st t =
     (if str_n st = 1 then 0
      else if \<not> str_hw st then
        (let (w0, w1, w2) = tuple_words t in unat (jhash_3words env w0 w1 w2 0x1234567) mod str_n st)
      else rss_owner st (rss_hash rss st t (l4_hashed st (protocol t))))"

definition ret_owner :: "rss_ops \<Rightarrow> steering \<Rightarrow> five_tuple \<Rightarrow> nat" where
  "ret_owner rss st t =
     (if str_n st = 1 then 0
      else if \<not> ret_by_rss st (protocol t) then unat (ntohs (dst_port t)) mod str_n st
      else rss_owner st (rss_hash rss st t True))"

section \<open>Owners are workers\<close>

text \<open>The redirection table fits its array and points at workers.\<close>

definition steering_ok :: "steering \<Rightarrow> bool" where
  "steering_ok st \<longleftrightarrow> 0 < str_n st \<and> length (str_reta_owner st) = kMaxReta \<and>
     (str_hw st \<longrightarrow> str_reta_size st \<le> kMaxReta \<and> (\<forall>i < str_reta_size st. str_reta_owner st ! i < str_n st))"

lemma steering_zero_ok: "steering_ok steering_zero"
  by (simp add: steering_ok_def steering_zero_def)

lemma init_sw_ok: "steering_ok st \<Longrightarrow> steering_ok (init_sw n st)"
  by (simp add: steering_ok_def init_sw_def)

lemma fold_reta:
  assumes "k \<le> length xs"
  shows "length (fold (\<lambda>i o'. o'[i := f i]) [0..<k] xs) = length xs \<and>
    (\<forall>i < k. fold (\<lambda>i o'. o'[i := f i]) [0..<k] xs ! i = f i)"
  using assms by (induction k) (auto simp: nth_list_update less_Suc_eq)

lemma init_hw_ok:
  assumes "steering_ok st" "0 < n" "sz \<le> kMaxReta"
  shows "steering_ok (init_hw rss n key reta sz tcp udp st)"
  using fold_reta [of sz "str_reta_owner st" "\<lambda>i. reta ! i mod n"] assms
  by (simp add: steering_ok_def init_hw_def)

lemma rss_owner_less: "steering_ok st \<Longrightarrow> str_hw st \<Longrightarrow> rss_owner st h < str_n st"
  by (simp add: rss_owner_def steering_ok_def)

lemma fwd_owner_less: "steering_ok st \<Longrightarrow> fwd_owner env rss st t < str_n st"
  by (auto simp: fwd_owner_def rss_owner_less split: prod.splits) (simp add: steering_ok_def)+

lemma ret_owner_less: "steering_ok st \<Longrightarrow> ret_owner rss st t < str_n st"
  by (auto simp: ret_owner_def rss_owner_less ret_by_rss_def) (simp_all add: steering_ok_def)

end
