(* ===== verification/Dpdk_Hash.thy ===== *)
theory Dpdk_Hash
  imports Prelude
begin

text \<open>
  The interface of DPDK's \<^verbatim>\<open>rte_hash\<close> as the session table and the neighbour table use it. The
  hash library is not part of the repository: its operations are a record that the definitions
  take as an argument, and what the code relies on is the locale \<open>rte_hash\<close>, which states the
  documented behaviour of the four calls.

  \<^item> \<^verbatim>\<open>rte_hash_create\<close> gives an empty table or fails;
  \<^item> \<^verbatim>\<open>rte_hash_lookup_data\<close> returns the data stored with a key, or a negative value;
  \<^item> \<^verbatim>\<open>rte_hash_add_key_data\<close> stores the data, replacing the data of a key that is present, or
    fails and leaves the table as it was;
  \<^item> \<^verbatim>\<open>rte_hash_del_key\<close> removes the key if it is there.

  With \<^verbatim>\<open>RTE_HASH_EXTRA_FLAGS_EXT_TABLE\<close> (the session table) insertion does not fail while the
  table holds fewer keys than it was created for: locale \<open>rte_hash_ext\<close>.
\<close>

record ('h, 'k, 'v) hash_ops =
  hash_create :: "nat \<Rightarrow> 'h option"
  hash_lookup :: "'h \<Rightarrow> 'k \<Rightarrow> 'v option"
  hash_add :: "'h \<Rightarrow> 'k \<Rightarrow> 'v \<Rightarrow> 'h option"
  hash_del :: "'h \<Rightarrow> 'k \<Rightarrow> 'h"

locale rte_hash =
  fixes ops :: "('h, 'k, 'v) hash_ops"
  assumes create_empty: "hash_create ops n = Some h \<Longrightarrow> hash_lookup ops h = Map.empty"
    and add_lookup: "hash_add ops h k v = Some h' \<Longrightarrow> hash_lookup ops h' = (hash_lookup ops h)(k \<mapsto> v)"
    and del_lookup: "hash_lookup ops (hash_del ops h k) = (hash_lookup ops h)(k := None)"
begin

lemma lookup_add_iff:
  "hash_add ops h k v = Some h' \<Longrightarrow> hash_lookup ops h' q = (if q = k then Some v else hash_lookup ops h q)"
  by (simp add: add_lookup)

lemma lookup_del_iff:
  "hash_lookup ops (hash_del ops h k) q = (if q = k then None else hash_lookup ops h q)"
  by (simp add: del_lookup)

end

locale rte_hash_ext = rte_hash ops
  for ops :: "('h, 'k, 'v) hash_ops" +
  fixes entries :: "'h \<Rightarrow> nat"
  assumes create_entries: "hash_create ops n = Some h \<Longrightarrow> entries h = n"
    and add_entries: "hash_add ops h k v = Some h' \<Longrightarrow> entries h' = entries h"
    and del_entries: "entries (hash_del ops h k) = entries h"
    and add_room: "finite (dom (hash_lookup ops h)) \<Longrightarrow> card (dom (hash_lookup ops h)) < entries h \<Longrightarrow>
       \<exists>h'. hash_add ops h k v = Some h'"

section \<open>A bounded table that behaves as documented\<close>

text \<open>A table that stores at most the number of keys it was created for, as an association list.
  It shows that the laws can hold together and serves as the concrete hash of the witnesses.\<close>

type_synonym ('k, 'v) bounded_hash = "nat \<times> ('k \<times> 'v) list"

definition bh_lookup :: "('k, 'v) bounded_hash \<Rightarrow> 'k \<Rightarrow> 'v option" where
  "bh_lookup h k = map_of (snd h) k"

definition bh_add :: "('k, 'v) bounded_hash \<Rightarrow> 'k \<Rightarrow> 'v \<Rightarrow> ('k, 'v) bounded_hash option" where
  "bh_add h k v =
     (if map_of (snd h) k \<noteq> None \<or> card (fst ` set (snd h)) < fst h
      then Some (fst h, (k, v) # filter (\<lambda>p. fst p \<noteq> k) (snd h)) else None)"

definition bh_del :: "('k, 'v) bounded_hash \<Rightarrow> 'k \<Rightarrow> ('k, 'v) bounded_hash" where
  "bh_del h k = (fst h, filter (\<lambda>p. fst p \<noteq> k) (snd h))"

definition bounded_ops :: "(('k, 'v) bounded_hash, 'k, 'v) hash_ops" where
  "bounded_ops =
     \<lparr>hash_create = (\<lambda>n. Some (n, [])), hash_lookup = bh_lookup, hash_add = bh_add, hash_del = bh_del\<rparr>"

lemma bounded_ops_sel [simp]:
  "hash_create bounded_ops n = Some (n, [])" "hash_lookup bounded_ops = bh_lookup"
  "hash_add bounded_ops = bh_add" "hash_del bounded_ops = bh_del"
  by (simp_all add: bounded_ops_def)

lemma map_of_filter_key: "map_of (filter (\<lambda>p. fst p \<noteq> k) xs) = (map_of xs)(k := None)"
  by (induction xs) (auto simp: fun_eq_iff)

interpretation bounded: rte_hash_ext "bounded_ops :: (('k, 'v) bounded_hash, 'k, 'v) hash_ops" fst
proof (standard, goal_cases)
  case (1 n h)
  then show ?case by (auto simp: bh_lookup_def fun_eq_iff)
next
  case (2 h k v h')
  then show ?case
    by (auto simp: bh_lookup_def bh_add_def map_of_filter_key fun_eq_iff split: if_splits)
next
  case (3 h k)
  then show ?case by (auto simp: bh_lookup_def bh_del_def map_of_filter_key fun_eq_iff)
next
  case (4 n h)
  then show ?case by auto
next
  case (5 h k v h')
  then show ?case by (auto simp: bh_add_def split: if_splits)
next
  case (6 h k)
  then show ?case by (simp add: bh_del_def)
next
  case (7 h k v)
  have "dom (bh_lookup h) = fst ` set (snd h)"
    by (simp add: bh_lookup_def [abs_def] dom_map_of_conv_image_fst)
  with 7 show ?case by (simp add: bh_add_def)
qed

end
