(* ===== verification/Neigh.thy ===== *)
theory Neigh
  imports Net_Types Dpdk_Hash "HOL-Library.AList"
begin

text \<open>
  The neighbour table, after \<^verbatim>\<open>include/net/neigh.h\<close> and \<^verbatim>\<open>src/net/neigh.cpp\<close>: an \<^verbatim>\<open>rte_hash\<close> from
  addresses to packed MAC addresses that the workers read, and the private records of the master. The
  records of the \<^verbatim>\<open>unordered_map\<close> are an association list in the order in which iteration visits them.
  Times are the 64-bit seconds of the code, the counters its 32-bit counters, and both wrap around.
\<close>

section \<open>Packed addresses\<close>

definition kValidBit :: u64 where "kValidBit = push_bit 63 1"

text \<open>\<^verbatim>\<open>memcpy\<close> of the six bytes into the low end of the 64-bit value.\<close>

definition pack :: "mac_addr \<Rightarrow> u64" where
  "pack mac =
     (ucast (mac ! 0) OR push_bit 8 (ucast (mac ! 1)) OR push_bit 16 (ucast (mac ! 2)) OR push_bit 24 (ucast (mac ! 3)) OR
      push_bit 32 (ucast (mac ! 4)) OR push_bit 40 (ucast (mac ! 5))) OR kValidBit"

definition unpack :: "u64 \<Rightarrow> mac_addr" where
  "unpack v = map (\<lambda>i. ucast (drop_bit (8 * i) v)) [0, 1, 2, 3, 4, 5]"

section \<open>The table\<close>

definition kCapacity :: nat where "kCapacity = 65536"
definition kReachableSec :: u64 where "kReachableSec = 300"
definition kRefreshSec :: u64 where "kRefreshSec = 240"
definition kRequestGapSec :: u64 where "kRequestGapSec = 1"

record neigh_meta =
  nm_confirmed :: u64
  nm_requested :: u64
  nm_is_static :: bool
  nm_valid :: bool

definition neigh_meta_zero :: neigh_meta where
  "neigh_meta_zero = \<lparr>nm_confirmed = 0, nm_requested = 0, nm_is_static = False, nm_valid = False\<rparr>"

record 'h neigh =
  nb_hash :: 'h
  nb_meta :: "(ipv4_addr \<times> neigh_meta) list"
  nb_gen :: u32
  nb_count :: u32

type_synonym 'h neigh_ops = "('h, ipv4_addr, u64) hash_ops"

definition neigh_init :: "'h neigh_ops \<Rightarrow> bool \<Rightarrow> 'h neigh option" where
  "neigh_init ops rcu_ok =
     (case hash_create ops kCapacity of
        None \<Rightarrow> None
      | Some h \<Rightarrow> if \<not> rcu_ok then None else Some \<lparr>nb_hash = h, nb_meta = [], nb_gen = 1, nb_count = 0\<rparr>)"

definition neigh_lookup :: "'h neigh_ops \<Rightarrow> 'h neigh \<Rightarrow> ipv4_addr \<Rightarrow> mac_addr option" where
  "neigh_lookup ops s ip =
     (case hash_lookup ops (nb_hash s) ip of
        None \<Rightarrow> None
      | Some v \<Rightarrow> if v AND kValidBit = 0 then None else Some (unpack v))"

text \<open>\<^verbatim>\<open>meta_[ip]\<close>, which adds a record of default values when there is none.\<close>

definition meta_at :: "(ipv4_addr \<times> neigh_meta) list \<Rightarrow> ipv4_addr \<Rightarrow> neigh_meta" where
  "meta_at m ip = (case map_of m ip of None \<Rightarrow> neigh_meta_zero | Some x \<Rightarrow> x)"

definition set_meta :: "ipv4_addr \<Rightarrow> (neigh_meta \<Rightarrow> neigh_meta) \<Rightarrow> 'h neigh \<Rightarrow> 'h neigh" where
  "set_meta ip f s = s\<lparr>nb_meta := AList.update ip (f (meta_at (nb_meta s) ip)) (nb_meta s)\<rparr>"

definition neigh_store :: "'h neigh_ops \<Rightarrow> ipv4_addr \<Rightarrow> mac_addr \<Rightarrow> 'h neigh \<Rightarrow> 'h neigh" where
  "neigh_store ops ip mac s =
     (case hash_add ops (nb_hash s) ip (pack mac) of
        None \<Rightarrow> s
      | Some h \<Rightarrow>
          let s = s\<lparr>nb_hash := h\<rparr>;
              s = (if \<not> nm_valid (meta_at (nb_meta s) ip) then s\<lparr>nb_count := nb_count s + 1\<rparr> else s);
              s = set_meta ip (\<lambda>m. m\<lparr>nm_valid := True\<rparr>) s
          in s\<lparr>nb_gen := nb_gen s + 1\<rparr>)"

definition neigh_erase :: "'h neigh_ops \<Rightarrow> ipv4_addr \<Rightarrow> 'h neigh \<Rightarrow> 'h neigh" where
  "neigh_erase ops ip s =
     (let s = s\<lparr>nb_hash := hash_del ops (nb_hash s) ip\<rparr>;
          s = (case map_of (nb_meta s) ip of
                 None \<Rightarrow> s
               | Some m \<Rightarrow> s\<lparr>nb_count := if nm_valid m then nb_count s - 1 else nb_count s,
                             nb_meta := AList.delete ip (nb_meta s)\<rparr>)
      in s\<lparr>nb_gen := nb_gen s + 1\<rparr>)"

definition add_static :: "'h neigh_ops \<Rightarrow> ipv4_addr \<Rightarrow> mac_addr \<Rightarrow> 'h neigh \<Rightarrow> 'h neigh" where
  "add_static ops ip mac s = set_meta ip (\<lambda>m. m\<lparr>nm_is_static := True\<rparr>) (neigh_store ops ip mac s)"

definition neigh_learn :: "'h neigh_ops \<Rightarrow> ipv4_addr \<Rightarrow> mac_addr \<Rightarrow> bool \<Rightarrow> u64 \<Rightarrow> 'h neigh \<Rightarrow> 'h neigh" where
  "neigh_learn ops ip mac solicited now s =
     (let it = map_of (nb_meta s) ip in
      if it \<noteq> None \<and> nm_is_static (the it) then s
      else
        let known = (it \<noteq> None \<and> nm_valid (the it)) in
        if \<not> solicited \<and> \<not> known \<and> unat (nb_count s) \<ge> kCapacity div 2 then s
        else
          let s = (if \<not> known \<or> neigh_lookup ops s ip \<noteq> Some mac then neigh_store ops ip mac s else s)
          in set_meta ip (\<lambda>m. m\<lparr>nm_confirmed := now\<rparr>) s)"

definition neigh_hint :: "'h neigh_ops \<Rightarrow> ipv4_addr \<Rightarrow> mac_addr \<Rightarrow> u64 \<Rightarrow> 'h neigh \<Rightarrow> 'h neigh" where
  "neigh_hint ops ip mac now s =
     (let it = map_of (nb_meta s) ip in
      if it \<noteq> None \<and> nm_valid (the it) then s
      else if unat (nb_count s) \<ge> kCapacity div 2 then s
      else set_meta ip (\<lambda>m. m\<lparr>nm_confirmed := now\<rparr>) (neigh_store ops ip mac s))"

definition want_request :: "ipv4_addr \<Rightarrow> u64 \<Rightarrow> 'h neigh \<Rightarrow> 'h neigh \<times> bool" where
  "want_request ip now s =
     (let m = meta_at (nb_meta s) ip in
      if nm_is_static m \<or> now - nm_requested m < kRequestGapSec then (set_meta ip (\<lambda>m. m) s, False)
      else (set_meta ip (\<lambda>m. m\<lparr>nm_requested := now\<rparr>) s, True))"

text \<open>The two lists that the first loop of \<^verbatim>\<open>age\<close> collects.\<close>

definition age_dead :: "u64 \<Rightarrow> neigh_meta \<Rightarrow> bool" where
  "age_dead now m \<longleftrightarrow> \<not> (nm_is_static m \<or> \<not> nm_valid m) \<and> now - nm_confirmed m \<ge> kReachableSec"

definition age_refresh :: "u64 \<Rightarrow> neigh_meta \<Rightarrow> bool" where
  "age_refresh now m \<longleftrightarrow> \<not> (nm_is_static m \<or> \<not> nm_valid m) \<and> \<not> now - nm_confirmed m \<ge> kReachableSec \<and>
     now - nm_confirmed m \<ge> kRefreshSec \<and> now - nm_requested m \<ge> kRequestGapSec * 5"

definition age_stale :: "u64 \<Rightarrow> neigh_meta \<Rightarrow> bool" where
  "age_stale now m \<longleftrightarrow> \<not> nm_valid m \<and> \<not> nm_is_static m \<and> now - nm_requested m > kReachableSec"

definition neigh_age :: "'h neigh_ops \<Rightarrow> u64 \<Rightarrow> ipv4_addr list \<Rightarrow> 'h neigh \<Rightarrow> 'h neigh \<times> ipv4_addr list" where
  "neigh_age ops now refresh s =
     (let dead = map fst (filter (\<lambda>(ip, m). age_dead now m) (nb_meta s));
          refresh = refresh @ map fst (filter (\<lambda>(ip, m). age_refresh now m) (nb_meta s));
          s = fold (neigh_erase ops) dead s;
          s = fold (\<lambda>ip. set_meta ip (\<lambda>m. m\<lparr>nm_requested := now\<rparr>)) refresh s
      in (s\<lparr>nb_meta := filter (\<lambda>(ip, m). \<not> age_stale now m) (nb_meta s)\<rparr>, refresh))"

section \<open>Packing\<close>

lemma bit_kValidBit: "bit kValidBit n \<longleftrightarrow> n = 63"
  unfolding kValidBit_def bit_push_bit_iff by (auto simp: bit_1_iff dest: bit_imp_le_length)

lemma pack_valid: "pack mac AND kValidBit \<noteq> 0"
proof -
  have "bit (pack mac AND kValidBit) 63" by (simp add: pack_def bit_simps bit_kValidBit)
  then show ?thesis by auto
qed

text \<open>The bits of a value that was packed.\<close>

lemma bit_pack:
  "bit (pack mac) n \<longleftrightarrow> n = 63 \<or> n < 48 \<and> bit (mac ! (n div 8)) (n mod 8)"
proof -
  have e: "bit (push_bit (8 * j) (ucast (b :: u8)) :: u64) n \<longleftrightarrow> n div 8 = j \<and> bit b (n mod 8)" if "j < 8" for j b
  proof (cases "8 * j \<le> n \<and> n < 8 * j + 8")
    case True
    then have "n div 8 = j" by auto
    moreover from this have "n - 8 * j = n mod 8" by (metis minus_mult_div_eq_mod)
    ultimately show ?thesis using True that by (auto simp: bit_simps dest: bit_imp_le_length)
  next
    case False
    then have "n div 8 \<noteq> j" by auto
    then show ?thesis using False by (auto simp: bit_simps dest: bit_imp_le_length)
  qed
  define q where "q = n div 8"
  have c: "n < 48 \<longleftrightarrow> q < 6" unfolding q_def by (simp add: div_less_iff_less_mult)
  have q: "q < 6 \<longleftrightarrow> q = 0 \<or> q = 1 \<or> q = 2 \<or> q = 3 \<or> q = 4 \<or> q = 5" by auto
  have b: "bit (ucast (mac ! 0) :: u64) n \<longleftrightarrow> q = 0 \<and> bit (mac ! 0) (n mod 8)"
    "bit (push_bit 8 (ucast (mac ! 1)) :: u64) n \<longleftrightarrow> q = 1 \<and> bit (mac ! 1) (n mod 8)"
    "bit (push_bit 16 (ucast (mac ! 2)) :: u64) n \<longleftrightarrow> q = 2 \<and> bit (mac ! 2) (n mod 8)"
    "bit (push_bit 24 (ucast (mac ! 3)) :: u64) n \<longleftrightarrow> q = 3 \<and> bit (mac ! 3) (n mod 8)"
    "bit (push_bit 32 (ucast (mac ! 4)) :: u64) n \<longleftrightarrow> q = 4 \<and> bit (mac ! 4) (n mod 8)"
    "bit (push_bit 40 (ucast (mac ! 5)) :: u64) n \<longleftrightarrow> q = 5 \<and> bit (mac ! 5) (n mod 8)"
    using e [of 0 "mac ! 0"] e [of 1 "mac ! 1"] e [of 2 "mac ! 2"] e [of 3 "mac ! 3"] e [of 4 "mac ! 4"] e [of 5 "mac ! 5"]
    unfolding q_def by simp_all
  show ?thesis
    unfolding pack_def bit_or_iff bit_kValidBit c b q_def [symmetric] unfolding q by blast
qed

lemma unpack_pack:
  assumes "length mac = 6"
  shows "unpack (pack mac) = mac"
proof (rule nth_equalityI)
  show "length (unpack (pack mac)) = length mac" using assms by (simp add: unpack_def)
next
  fix i
  assume "i < length (unpack (pack mac))"
  then have i: "i < 6" by (simp add: unpack_def)
  then have "[0, 1, 2, 3, 4, 5] ! i = i" by (auto simp: less_Suc_eq numeral_eq_Suc)
  then have "unpack (pack mac) ! i = ucast (drop_bit (8 * i) (pack mac))"
    unfolding unpack_def using i by (subst nth_map) simp_all
  also have "\<dots> = mac ! i"
  proof (rule bit_word_eqI)
    fix n
    assume "n < LENGTH(8)"
    then have n: "n < 8" by simp
    then have "(8 * i + n) div 8 = i" "(8 * i + n) mod 8 = n" "8 * i + n < 48" "8 * i + n \<noteq> 63" using i by auto
    then show "bit (ucast (drop_bit (8 * i) (pack mac)) :: u8) n = bit (mac ! i) n"
      using n by (simp add: bit_simps bit_pack)
  qed
  finally show "unpack (pack mac) ! i = mac ! i" .
qed

section \<open>What the operations write\<close>

text \<open>A number of writes to the hash, each of which moves the generation on; the records of the master
  do not matter for the readers.\<close>

inductive writes :: "'h neigh_ops \<Rightarrow> nat \<Rightarrow> 'h neigh \<Rightarrow> 'h neigh \<Rightarrow> bool" for ops where
  writes_none: "nb_hash s' = nb_hash s \<Longrightarrow> nb_gen s' = nb_gen s \<Longrightarrow> writes ops 0 s s'"
| writes_more: "writes ops d s s' \<Longrightarrow> nb_gen s'' = nb_gen s' + 1 \<Longrightarrow> writes ops (Suc d) s s''"

lemma writes_refl [simp]: "writes ops 0 s s"
  by (rule writes_none) simp_all

lemma writes_gen: "writes ops d s s' \<Longrightarrow> nb_gen s' = nb_gen s + word_of_nat d"
  by (induction rule: writes.induct) (simp_all add: ac_simps)

lemma writes_trans:
  assumes "writes ops d s s'" "writes ops d' s' s''"
  shows "writes ops (d + d') s s''"
  using assms(2,1)
proof (induction arbitrary: s rule: writes.induct)
  case (writes_none s2 s1)
  then show ?case by (cases rule: writes.cases [OF writes_none(3)]) (auto intro: writes.intros)
next
  case (writes_more d s1 s2 s3)
  then show ?case by (auto intro: writes.writes_more)
qed

lemma writes_0: "writes ops 0 s s' \<Longrightarrow> nb_hash s' = nb_hash s"
  by (auto elim: writes.cases)

lemma set_meta_sel [simp]:
  "nb_hash (set_meta ip f s) = nb_hash s" "nb_gen (set_meta ip f s) = nb_gen s" "nb_count (set_meta ip f s) = nb_count s"
  by (simp_all add: set_meta_def)

lemma fold_set_meta_sel [simp]:
  "nb_hash (fold (\<lambda>ip. set_meta ip f) ips s) = nb_hash s" "nb_gen (fold (\<lambda>ip. set_meta ip f) ips s) = nb_gen s"
  by (induction ips arbitrary: s) simp_all

lemma store_writes: "\<exists>d. d \<le> 1 \<and> writes ops d s (neigh_store ops ip mac s)"
proof (cases "hash_add ops (nb_hash s) ip (pack mac)")
  case None
  then show ?thesis by (auto simp: neigh_store_def intro: exI [of _ 0])
next
  case (Some h)
  then have "writes ops (Suc 0) s (neigh_store ops ip mac s)"
    by (intro writes_more [OF writes_refl]) (simp add: neigh_store_def Let_def)
  then show ?thesis by auto
qed

lemma erase_writes: "writes ops 1 s (neigh_erase ops ip s)"
  unfolding One_nat_def
  by (rule writes_more [OF writes_refl]) (simp add: neigh_erase_def Let_def split: option.splits)

lemma erase_all_writes: "writes ops (length ips) s (fold (neigh_erase ops) ips s)"
proof (induction ips arbitrary: s)
  case (Cons ip ips)
  show ?case using writes_trans [OF erase_writes Cons.IH, of s ip] by simp
qed simp

lemma writes_meta:
  "writes ops d s s' \<Longrightarrow> nb_hash s'' = nb_hash s' \<Longrightarrow> nb_gen s'' = nb_gen s' \<Longrightarrow> writes ops d s s''"
  using writes_trans [of ops d s s' 0 s''] by (simp add: writes_none)

lemma store_meta_writes: "\<exists>d \<le> 1. writes ops d s (set_meta ip f (neigh_store ops ip mac s))"
  using store_writes [of ops s ip mac] writes_meta [of ops _ s _ "set_meta ip f (neigh_store ops ip mac s)"]
  by (metis set_meta_sel(1,2))

lemma set_meta_writes: "\<exists>d \<le> k. writes ops d s (set_meta ip f s)"
  using writes_none [of "set_meta ip f s" s ops] by auto

lemma no_writes: "\<exists>d \<le> k. writes ops d s s"
  using writes_refl by blast

text \<open>The operations of the master, with the number of hash writes each may make.\<close>

inductive neigh_step :: "'h neigh_ops \<Rightarrow> nat \<Rightarrow> 'h neigh \<Rightarrow> 'h neigh \<Rightarrow> bool" for ops where
  step_static: "neigh_step ops 1 s (add_static ops ip mac s)" if "length mac = 6"
| step_learn: "neigh_step ops 1 s (neigh_learn ops ip mac sol now s)" if "length mac = 6"
| step_hint: "neigh_step ops 1 s (neigh_hint ops ip mac now s)" if "length mac = 6"
| step_want: "neigh_step ops 0 s (fst (want_request ip now s))"
| step_age: "neigh_step ops (length (nb_meta s)) s (fst (neigh_age ops now refresh s))"

inductive neigh_run :: "'h neigh_ops \<Rightarrow> nat \<Rightarrow> 'h neigh \<Rightarrow> 'h neigh \<Rightarrow> bool" for ops where
  run_none: "neigh_run ops 0 s s"
| run_step: "neigh_run ops n s s' \<Longrightarrow> neigh_step ops k s' s'' \<Longrightarrow> neigh_run ops (n + k) s s''"

lemma step_writes: "neigh_step ops k s s' \<Longrightarrow> \<exists>d \<le> k. writes ops d s s'"
proof (induction rule: neigh_step.induct)
  case (step_static mac s ip)
  show ?case unfolding add_static_def by (rule store_meta_writes)
next
  case (step_learn mac s ip sol now)
  define W where "W t \<longleftrightarrow> (\<exists>d \<le> 1. writes ops d s t)" for t
  have "W s" "W (set_meta ip f s)" "W (set_meta ip f (neigh_store ops ip mac s))" for f
    unfolding W_def by (rule no_writes set_meta_writes store_meta_writes)+
  then have "W (neigh_learn ops ip mac sol now s)" by (simp add: neigh_learn_def Let_def)
  then show ?case by (simp add: W_def)
next
  case (step_hint mac s ip now)
  define W where "W t \<longleftrightarrow> (\<exists>d \<le> 1. writes ops d s t)" for t
  have "W s" "W (set_meta ip f (neigh_store ops ip mac s))" for f
    unfolding W_def by (rule no_writes store_meta_writes)+
  then have "W (neigh_hint ops ip mac now s)" by (simp add: neigh_hint_def Let_def)
  then show ?case by (simp add: W_def)
next
  case (step_want s ip now)
  then show ?case by (auto simp: want_request_def Let_def intro: writes_none)
next
  case (step_age s now refresh)
  let ?dead = "map fst (filter (\<lambda>(ip, m). age_dead now m) (nb_meta s))"
  have "writes ops (length ?dead) s (fst (neigh_age ops now refresh s))"
    using erase_all_writes [of ops ?dead s] by (rule writes_meta) (simp_all add: neigh_age_def Let_def)
  moreover have "length ?dead \<le> length (nb_meta s)" by simp
  ultimately show ?case by blast
qed

lemma run_writes: "neigh_run ops n s s' \<Longrightarrow> \<exists>d \<le> n. writes ops d s s'"
proof (induction rule: neigh_run.induct)
  case (run_step n s s' k s'')
  then show ?case using step_writes [OF run_step(2)] writes_trans by (metis add_le_mono)
qed auto

lemma generation_tells:
  assumes "neigh_run ops n s s'" "n < 2 ^ 32" "nb_gen s' = nb_gen s"
  shows "neigh_lookup ops s' = neigh_lookup ops s"
proof -
  obtain d where d: "d \<le> n" "writes ops d s s'" using run_writes [OF assms(1)] by blast
  have "(word_of_nat d :: u32) = 0" using writes_gen [OF d(2)] assms(3) by simp
  then have "2 ^ 32 dvd d" by (simp add: word_of_nat_eq_0_iff)
  then have "d = 0" using d(1) assms(2) by (meson dvd_imp_le le_less_trans not_gr0 not_less)
  then have "nb_hash s' = nb_hash s" using d(2) writes_0 by blast
  then show ?thesis by (simp add: neigh_lookup_def fun_eq_iff)
qed

end
