(* ===== verification/Tcp_State.thy ===== *)
theory Tcp_State
  imports Net_Types
begin

text \<open>
  The simplified TCP connection state machine of \<^verbatim>\<open>src/lb/tcp_state.cpp\<close> and
  \<^verbatim>\<open>include/lb/tcp_state.h\<close>: one packet's effect on the state (\<open>tcp_next_state\<close>), the
  per-state timeout (\<open>state_timeout\<close>) and the states in which a new SYN replaces the session
  (\<open>tcp_state_reusable\<close>). The in/out parameter \<^verbatim>\<open>fin_seen\<close> is returned beside the new state.
\<close>

section \<open>States, flags, transitions\<close>

datatype tcp_state =
  NONE | SYN_RECV | ESTABLISHED | FIN_WAIT | TIME_WAIT | CLOSE | UDP | COUNT

datatype dir = CLIENT_TO_RS | RS_TO_CLIENT

definition TCP_FIN :: u8 where "TCP_FIN = 0x01"
definition TCP_SYN :: u8 where "TCP_SYN = 0x02"
definition TCP_RST :: u8 where "TCP_RST = 0x04"
definition TCP_PSH :: u8 where "TCP_PSH = 0x08"
definition TCP_ACK :: u8 where "TCP_ACK = 0x10"

lemmas tcp_flag_defs = TCP_FIN_def TCP_SYN_def TCP_RST_def TCP_PSH_def TCP_ACK_def

definition has_flag :: "u8 \<Rightarrow> u8 \<Rightarrow> bool" where
  "has_flag flags f \<longleftrightarrow> flags AND f \<noteq> 0"

definition tcp_state_name :: "tcp_state \<Rightarrow> string" where
  "tcp_state_name s =
     (case s of NONE \<Rightarrow> ''NONE'' | SYN_RECV \<Rightarrow> ''SYN_RECV'' | ESTABLISHED \<Rightarrow> ''ESTABLISHED''
      | FIN_WAIT \<Rightarrow> ''FIN_WAIT'' | TIME_WAIT \<Rightarrow> ''TIME_WAIT'' | CLOSE \<Rightarrow> ''CLOSE''
      | UDP \<Rightarrow> ''UDP'' | COUNT \<Rightarrow> ''?'')"

definition tcp_next_state :: "tcp_state \<Rightarrow> u8 \<Rightarrow> dir \<Rightarrow> u8 \<Rightarrow> tcp_state \<times> u8" where
  "tcp_next_state cur flags d fin_seen =
     (if cur = UDP then (cur, fin_seen)
      else if has_flag flags TCP_RST then (CLOSE, fin_seen)
      else
        let self = (if d = CLIENT_TO_RS then 1 else 2);
            fin_seen = (if has_flag flags TCP_FIN then fin_seen OR self else fin_seen)
        in (case cur of
              NONE \<Rightarrow> (if has_flag flags TCP_SYN then SYN_RECV else cur, fin_seen)
            | SYN_RECV \<Rightarrow>
                (if d = CLIENT_TO_RS \<and> has_flag flags TCP_ACK \<and> \<not> has_flag flags TCP_SYN
                 then (if fin_seen \<noteq> 0 then FIN_WAIT else ESTABLISHED)
                 else cur, fin_seen)
            | ESTABLISHED \<Rightarrow> (if fin_seen \<noteq> 0 then FIN_WAIT else cur, fin_seen)
            | FIN_WAIT \<Rightarrow> (if fin_seen = 3 then TIME_WAIT else cur, fin_seen)
            | _ \<Rightarrow> (cur, fin_seen)))"

definition state_timeout :: "tcp_state \<Rightarrow> timeout_conf \<Rightarrow> nat" where
  "state_timeout s t =
     (case s of NONE \<Rightarrow> to_tcp_syn t | SYN_RECV \<Rightarrow> to_tcp_syn t
      | ESTABLISHED \<Rightarrow> to_tcp_established t | FIN_WAIT \<Rightarrow> to_tcp_fin t
      | TIME_WAIT \<Rightarrow> to_tcp_timewait t | CLOSE \<Rightarrow> to_tcp_close t | _ \<Rightarrow> to_udp t)"

definition tcp_state_reusable :: "tcp_state \<Rightarrow> bool" where
  "tcp_state_reusable s \<longleftrightarrow> s = TIME_WAIT \<or> s = CLOSE"

text \<open>A connection's history: the packets seen by the balancer, in order.\<close>

fun tcp_run :: "tcp_state \<times> u8 \<Rightarrow> (u8 \<times> dir) list \<Rightarrow> tcp_state \<times> u8" where
  "tcp_run sf [] = sf"
| "tcp_run (s, fin) ((flags, d) # ps) = tcp_run (tcp_next_state s flags d fin) ps"


section \<open>The order of the states\<close>

text \<open>The enumerators are numbered in the order of a connection's life; the order of the type is
  the order of these numbers.\<close>

definition tcp_state_code :: "tcp_state \<Rightarrow> nat" where
  "tcp_state_code s =
     (case s of NONE \<Rightarrow> 0 | SYN_RECV \<Rightarrow> 1 | ESTABLISHED \<Rightarrow> 2 | FIN_WAIT \<Rightarrow> 3 | TIME_WAIT \<Rightarrow> 4
      | CLOSE \<Rightarrow> 5 | UDP \<Rightarrow> 6 | COUNT \<Rightarrow> 7)"

instantiation tcp_state :: linorder
begin
definition less_eq_tcp_state :: "tcp_state \<Rightarrow> tcp_state \<Rightarrow> bool" where
  "less_eq_tcp_state a b \<longleftrightarrow> tcp_state_code a \<le> tcp_state_code b"
definition less_tcp_state :: "tcp_state \<Rightarrow> tcp_state \<Rightarrow> bool" where
  "less_tcp_state a b \<longleftrightarrow> tcp_state_code a < tcp_state_code b"
instance
proof
  fix a b :: tcp_state
  show "a \<le> b \<Longrightarrow> b \<le> a \<Longrightarrow> a = b"
    by (cases a; cases b) (simp_all add: less_eq_tcp_state_def tcp_state_code_def)
qed (auto simp: less_eq_tcp_state_def less_tcp_state_def)
end

lemmas tcp_order_defs = less_eq_tcp_state_def less_tcp_state_def tcp_state_code_def

section \<open>One packet\<close>

definition fin_bit :: "dir \<Rightarrow> u8" where
  "fin_bit d = (if d = CLIENT_TO_RS then 1 else 2)"

lemma tcp_next_state_udp: "tcp_next_state UDP flags d fin = (UDP, fin)"
  by (simp add: tcp_next_state_def)

lemma tcp_next_state_rst:
  "has_flag flags TCP_RST \<Longrightarrow> cur \<noteq> UDP \<Longrightarrow> tcp_next_state cur flags d fin = (CLOSE, fin)"
  by (simp add: tcp_next_state_def)

definition fin_after :: "u8 \<Rightarrow> u8 \<Rightarrow> dir \<Rightarrow> u8" where
  "fin_after fin flags d = (if has_flag flags TCP_FIN then fin OR fin_bit d else fin)"

lemma tcp_next_state_no_rst:
  "\<not> has_flag flags TCP_RST \<Longrightarrow> cur \<noteq> UDP \<Longrightarrow>
     tcp_next_state cur flags d fin =
      (case cur of
         NONE \<Rightarrow> if has_flag flags TCP_SYN then SYN_RECV else NONE
       | SYN_RECV \<Rightarrow> if d = CLIENT_TO_RS \<and> has_flag flags TCP_ACK \<and> \<not> has_flag flags TCP_SYN
                     then (if fin_after fin flags d \<noteq> 0 then FIN_WAIT else ESTABLISHED) else SYN_RECV
       | ESTABLISHED \<Rightarrow> if fin_after fin flags d \<noteq> 0 then FIN_WAIT else ESTABLISHED
       | FIN_WAIT \<Rightarrow> if fin_after fin flags d = 3 then TIME_WAIT else FIN_WAIT
       | _ \<Rightarrow> cur, fin_after fin flags d)"
  unfolding tcp_next_state_def fin_after_def fin_bit_def Let_def
  by (cases cur) (simp_all split del: if_split cong: if_cong)

lemma tcp_next_state_mono: "cur \<noteq> COUNT \<Longrightarrow> cur \<le> fst (tcp_next_state cur flags d fin)"
  by (cases cur) (simp_all add: tcp_next_state_def Let_def tcp_order_defs)

lemma tcp_next_state_not_count: "cur \<noteq> COUNT \<Longrightarrow> fst (tcp_next_state cur flags d fin) \<noteq> COUNT"
  by (cases cur) (simp_all add: tcp_next_state_def Let_def)

lemma tcp_run_mono: "fst sf \<noteq> COUNT \<Longrightarrow> fst sf \<le> fst (tcp_run sf ps)"
proof (induction sf ps rule: tcp_run.induct)
  case (2 s fin flags d ps)
  then have "s \<le> fst (tcp_next_state s flags d fin)" by (simp add: tcp_next_state_mono)
  also have "\<dots> \<le> fst (tcp_run (tcp_next_state s flags d fin) ps)"
    using "2.prems" by (simp add: "2.IH" tcp_next_state_not_count)
  finally show ?case by simp
qed simp

section \<open>What a state says about the packets seen\<close>

definition saw_fin :: "dir \<Rightarrow> (u8 \<times> dir) list \<Rightarrow> bool" where
  "saw_fin d ps \<longleftrightarrow> (\<exists>f. (f, d) \<in> set ps \<and> has_flag f TCP_FIN)"

definition handshake_done :: "(u8 \<times> dir) list \<Rightarrow> bool" where
  "handshake_done ps \<longleftrightarrow>
     (\<exists>as bs f d g. ps = as @ (f, d) # bs \<and> has_flag f TCP_SYN \<and>
        (g, CLIENT_TO_RS) \<in> set bs \<and> has_flag g TCP_ACK \<and> \<not> has_flag g TCP_SYN)"

definition fin_of :: "(u8 \<times> dir) list \<Rightarrow> u8" where
  "fin_of ps = (if saw_fin CLIENT_TO_RS ps then 1 else 0) OR (if saw_fin RS_TO_CLIENT ps then 2 else 0)"

definition tcp_hist_inv :: "(u8 \<times> dir) list \<Rightarrow> tcp_state \<times> u8 \<Rightarrow> bool" where
  "tcp_hist_inv ps sf \<longleftrightarrow> (case sf of (s, fin) \<Rightarrow>
     s \<notin> {UDP, COUNT} \<and>
     (s = CLOSE \<longleftrightarrow> (\<exists>p \<in> set ps. has_flag (fst p) TCP_RST)) \<and>
     (s \<noteq> CLOSE \<longrightarrow> fin = fin_of ps) \<and>
     (s = NONE \<longrightarrow> (\<forall>p \<in> set ps. \<not> has_flag (fst p) TCP_SYN)) \<and>
     (s \<noteq> NONE \<and> s \<noteq> CLOSE \<longrightarrow> (\<exists>p \<in> set ps. has_flag (fst p) TCP_SYN)) \<and>
     (s \<in> {ESTABLISHED, FIN_WAIT, TIME_WAIT} \<longrightarrow> handshake_done ps) \<and>
     (s = ESTABLISHED \<longrightarrow> fin = 0) \<and>
     (s = FIN_WAIT \<longrightarrow> fin \<noteq> 0) \<and>
     (s = TIME_WAIT \<longrightarrow> fin = 3))"

lemma saw_fin_snoc: "saw_fin d (ps @ [(f, d')]) \<longleftrightarrow> saw_fin d ps \<or> (d' = d \<and> has_flag f TCP_FIN)"
  by (auto simp: saw_fin_def)

lemma handshake_snoc: "handshake_done ps \<Longrightarrow> handshake_done (ps @ [p])"
  unfolding handshake_done_def by (elim exE, rule exI, rule_tac x = "bs @ [p]" in exI) auto

lemma handshake_ack:
  assumes "\<exists>p \<in> set ps. has_flag (fst p) TCP_SYN" "has_flag g TCP_ACK" "\<not> has_flag g TCP_SYN"
  shows "handshake_done (ps @ [(g, CLIENT_TO_RS)])"
proof -
  from assms(1) obtain f d as bs where "ps = as @ (f, d) # bs" "has_flag f TCP_SYN"
    by (auto dest!: split_list)
  with assms(2,3) show ?thesis unfolding handshake_done_def
    by (intro exI [of _ as] exI [of _ "bs @ [(g, CLIENT_TO_RS)]"]) auto
qed

lemma fin_of_snoc: "fin_of (ps @ [(f, d)]) = fin_after (fin_of ps) f d"
  by (cases d) (auto simp: fin_of_def saw_fin_snoc fin_after_def fin_bit_def)

lemma fin_of_0: "fin_of ps = 0 \<longleftrightarrow> \<not> saw_fin CLIENT_TO_RS ps \<and> \<not> saw_fin RS_TO_CLIENT ps"
  by (auto simp: fin_of_def)

lemma fin_of_3: "fin_of ps = 3 \<longleftrightarrow> saw_fin CLIENT_TO_RS ps \<and> saw_fin RS_TO_CLIENT ps"
  by (auto simp: fin_of_def)

lemma fin_of_mono: "fin_of ps \<noteq> 0 \<Longrightarrow> fin_of (ps @ [p]) \<noteq> 0" "fin_of ps = 3 \<Longrightarrow> fin_of (ps @ [p]) = 3"
  by (cases p; auto simp: fin_of_0 fin_of_3 saw_fin_snoc)+

lemma tcp_hist_inv_step:
  assumes inv: "tcp_hist_inv ps (s, fin)"
  shows "tcp_hist_inv (ps @ [(f, d)]) (tcp_next_state s f d fin)"
proof (cases "has_flag f TCP_RST")
  case True
  with inv show ?thesis
    by (simp add: tcp_hist_inv_def tcp_next_state_rst)
next
  case rst: False
  have s: "s \<noteq> UDP" "s \<noteq> COUNT" using inv by (simp_all add: tcp_hist_inv_def)
  note step = tcp_next_state_no_rst [OF rst s(1), of d fin]
  show ?thesis
  proof (cases "s = CLOSE")
    case True
    with inv rst show ?thesis unfolding step by (simp add: tcp_hist_inv_def)
  next
    case False
    then have fin: "fin = fin_of ps" using inv by (simp add: tcp_hist_inv_def)
    have "fin_after fin f d = fin_of (ps @ [(f, d)])" by (simp add: fin fin_of_snoc)
    note step' = step [unfolded this]
    show ?thesis
    proof (cases s)
      case SYN_RECV
      with inv rst fin show ?thesis unfolding step'
        by (simp add: tcp_hist_inv_def handshake_ack)
    qed (use False s inv rst fin fin_of_mono [of ps "(f, d)"] in
        \<open>unfold step', simp_all add: tcp_hist_inv_def handshake_snoc\<close>)
  qed
qed

lemma tcp_run_snoc: "tcp_run sf (ps @ [(f, d)]) = (case tcp_run sf ps of (s, fin) \<Rightarrow> tcp_next_state s f d fin)"
  by (induction sf ps rule: tcp_run.induct) (simp_all split: prod.splits)

lemma tcp_hist_inv_run: "tcp_hist_inv ps (tcp_run (NONE, 0) ps)"
proof (induction ps rule: rev_induct)
  case Nil
  show ?case by (simp add: tcp_hist_inv_def saw_fin_def fin_of_def)
next
  case (snoc p ps)
  obtain f d where p: "p = (f, d)" by (cases p)
  obtain s fin where "tcp_run (NONE, 0) ps = (s, fin)" by (cases "tcp_run (NONE, 0) ps")
  with snoc show ?case by (simp add: p tcp_run_snoc tcp_hist_inv_step)
qed

section \<open>Properties\<close>



lemma tcp_run_absorbing: "s = CLOSE \<or> s = UDP \<Longrightarrow> fst (tcp_run (s, fin) ps) = s"
proof (induction ps arbitrary: fin)
  case (Cons p ps)
  then show ?case
    by (cases p; cases "has_flag (fst p) TCP_RST")
      (auto simp: tcp_next_state_rst tcp_next_state_no_rst tcp_next_state_udp)
qed simp

text \<open>A connection's state only moves forward in the order NONE, SYN\_RECV, ESTABLISHED,
  FIN\_WAIT, TIME\_WAIT, CLOSE, whatever packets arrive; a closed connection stays closed, and a
  session of a UDP service stays in the UDP state.\<close>
lemma tcp_state_never_goes_back:
  assumes "s \<noteq> COUNT"
  shows "s \<le> fst (tcp_run (s, fin) ps) \<and>
    (s = CLOSE \<or> s = UDP \<longrightarrow> fst (tcp_run (s, fin) ps) = s)"
  using assms tcp_run_mono [of "(s, fin)" ps] tcp_run_absorbing [of s fin ps] by simp

end
