(* ===== verification/Session_Table.thy ===== *)
theory Session_Table
  imports Net_Types Tcp_State Dpdk_Hash
begin

text \<open>
  The per-worker session table of \<^verbatim>\<open>src/lb/session.cpp\<close> and \<^verbatim>\<open>include/lb/session.h\<close>: a
  pre-allocated array of sessions, a stack of free indices, an \<^verbatim>\<open>rte_hash\<close> from both five-tuples of
  a session to its index, and a timing wheel of one-second slots whose lists are threaded through
  the sessions (\<open>wheel_prev\<close>, \<open>wheel_next\<close>). A \<^verbatim>\<open>Session *\<close> is the index of the session.

  Indices are natural numbers; \<open>kNil\<close> and \<open>kFree\<close> are the two largest 32-bit values, as in the
  code. Ticks are seconds since start, counted in a 64-bit variable that cannot overflow within
  the life of a process; they are natural numbers.
\<close>

section \<open>State\<close>

definition SF_TOA_PENDING :: u8 where "SF_TOA_PENDING = 0x01"
definition SF_FULLNAT :: u8 where "SF_FULLNAT = 0x02"

record session =
  client :: five_tuple
  server :: five_tuple
  rs_id :: nat
  svc_idx :: nat
  sstate :: tcp_state
  fin_seen :: u8
  flags :: u8
  rs_mac :: mac_addr
  cli_mac :: mac_addr
  cli_src_mac :: mac_addr
  rs_mac_gen :: u32
  cli_mac_gen :: u32
  created_tick :: nat
  expire_tick :: nat
  pkts_in :: u64
  bytes_in :: u64
  pkts_out :: u64
  bytes_out :: u64
  slot_tick :: nat
  wheel_prev :: nat
  wheel_next :: nat
  in_pending :: bool

text \<open>\<^verbatim>\<open>Session{}\<close>: every field zero.\<close>

definition session_zero :: session where
  "session_zero =
     \<lparr>client = five_tuple_zero, server = five_tuple_zero, rs_id = 0, svc_idx = 0, sstate = NONE,
      fin_seen = 0, flags = 0, rs_mac = mac_zero, cli_mac = mac_zero, cli_src_mac = mac_zero,
      rs_mac_gen = 0, cli_mac_gen = 0, created_tick = 0, expire_tick = 0, pkts_in = 0,
      bytes_in = 0, pkts_out = 0, bytes_out = 0, slot_tick = 0, wheel_prev = 0, wheel_next = 0,
      in_pending = False\<rparr>"

definition kNil :: nat where "kNil = 4294967295"
definition kFree :: nat where "kFree = 4294967294"
definition kWheelSlots :: nat where "kWheelSlots = 4096"
definition kExpireBudget :: nat where "kExpireBudget = 4096"

record 'h session_table =
  hash :: 'h
  sessions :: "session list"
  free_stack :: "nat list"
  free_top :: nat
  capacity :: nat
  slots :: "nat list"
  pending :: nat
  cur_tick :: nat

abbreviation sess :: "'h session_table \<Rightarrow> nat \<Rightarrow> session" where
  "sess t i \<equiv> sessions t ! i"

definition modify :: "nat \<Rightarrow> (session \<Rightarrow> session) \<Rightarrow> 'h session_table \<Rightarrow> 'h session_table" where
  "modify i f t = t\<lparr>sessions := (sessions t)[i := f (sessions t ! i)]\<rparr>"

definition is_fullnat :: "session \<Rightarrow> bool" where
  "is_fullnat s \<longleftrightarrow> flags s AND SF_FULLNAT \<noteq> 0"

definition deadline :: "nat \<Rightarrow> nat \<Rightarrow> nat" where
  "deadline now_tick timeout = now_tick + (if timeout \<noteq> 0 then timeout else 1) + 1"

section \<open>Wheel lists\<close>

definition wheel_slot :: "nat \<Rightarrow> nat" where
  "wheel_slot tick = tick mod kWheelSlots"

definition wheel_link :: "'h session_table \<Rightarrow> nat \<Rightarrow> nat \<Rightarrow> 'h session_table" where
  "wheel_link t idx tick =
     (let tick = (if tick < cur_tick t then cur_tick t else tick);
          slot = wheel_slot tick;
          t = modify idx (\<lambda>s. s\<lparr>slot_tick := tick, in_pending := False, wheel_prev := kNil,
                               wheel_next := slots t ! slot\<rparr>) t;
          next = wheel_next (sess t idx);
          t = (if next \<noteq> kNil then modify next (\<lambda>n. n\<lparr>wheel_prev := idx\<rparr>) t else t)
      in t\<lparr>slots := (slots t)[slot := idx]\<rparr>)"

definition set_head :: "session \<Rightarrow> nat \<Rightarrow> 'h session_table \<Rightarrow> 'h session_table" where
  "set_head s v t =
     (if in_pending s then t\<lparr>pending := v\<rparr>
      else t\<lparr>slots := (slots t)[wheel_slot (slot_tick s) := v]\<rparr>)"

definition wheel_unlink :: "'h session_table \<Rightarrow> nat \<Rightarrow> 'h session_table" where
  "wheel_unlink t idx =
     (let s = sess t idx;
          t = (if wheel_prev s \<noteq> kNil
               then modify (wheel_prev s) (\<lambda>p. p\<lparr>wheel_next := wheel_next s\<rparr>) t
               else set_head s (wheel_next s) t);
          t = (if wheel_next s \<noteq> kNil
               then modify (wheel_next s) (\<lambda>n. n\<lparr>wheel_prev := wheel_prev s\<rparr>) t else t)
      in modify idx (\<lambda>s. s\<lparr>wheel_prev := kNil, wheel_next := kNil\<rparr>) t)"

definition pending_push :: "'h session_table \<Rightarrow> nat \<Rightarrow> 'h session_table" where
  "pending_push t idx =
     (let t = modify idx (\<lambda>s. s\<lparr>in_pending := True, wheel_prev := kNil, wheel_next := pending t\<rparr>) t;
          t = (if pending t \<noteq> kNil then modify (pending t) (\<lambda>n. n\<lparr>wheel_prev := idx\<rparr>) t else t)
      in t\<lparr>pending := idx\<rparr>)"

definition pending_pop :: "'h session_table \<Rightarrow> 'h session_table \<times> nat" where
  "pending_pop t =
     (let idx = pending t in (modify idx (\<lambda>s. s\<lparr>in_pending := False\<rparr>) (wheel_unlink t idx), idx))"

section \<open>Operations\<close>

definition st_init :: "('h, five_tuple, nat) hash_ops \<Rightarrow> nat \<Rightarrow> nat \<Rightarrow> bool \<Rightarrow> 'h session_table option" where
  "st_init ops cap now_tick mem_ok =
     (case hash_create ops ((cap * 2 + cap div 2) mod 2 ^ 32) of
        None \<Rightarrow> None
      | Some h \<Rightarrow>
          if \<not> mem_ok then None
          else Some \<lparr>hash = h,
                 sessions = replicate cap (session_zero\<lparr>wheel_prev := kFree\<rparr>),
                 free_stack = map (\<lambda>i. cap - 1 - i) [0..<cap],
                 free_top = cap, capacity = cap,
                 slots = replicate kWheelSlots kNil,
                 pending = kNil, cur_tick = now_tick\<rparr>)"

definition st_lookup :: "('h, five_tuple, nat) hash_ops \<Rightarrow> 'h session_table \<Rightarrow> five_tuple \<Rightarrow> nat option" where
  "st_lookup ops t key = hash_lookup ops (hash t) key"

definition key_in_use :: "('h, five_tuple, nat) hash_ops \<Rightarrow> 'h session_table \<Rightarrow> five_tuple \<Rightarrow> bool" where
  "key_in_use ops t key \<longleftrightarrow> st_lookup ops t key \<noteq> None"

definition new_session_at :: "'h session_table \<Rightarrow> nat \<Rightarrow> five_tuple \<Rightarrow> five_tuple option \<Rightarrow> nat \<Rightarrow> nat
    \<Rightarrow> 'h session_table" where
  "new_session_at t idx cli srv now_tick timeout =
     (let s = session_zero\<lparr>client := cli\<rparr>;
          s = (case srv of None \<Rightarrow> s
               | Some k \<Rightarrow> s\<lparr>server := k, flags := flags s OR SF_FULLNAT\<rparr>);
          s = s\<lparr>created_tick := now_tick, expire_tick := deadline now_tick timeout\<rparr>
      in wheel_link (modify idx (\<lambda>_. s) t) idx (expire_tick s))"

definition st_create :: "('h, five_tuple, nat) hash_ops \<Rightarrow> 'h session_table \<Rightarrow> five_tuple \<Rightarrow> five_tuple option
    \<Rightarrow> nat \<Rightarrow> nat \<Rightarrow> 'h session_table \<times> nat option" where
  "st_create ops t cli srv now_tick timeout =
     (if free_top t = 0 then (t, None)
      else
        let idx = free_stack t ! (free_top t - 1)
        in case hash_add ops (hash t) cli idx of
             None \<Rightarrow> (t, None)
           | Some h1 \<Rightarrow>
               (case (case srv of None \<Rightarrow> Some h1 | Some k \<Rightarrow> hash_add ops h1 k idx) of
                  None \<Rightarrow> (t\<lparr>hash := hash_del ops h1 cli\<rparr>, None)
                | Some h2 \<Rightarrow>
                    (new_session_at (t\<lparr>hash := h2, free_top := free_top t - 1\<rparr>) idx cli srv now_tick timeout,
                     Some idx)))"

definition st_remove :: "('h, five_tuple, nat) hash_ops \<Rightarrow> 'h session_table \<Rightarrow> nat \<Rightarrow> 'h session_table" where
  "st_remove ops t idx =
     (let s = sess t idx;
          h = hash_del ops (hash t) (client s);
          h = (if is_fullnat s then hash_del ops h (server s) else h);
          t = wheel_unlink (t\<lparr>hash := h\<rparr>) idx;
          t = modify idx (\<lambda>s. s\<lparr>wheel_prev := kFree\<rparr>) t
      in t\<lparr>free_stack := (free_stack t)[free_top t := idx], free_top := free_top t + 1\<rparr>)"

definition st_touch :: "'h session_table \<Rightarrow> nat \<Rightarrow> nat \<Rightarrow> nat \<Rightarrow> 'h session_table" where
  "st_touch t idx now_tick timeout =
     (let exp = deadline now_tick timeout;
          t = (if exp < slot_tick (sess t idx) \<and> \<not> in_pending (sess t idx)
               then wheel_link (wheel_unlink t idx) idx exp else t)
      in modify idx (\<lambda>s. s\<lparr>expire_tick := exp\<rparr>) t)"

text \<open>Taking a slot's list apart: every session of it goes to the pending list. The loop follows
  \<open>wheel_next\<close> and returns only if the list ends.\<close>

partial_function (option) drain_slot :: "'h session_table \<Rightarrow> nat \<Rightarrow> 'h session_table option" where
  "drain_slot t head =
     (if head = kNil then Some t
      else drain_slot (pending_push t head) (wheel_next (sess t head)))"

lemma modify_frame [frame_simps]:
  "hash (modify i f t) = hash t" "free_stack (modify i f t) = free_stack t"
  "free_top (modify i f t) = free_top t" "capacity (modify i f t) = capacity t"
  "slots (modify i f t) = slots t" "pending (modify i f t) = pending t"
  "cur_tick (modify i f t) = cur_tick t" "length (sessions (modify i f t)) = length (sessions t)"
  by (simp_all add: modify_def)

lemma set_head_frame [frame_simps]:
  "hash (set_head s v t) = hash t" "free_stack (set_head s v t) = free_stack t"
  "free_top (set_head s v t) = free_top t" "capacity (set_head s v t) = capacity t"
  "sessions (set_head s v t) = sessions t" "cur_tick (set_head s v t) = cur_tick t"
  by (simp_all add: set_head_def)

lemma wheel_link_frame [frame_simps]:
  "hash (wheel_link t i k) = hash t" "free_stack (wheel_link t i k) = free_stack t"
  "free_top (wheel_link t i k) = free_top t" "capacity (wheel_link t i k) = capacity t"
  "pending (wheel_link t i k) = pending t" "cur_tick (wheel_link t i k) = cur_tick t"
  "length (sessions (wheel_link t i k)) = length (sessions t)"
  by (simp_all add: wheel_link_def Let_def frame_simps)

lemma wheel_unlink_frame [frame_simps]:
  "hash (wheel_unlink t i) = hash t" "free_stack (wheel_unlink t i) = free_stack t"
  "free_top (wheel_unlink t i) = free_top t" "capacity (wheel_unlink t i) = capacity t"
  "cur_tick (wheel_unlink t i) = cur_tick t"
  "length (sessions (wheel_unlink t i)) = length (sessions t)"
  by (simp_all add: wheel_unlink_def Let_def frame_simps)

lemma pending_push_frame [frame_simps]:
  "hash (pending_push t i) = hash t" "free_stack (pending_push t i) = free_stack t"
  "free_top (pending_push t i) = free_top t" "capacity (pending_push t i) = capacity t"
  "slots (pending_push t i) = slots t" "cur_tick (pending_push t i) = cur_tick t"
  "length (sessions (pending_push t i)) = length (sessions t)"
  by (simp_all add: pending_push_def Let_def frame_simps)

lemma pending_pop_frame [frame_simps]:
  "snd (pending_pop t) = pending t"
  "hash (fst (pending_pop t)) = hash t" "free_stack (fst (pending_pop t)) = free_stack t"
  "free_top (fst (pending_pop t)) = free_top t" "capacity (fst (pending_pop t)) = capacity t"
  "cur_tick (fst (pending_pop t)) = cur_tick t"
  "length (sessions (fst (pending_pop t))) = length (sessions t)"
  by (simp_all add: pending_pop_def Let_def frame_simps)

lemma st_remove_frame [frame_simps]:
  "capacity (st_remove ops t i) = capacity t" "cur_tick (st_remove ops t i) = cur_tick t"
  "length (sessions (st_remove ops t i)) = length (sessions t)"
  "length (free_stack (st_remove ops t i)) = length (free_stack t)"
  by (simp_all add: st_remove_def Let_def frame_simps)

lemma drain_slot_frame:
  assumes "drain_slot t head = Some t'"
  shows "cur_tick t' = cur_tick t \<and> capacity t' = capacity t \<and> hash t' = hash t"
proof (rule drain_slot.raw_induct
    [where P = "\<lambda>t head t'. cur_tick t' = cur_tick t \<and> capacity t' = capacity t \<and> hash t' = hash t", OF _ assms])
  fix f t head t'
  assume IH: "\<And>t head t'. f t head = Some t' \<Longrightarrow>
      cur_tick t' = cur_tick t \<and> capacity t' = capacity t \<and> hash t' = hash t"
    and eq: "(if head = kNil then Some t else f (pending_push t head) (wheel_next (sess t head))) = Some t'"
  show "cur_tick t' = cur_tick t \<and> capacity t' = capacity t \<and> hash t' = hash t"
    using eq IH [of "pending_push t head" "wheel_next (sess t head)" t']
    by (auto simp: frame_simps split: if_splits)
qed

function (sequential) expire_loop :: "('h, five_tuple, nat) hash_ops \<Rightarrow> 'h session_table \<Rightarrow> nat \<Rightarrow> nat \<Rightarrow> nat
    \<Rightarrow> ('h session_table \<times> nat) option" where
  "expire_loop ops t now_tick budget removed =
     (if budget = 0 then Some (t, removed)
      else if pending t = kNil then
        (if cur_tick t > now_tick then Some (t, removed)
         else
           let slot = wheel_slot (cur_tick t);
               head = slots t ! slot
           in case drain_slot (t\<lparr>slots := (slots t)[slot := kNil]\<rparr>) head of
                None \<Rightarrow> None
              | Some t' \<Rightarrow> expire_loop ops (t'\<lparr>cur_tick := cur_tick t' + 1\<rparr>) now_tick budget removed)
      else
        let idx = snd (pending_pop t);
            t' = fst (pending_pop t)
        in if expire_tick (sess t' idx) \<le> now_tick
           then expire_loop ops (st_remove ops t' idx) now_tick (budget - 1) (removed + 1)
           else expire_loop ops (wheel_link t' idx (expire_tick (sess t' idx))) now_tick (budget - 1) removed)"
  by pat_completeness auto
termination
  by (relation "measure (\<lambda>(ops, t, now, budget, removed). budget + (now + 1 - cur_tick t))")
    (auto simp: frame_simps dest!: drain_slot_frame)

declare expire_loop.simps [simp del]

definition st_expire :: "('h, five_tuple, nat) hash_ops \<Rightarrow> 'h session_table \<Rightarrow> nat \<Rightarrow> ('h session_table \<times> nat) option" where
  "st_expire ops t now_tick = expire_loop ops t now_tick kExpireBudget 0"

definition active_count :: "'h session_table \<Rightarrow> nat" where
  "active_count t = capacity t - free_top t"

definition for_each :: "'h session_table \<Rightarrow> nat list" where
  "for_each t = filter (\<lambda>i. wheel_prev (sess t i) \<noteq> kFree) [0..<capacity t]"

end
