(* ===== verification/Packet.thy ===== *)
theory Packet
  imports Net_Types
begin

text \<open>
  Packet headers as the code reads and writes them: a frame is the list of its bytes, a header
  structure overlaid on it is an offset, and its fields are the little-endian loads and stores at
  fixed distances of \<^verbatim>\<open>include/protocol/ethernet.h\<close>, \<^verbatim>\<open>ip.h\<close>, \<^verbatim>\<open>arp.h\<close> and \<^verbatim>\<open>icmp.h\<close>. A store
  outside the frame leaves it as it is; that it never happens is part of the properties of the
  code that stores.
\<close>

section \<open>Loads and stores\<close>

definition get16 :: "bytes \<Rightarrow> nat \<Rightarrow> u16" where
  "get16 p n = le16 (p ! n) (p ! (n + 1))"

definition get32 :: "bytes \<Rightarrow> nat \<Rightarrow> u32" where
  "get32 p n = le32 (get16 p n) (get16 p (n + 2))"

definition put16 :: "bytes \<Rightarrow> nat \<Rightarrow> u16 \<Rightarrow> bytes" where
  "put16 p n v = p[n := lo8 v, n + 1 := hi8 v]"

definition put32 :: "bytes \<Rightarrow> nat \<Rightarrow> u32 \<Rightarrow> bytes" where
  "put32 p n v = put16 (put16 p n (lo16 v)) (n + 2) (hi16 v)"

text \<open>\<^verbatim>\<open>memcpy\<close> into the frame.\<close>

fun put_bytes :: "bytes \<Rightarrow> nat \<Rightarrow> bytes \<Rightarrow> bytes" where
  "put_bytes p n [] = p"
| "put_bytes p n (x # xs) = put_bytes (p[n := x]) (n + 1) xs"

definition sub :: "bytes \<Rightarrow> nat \<Rightarrow> nat \<Rightarrow> bytes" where
  "sub p n k = take k (drop n p)"

section \<open>Ethernet, ARP\<close>

definition eth_dst_mac :: "bytes \<Rightarrow> mac_addr" where "eth_dst_mac p = sub p 0 6"
definition eth_src_mac :: "bytes \<Rightarrow> mac_addr" where "eth_src_mac p = sub p 6 6"
definition eth_type :: "bytes \<Rightarrow> u16" where "eth_type p = ntohs (get16 p 12)"
definition set_dst_mac :: "mac_addr \<Rightarrow> bytes \<Rightarrow> bytes" where "set_dst_mac m p = put_bytes p 0 m"
definition set_src_mac :: "mac_addr \<Rightarrow> bytes \<Rightarrow> bytes" where "set_src_mac m p = put_bytes p 6 m"
definition set_ether_type :: "u16 \<Rightarrow> bytes \<Rightarrow> bytes" where "set_ether_type t p = put16 p 12 (htons t)"
definition is_ipv4 :: "bytes \<Rightarrow> bool" where "is_ipv4 p \<longleftrightarrow> eth_type p = 0x0800"
definition is_arp :: "bytes \<Rightarrow> bool" where "is_arp p \<longleftrightarrow> eth_type p = 0x0806"
definition is_broadcast :: "bytes \<Rightarrow> bool" where "is_broadcast p \<longleftrightarrow> eth_dst_mac p = replicate 6 0xFF"
definition swap_mac :: "bytes \<Rightarrow> bytes" where
  "swap_mac p = (let tmp = eth_dst_mac p in set_src_mac tmp (set_dst_mac (eth_src_mac p) p))"

text \<open>The ARP header starts at offset 14.\<close>

definition arp_operation :: "bytes \<Rightarrow> u16" where "arp_operation p = ntohs (get16 p 20)"
definition arp_sender_mac :: "bytes \<Rightarrow> mac_addr" where "arp_sender_mac p = sub p 22 6"
definition arp_sender_ip :: "bytes \<Rightarrow> ipv4_addr" where "arp_sender_ip p = get32 p 28"
definition arp_target_mac :: "bytes \<Rightarrow> mac_addr" where "arp_target_mac p = sub p 32 6"
definition arp_target_ip :: "bytes \<Rightarrow> ipv4_addr" where "arp_target_ip p = get32 p 38"
definition arp_is_request :: "bytes \<Rightarrow> bool" where "arp_is_request p \<longleftrightarrow> arp_operation p = 1"
definition arp_is_reply :: "bytes \<Rightarrow> bool" where "arp_is_reply p \<longleftrightarrow> arp_operation p = 2"
definition is_eth_ipv4 :: "bytes \<Rightarrow> bool" where
  "is_eth_ipv4 p \<longleftrightarrow> ntohs (get16 p 14) = 1 \<and> ntohs (get16 p 16) = 0x0800 \<and> p ! 18 = 6 \<and> p ! 19 = 4"

definition make_reply :: "mac_addr \<Rightarrow> bytes \<Rightarrow> bytes" where
  "make_reply local_mac p =
     (let local_ip = arp_target_ip p;
          p = set_dst_mac (arp_sender_mac p) p;
          p = set_src_mac local_mac p;
          p = put16 p 20 (htons 2);
          p = put_bytes p 32 (arp_sender_mac p);
          p = put32 p 38 (arp_sender_ip p);
          p = put_bytes p 22 local_mac
      in put32 p 28 local_ip)"

definition build_request :: "ipv4_addr \<Rightarrow> ipv4_addr \<Rightarrow> mac_addr \<Rightarrow> bytes \<Rightarrow> bytes \<times> nat" where
  "build_request target_ip local_ip local_mac p =
     (let p = put_bytes p 0 (replicate 6 0xFF);
          p = put_bytes p 6 local_mac;
          p = set_ether_type 0x0806 p;
          p = put16 p 14 (htons 1);
          p = put16 p 16 (htons 0x0800);
          p = p[18 := 6];
          p = p[19 := 4];
          p = put16 p 20 (htons 1);
          p = put_bytes p 22 local_mac;
          p = put32 p 28 local_ip;
          p = put_bytes p 32 (replicate 6 0)
      in (put32 p 38 target_ip, 42))"

definition build_gratuitous :: "ipv4_addr \<Rightarrow> mac_addr \<Rightarrow> bytes \<Rightarrow> bytes \<times> nat" where
  "build_gratuitous local_ip local_mac p = build_request local_ip local_ip local_mac p"

section \<open>IPv4, TCP, UDP, ICMP\<close>

text \<open>The header is at offset \<open>b\<close>.\<close>

definition ip_version :: "bytes \<Rightarrow> nat \<Rightarrow> u8" where "ip_version p b = drop_bit 4 (p ! b) AND 0x0F"
definition ip_header_len :: "bytes \<Rightarrow> nat \<Rightarrow> nat" where "ip_header_len p b = unat (p ! b AND 0x0F) * 4"
definition ip_total_length :: "bytes \<Rightarrow> nat \<Rightarrow> nat" where "ip_total_length p b = unat (ntohs (get16 p (b + 2)))"
definition ip_flags_fragment :: "bytes \<Rightarrow> nat \<Rightarrow> u16" where "ip_flags_fragment p b = ntohs (get16 p (b + 6))"
definition ip_ttl :: "bytes \<Rightarrow> nat \<Rightarrow> u8" where "ip_ttl p b = p ! (b + 8)"
definition ip_protocol :: "bytes \<Rightarrow> nat \<Rightarrow> u8" where "ip_protocol p b = p ! (b + 9)"
definition ip_src :: "bytes \<Rightarrow> nat \<Rightarrow> ipv4_addr" where "ip_src p b = get32 p (b + 12)"
definition ip_dst :: "bytes \<Rightarrow> nat \<Rightarrow> ipv4_addr" where "ip_dst p b = get32 p (b + 16)"
definition set_total_length :: "nat \<Rightarrow> bytes \<Rightarrow> nat \<Rightarrow> bytes" where
  "set_total_length n p b = put16 p (b + 2) (htons (word_of_nat n))"
definition ip_is_tcp :: "bytes \<Rightarrow> nat \<Rightarrow> bool" where "ip_is_tcp p b \<longleftrightarrow> ip_protocol p b = 6"
definition ip_is_udp :: "bytes \<Rightarrow> nat \<Rightarrow> bool" where "ip_is_udp p b \<longleftrightarrow> ip_protocol p b = 17"
definition ip_is_icmp :: "bytes \<Rightarrow> nat \<Rightarrow> bool" where "ip_is_icmp p b \<longleftrightarrow> ip_protocol p b = 1"
definition swap_ip :: "bytes \<Rightarrow> nat \<Rightarrow> bytes" where
  "swap_ip p b = (let tmp = ip_src p b; p = put32 p (b + 12) (ip_dst p b) in put32 p (b + 16) tmp)"

text \<open>TCP and UDP begin with the two ports, in network byte order.\<close>

definition l4_src_port :: "bytes \<Rightarrow> nat \<Rightarrow> port_be" where "l4_src_port p b = get16 p b"
definition l4_dst_port :: "bytes \<Rightarrow> nat \<Rightarrow> port_be" where "l4_dst_port p b = get16 p (b + 2)"
definition tcp_flags :: "bytes \<Rightarrow> nat \<Rightarrow> u8" where "tcp_flags p b = p ! (b + 13)"
definition tcp_header_len :: "bytes \<Rightarrow> nat \<Rightarrow> nat" where
  "tcp_header_len p b = unat (drop_bit 4 (p ! (b + 12)) AND 0x0F) * 4"
definition tcp_set_header_len :: "nat \<Rightarrow> bytes \<Rightarrow> nat \<Rightarrow> bytes" where
  "tcp_set_header_len n p b = p[b + 12 := push_bit 4 (word_of_nat (n div 4)) OR (p ! (b + 12) AND 0x0F)]"
definition udp_length :: "bytes \<Rightarrow> nat \<Rightarrow> nat" where "udp_length p b = unat (ntohs (get16 p (b + 4)))"

definition icmp_is_error :: "u8 \<Rightarrow> bool" where
  "icmp_is_error t \<longleftrightarrow> t = 3 \<or> t = 11 \<or> t = 12"

definition TCPOPT_EOL :: u8 where "TCPOPT_EOL = 0"
definition TCPOPT_NOP :: u8 where "TCPOPT_NOP = 1"
definition TCPOPT_TIMESTAMP :: u8 where "TCPOPT_TIMESTAMP = 8"
definition TCPOPT_TOA :: u8 where "TCPOPT_TOA = 254"
definition TCPOLEN_TOA :: nat where "TCPOLEN_TOA = 8"

section \<open>Lemmas\<close>

lemma length_put16 [simp]: "length (put16 p n v) = length p"
  by (simp add: put16_def)

lemma length_put32 [simp]: "length (put32 p n v) = length p"
  by (simp add: put32_def)

lemma length_put_bytes [simp]: "length (put_bytes p n xs) = length p"
  by (induction xs arbitrary: p n) simp_all

lemma nth_put16:
  "n + 1 < length p \<Longrightarrow> put16 p n v ! i = (if i = n then lo8 v else if i = n + 1 then hi8 v else p ! i)"
  by (simp add: put16_def nth_list_update)

lemma nth_put16_other [simp]: "i \<noteq> n \<Longrightarrow> i \<noteq> n + 1 \<Longrightarrow> put16 p n v ! i = p ! i"
  by (simp add: put16_def)

lemma nth_put32_other [simp]: "i < n \<or> n + 4 \<le> i \<Longrightarrow> put32 p n v ! i = p ! i"
  by (auto simp: put32_def put16_def)

lemma nth_put_bytes:
  "n + length xs \<le> length p \<Longrightarrow>
   put_bytes p n xs ! i = (if n \<le> i \<and> i < n + length xs then xs ! (i - n) else p ! i)"
proof (induction xs arbitrary: p n)
  case (Cons x xs)
  have "put_bytes p n (x # xs) ! i =
      (if n + 1 \<le> i \<and> i < n + 1 + length xs then xs ! (i - (n + 1)) else p[n := x] ! i)"
    using Cons.IH [of "n + 1" "p[n := x]"] Cons.prems by simp
  also have "\<dots> = (if n \<le> i \<and> i < n + length (x # xs) then (x # xs) ! (i - n) else p ! i)"
    using Cons.prems by (cases "i = n") (auto simp: nth_Cons' nth_list_update)
  finally show ?case .
qed auto

lemma nth_put_bytes_other [simp]: "i < n \<or> n + length xs \<le> i \<Longrightarrow> put_bytes p n xs ! i = p ! i"
  by (induction xs arbitrary: p n) auto

lemma get16_put16 [simp]: "n + 1 < length p \<Longrightarrow> get16 (put16 p n v) n = v"
  by (simp add: get16_def nth_put16 byte_simps)

lemma get16_put16_other [simp]: "m + 1 < n \<or> n + 1 < m \<Longrightarrow> get16 (put16 p n v) m = get16 p m"
  by (auto simp: get16_def)

lemma get16_put32_other [simp]: "m + 1 < n \<or> n + 3 < m \<Longrightarrow> get16 (put32 p n v) m = get16 p m"
  by (auto simp: put32_def)

lemma get32_put32 [simp]: "n + 3 < length p \<Longrightarrow> get32 (put32 p n v) n = v"
  by (simp add: get32_def put32_def byte_simps)

lemma get32_put16_other [simp]: "m + 3 < n \<or> n + 1 < m \<Longrightarrow> get32 (put16 p n v) m = get32 p m"
  by (auto simp: get32_def)

lemma get32_put32_other [simp]: "m + 3 < n \<or> n + 3 < m \<Longrightarrow> get32 (put32 p n v) m = get32 p m"
  by (auto simp: get32_def)

lemma get16_put_bytes_other [simp]:
  "m + 1 < n \<or> n + length xs \<le> m \<Longrightarrow> get16 (put_bytes p n xs) m = get16 p m"
  by (auto simp: get16_def)

lemma get32_put_bytes_other [simp]:
  "m + 3 < n \<or> n + length xs \<le> m \<Longrightarrow> get32 (put_bytes p n xs) m = get32 p m"
  by (auto simp: get32_def)

lemma length_sub [simp]: "n + k \<le> length p \<Longrightarrow> length (sub p n k) = k"
  by (simp add: sub_def)

lemma nth_sub [simp]: "n + k \<le> length p \<Longrightarrow> i < k \<Longrightarrow> sub p n k ! i = p ! (n + i)"
  by (simp add: sub_def)

lemma sub_put_bytes [simp]:
  "n + length xs \<le> length p \<Longrightarrow> length xs = k \<Longrightarrow> sub (put_bytes p n xs) n k = xs"
  by (rule nth_equalityI) (simp_all add: nth_put_bytes)

lemma sub_cong:
  "length p = length q \<Longrightarrow> n + k \<le> length p \<Longrightarrow> (\<And>i. n \<le> i \<Longrightarrow> i < n + k \<Longrightarrow> p ! i = q ! i) \<Longrightarrow> sub p n k = sub q n k"
  by (rule nth_equalityI) simp_all

lemma sub_put_bytes_other [simp]:
  "n + k \<le> length p \<Longrightarrow> n + k \<le> m \<or> m + length xs \<le> n \<Longrightarrow> sub (put_bytes p m xs) n k = sub p n k"
  by (rule sub_cong) auto

lemma sub_put16_other [simp]:
  "n + k \<le> length p \<Longrightarrow> n + k \<le> m \<or> m + 2 \<le> n \<Longrightarrow> sub (put16 p m v) n k = sub p n k"
  by (rule sub_cong) auto

lemma sub_put32_other [simp]:
  "n + k \<le> length p \<Longrightarrow> n + k \<le> m \<or> m + 4 \<le> n \<Longrightarrow> sub (put32 p m v) n k = sub p n k"
  by (rule sub_cong) auto

lemma sub_update_other [simp]:
  "n + k \<le> length p \<Longrightarrow> n + k \<le> m \<or> m < n \<Longrightarrow> sub (p[m := v]) n k = sub p n k"
  by (rule sub_cong) auto

lemma get16_update_other [simp]: "i \<noteq> n \<Longrightarrow> i \<noteq> n + 1 \<Longrightarrow> get16 (p[i := v]) n = get16 p n"
  by (simp add: get16_def)

lemma get32_update_other [simp]: "i < n \<or> n + 3 < i \<Longrightarrow> get32 (p[i := v]) n = get32 p n"
  by (auto simp: get32_def)

section \<open>Properties\<close>

text \<open>C20: An ARP request turned into a reply in place answers the sender: it is addressed to the
  sender's hardware address, claims the address that was asked for with our hardware address, names
  the sender as target, and is a reply.\<close>

theorem arp_reply_answers:
  assumes "42 \<le> length p" "length local_mac = 6"
  shows "arp_is_reply (make_reply local_mac p) \<and>
    eth_dst_mac (make_reply local_mac p) = arp_sender_mac p \<and> eth_src_mac (make_reply local_mac p) = local_mac \<and>
    arp_sender_mac (make_reply local_mac p) = local_mac \<and> arp_sender_ip (make_reply local_mac p) = arp_target_ip p \<and>
    arp_target_mac (make_reply local_mac p) = arp_sender_mac p \<and> arp_target_ip (make_reply local_mac p) = arp_sender_ip p"
  using assms
  by (simp add: make_reply_def Let_def arp_is_reply_def arp_operation_def eth_dst_mac_def eth_src_mac_def
      arp_sender_mac_def arp_sender_ip_def arp_target_mac_def arp_target_ip_def set_dst_mac_def set_src_mac_def)

definition demo_arp :: bytes where
  "demo_arp = fst (build_request 0x0100000A 0x0200000A [2, 0, 0, 0, 0, 1] (replicate 42 0))"

theorem arp_reply_answers_witness:
  "arp_is_reply (make_reply [2, 0, 0, 0, 0, 9] demo_arp) \<and>
   arp_sender_mac (make_reply [2, 0, 0, 0, 0, 9] demo_arp) = [2, 0, 0, 0, 0, 9]"
  using arp_reply_answers [of demo_arp "[2, 0, 0, 0, 0, 9]"]
  by (simp add: demo_arp_def build_request_def Let_def set_ether_type_def)

text \<open>A built ARP request parses back: it is an Ethernet/IPv4 ARP request, broadcast, with the
  addresses it was built from.\<close>

lemma arp_request_roundtrip:
  assumes "42 \<le> length buf" "length local_mac = 6"
    and "build_request target_ip local_ip local_mac buf = (p, n)"
  shows "n = 42 \<and> is_arp p \<and> is_broadcast p \<and> is_eth_ipv4 p \<and> arp_is_request p \<and>
    eth_src_mac p = local_mac \<and> arp_sender_mac p = local_mac \<and> arp_sender_ip p = local_ip \<and>
    arp_target_ip p = target_ip \<and> mac_is_zero (arp_target_mac p)"
  using assms
  by (auto simp: build_request_def Let_def is_arp_def eth_type_def is_broadcast_def is_eth_ipv4_def
      arp_is_request_def arp_operation_def eth_dst_mac_def eth_src_mac_def arp_sender_mac_def
      arp_sender_ip_def arp_target_mac_def arp_target_ip_def set_ether_type_def mac_is_zero_def list_all_iff)

end
