(* ===== verification/Checksum.thy ===== *)
theory Checksum
  imports Packet
begin

text \<open>
  The Internet checksum of \<^verbatim>\<open>include/protocol/checksum.h\<close>, \<^verbatim>\<open>src/protocol/checksum.cpp\<close> and
  \<^verbatim>\<open>src/protocol/icmp.cpp\<close>: the full computation, the incremental update, and the routines that
  write checksums into a frame. The accumulators are 32-bit words, which wrap. The lemmas relate
  them to the sum of the 16-bit words over the natural numbers, modulo 65535.
\<close>

section \<open>The code\<close>

text \<open>\<^verbatim>\<open>while (sum >> 16) sum = (sum & 0xFFFF) + (sum >> 16)\<close>\<close>

lemma unat_low: "unat (s AND 0xFFFF :: u32) = unat s mod 65536"
proof -
  have "s AND 0xFFFF = take_bit 16 s"
    by (simp add: take_bit_eq_mask mask_eq_exp_minus_1)
  then show ?thesis by (simp only: unsigned_take_bit_eq) (simp add: take_bit_eq_mod)
qed

lemma unat_high: "unat (drop_bit 16 s :: u32) = unat s div 65536"
  by (simp only: unsigned_drop_bit_eq) (simp add: take_bit_nat_eq_self drop_bit_eq_div)

lemma unat_fold_step:
  "unat ((s AND 0xFFFF) + drop_bit 16 s :: u32) = unat s mod 65536 + unat s div 65536"
proof -
  have "unat s < 4294967296" by simp
  then have "unat s mod 65536 + unat s div 65536 < 4294967296"
    using mod_less_divisor [of 65536 "unat s"] by linarith
  then show ?thesis
    by (simp only: unat_word_ariths(1) unat_low unat_high) simp
qed

function fold_carry :: "u32 \<Rightarrow> u32" where
  "fold_carry s = (if drop_bit 16 s \<noteq> 0 then fold_carry ((s AND 0xFFFF) + drop_bit 16 s) else s)"
  by auto

lemma high_zero: "drop_bit 16 (s :: u32) = 0 \<longleftrightarrow> unat s < 65536"
proof -
  have "drop_bit 16 s = 0 \<longleftrightarrow> unat (drop_bit 16 s) = 0"
    by (simp only: unsigned_eq_0_iff)
  then show ?thesis by (simp only: unat_high) (simp add: div_eq_0_iff)
qed

termination fold_carry
proof (relation "measure unat")
  fix s :: u32
  assume "drop_bit 16 s \<noteq> 0"
  then have "65536 \<le> unat s" by (simp add: high_zero not_less)
  moreover have "unat s mod 65536 + 65536 * (unat s div 65536) = unat s" by simp
  ultimately have "unat s mod 65536 + unat s div 65536 < unat s" by linarith
  then show "((s AND 0xFFFF) + drop_bit 16 s, s) \<in> measure unat"
    by (simp only: in_measure unat_fold_step)
qed simp

declare fold_carry.simps [simp del]

fun sum_words :: "u32 \<Rightarrow> bytes \<Rightarrow> u32" where
  "sum_words s (a # b # xs) = sum_words (s + ucast (le16 a b)) xs"
| "sum_words s [a] = s + ucast a"
| "sum_words s [] = s"

definition calculate :: "bytes \<Rightarrow> u16" where
  "calculate xs = ucast (NOT (fold_carry (sum_words 0 xs)))"

definition icmp_calculate_checksum :: "bytes \<Rightarrow> u16" where
  "icmp_calculate_checksum xs = ucast (NOT (fold_carry (sum_words 0 xs)))"

definition ip_update :: "bytes \<Rightarrow> nat \<Rightarrow> bytes" where
  "ip_update p b = (let p = put16 p (b + 10) 0 in put16 p (b + 10) (calculate (sub p b (ip_header_len p b))))"

definition recalculate_ip_checksum :: "bytes \<Rightarrow> nat \<Rightarrow> bytes" where
  "recalculate_ip_checksum p b =
     (let p = put16 p (b + 10) 0 in put16 p (b + 10) (calculate (sub p b (ip_header_len p b))))"

definition incremental_update :: "u16 \<Rightarrow> u16 \<Rightarrow> u16 \<Rightarrow> u16" where
  "incremental_update old_sum old_val new_val =
     ucast (NOT (fold_carry (ucast (NOT old_sum) + ucast (NOT old_val) + ucast new_val)))"

text \<open>The TCP header is at offset \<open>b\<close> and its checksum at \<open>b + 16\<close>; the UDP checksum at \<open>b + 6\<close>.\<close>

definition update_tcp_checksum_ip :: "bytes \<Rightarrow> nat \<Rightarrow> ipv4_addr \<Rightarrow> ipv4_addr \<Rightarrow> bytes" where
  "update_tcp_checksum_ip p b old_ip new_ip =
     (let p = put16 p (b + 16) (incremental_update (get16 p (b + 16)) (hi16 old_ip) (hi16 new_ip))
      in put16 p (b + 16) (incremental_update (get16 p (b + 16)) (lo16 old_ip) (lo16 new_ip)))"

definition update_tcp_checksum_port :: "bytes \<Rightarrow> nat \<Rightarrow> port_be \<Rightarrow> port_be \<Rightarrow> bytes" where
  "update_tcp_checksum_port p b old_port new_port =
     put16 p (b + 16) (incremental_update (get16 p (b + 16)) old_port new_port)"

definition update_udp_checksum_ip :: "bytes \<Rightarrow> nat \<Rightarrow> ipv4_addr \<Rightarrow> ipv4_addr \<Rightarrow> bytes" where
  "update_udp_checksum_ip p b old_ip new_ip =
     (if get16 p (b + 6) = 0 then p
      else let p = put16 p (b + 6) (incremental_update (get16 p (b + 6)) (hi16 old_ip) (hi16 new_ip));
               p = put16 p (b + 6) (incremental_update (get16 p (b + 6)) (lo16 old_ip) (lo16 new_ip))
           in if get16 p (b + 6) = 0 then put16 p (b + 6) 0xFFFF else p)"

definition update_udp_checksum_port :: "bytes \<Rightarrow> nat \<Rightarrow> port_be \<Rightarrow> port_be \<Rightarrow> bytes" where
  "update_udp_checksum_port p b old_port new_port =
     (if get16 p (b + 6) = 0 then p
      else let p = put16 p (b + 6) (incremental_update (get16 p (b + 6)) old_port new_port)
           in if get16 p (b + 6) = 0 then put16 p (b + 6) 0xFFFF else p)"

definition calculate_pseudo_header_sum :: "ipv4_addr \<Rightarrow> ipv4_addr \<Rightarrow> u8 \<Rightarrow> u16 \<Rightarrow> u32" where
  "calculate_pseudo_header_sum sip dip proto len =
     0 + (ucast (hi16 sip) + ucast (lo16 sip)) + (ucast (hi16 dip) + ucast (lo16 dip)) +
     ucast (htons (ucast proto)) + ucast (htons len)"

text \<open>The IP header is at offset \<open>b\<close>, the transport header at \<open>l4\<close>.\<close>

definition recalculate_tcp_checksum :: "bytes \<Rightarrow> nat \<Rightarrow> nat \<Rightarrow> nat \<Rightarrow> bytes" where
  "recalculate_tcp_checksum p b l4 tcp_len =
     (let p = put16 p (l4 + 16) 0;
          s = calculate_pseudo_header_sum (ip_src p b) (ip_dst p b) (ip_protocol p b) (word_of_nat tcp_len)
      in put16 p (l4 + 16) (ucast (NOT (fold_carry (sum_words s (sub p l4 tcp_len))))))"

definition recalculate_udp_checksum :: "bytes \<Rightarrow> nat \<Rightarrow> nat \<Rightarrow> bytes" where
  "recalculate_udp_checksum p b l4 =
     (let p = put16 p (l4 + 6) 0;
          udp_len = udp_length p l4;
          s = calculate_pseudo_header_sum (ip_src p b) (ip_dst p b) (ip_protocol p b) (word_of_nat udp_len);
          p = put16 p (l4 + 6) (ucast (NOT (fold_carry (sum_words s (sub p l4 udp_len)))))
      in if get16 p (l4 + 6) = 0 then put16 p (l4 + 6) 0xFFFF else p)"

text \<open>The reply has the length of the request; the header is at offset \<open>b\<close>.\<close>

definition icmp_is_echo_request :: "bytes \<Rightarrow> nat \<Rightarrow> bool" where
  "icmp_is_echo_request p b \<longleftrightarrow> p ! b = 8"

definition handle_echo_request :: "bytes \<Rightarrow> nat \<Rightarrow> nat \<Rightarrow> bool \<times> bytes" where
  "handle_echo_request p b icmp_len =
     (if \<not> icmp_is_echo_request p b then (False, p)
      else let p = p[b := 0];
               p = p[b + 1 := 0];
               p = put16 p (b + 2) 0
           in (True, put16 p (b + 2) (icmp_calculate_checksum (sub p b icmp_len))))"

section \<open>Sums modulo 65535\<close>

fun nsum :: "bytes \<Rightarrow> nat" where
  "nsum (a # b # xs) = unat (le16 a b) + nsum xs"
| "nsum [a] = unat a"
| "nsum [] = 0"

definition csum :: "nat \<Rightarrow> nat" where
  "csum n = (if n = 0 then 0 else if n mod 65535 = 0 then 65535 else n mod 65535)"

lemma csum_less [simp]: "csum n < 65536"
  using mod_less_divisor [of 65535 n] unfolding csum_def by auto

lemma csum_small: "n < 65536 \<Longrightarrow> csum n = n"
  by (cases "n = 65535") (auto simp: csum_def)

lemma csum_mod: "csum n mod 65535 = n mod 65535"
  by (simp add: csum_def)

lemma csum_zero [simp]: "csum n = 0 \<longleftrightarrow> n = 0"
  by (simp add: csum_def)

lemma csum_eq: "a mod 65535 = b mod 65535 \<Longrightarrow> a = 0 \<longleftrightarrow> b = 0 \<Longrightarrow> csum a = csum b"
  by (simp add: csum_def)

lemma csum_full: "csum n = 65535 \<longleftrightarrow> 0 < n \<and> n mod 65535 = 0"
  using mod_less_divisor [of 65535 n] unfolding csum_def by auto

lemma csum_step: "csum (n mod 65536 + n div 65536) = csum n"
proof (rule csum_eq)
  have "n = (n mod 65536 + n div 65536) + 65535 * (n div 65536)"
    using div_mult_mod_eq [of n 65536] by linarith
  then show "(n mod 65536 + n div 65536) mod 65535 = n mod 65535"
    by (metis mod_mult_self2)
  show "n mod 65536 + n div 65536 = 0 \<longleftrightarrow> n = 0"
    using div_mult_mod_eq [of n 65536] by auto
qed

lemma unat_fold_carry: "unat (fold_carry s) = csum (unat s)"
proof (induction s rule: fold_carry.induct)
  case (1 s)
  show ?case
  proof (cases "drop_bit 16 s = 0")
    case True
    then show ?thesis by (subst fold_carry.simps) (simp add: high_zero csum_small)
  next
    case False
    have "unat (fold_carry s) = unat (fold_carry ((s AND 0xFFFF) + drop_bit 16 s))"
      using False by (subst fold_carry.simps) simp
    also have "\<dots> = csum (unat s)"
      using 1 [OF False] by (simp only: unat_fold_step csum_step)
    finally show ?thesis .
  qed
qed

lemma unat_not16: "unat (NOT w :: u16) = 65535 - unat w"
proof -
  have "NOT w = - 1 - w" by (simp add: not_eq_complement)
  then have "unat (NOT w) = unat (- 1 :: u16) - unat w" by (simp only: unat_sub word_order.extremum)
  then show ?thesis by (simp add: unsigned_minus_1_eq_mask mask_eq_exp_minus_1)
qed

lemma ucast_not: "ucast (NOT s :: u32) = (NOT (ucast s) :: u16)"
  by (rule bit_word_eqI) (auto simp: bit_simps)

lemma unat_finish: "unat (ucast (NOT (fold_carry s)) :: u16) = 65535 - csum (unat s)"
proof -
  have "unat (ucast (fold_carry s) :: u16) = csum (unat s)"
    by (simp add: unsigned_ucast_eq take_bit_nat_eq_self unat_fold_carry)
  then show ?thesis by (simp only: ucast_not unat_not16)
qed

lemma unat_up16 [simp]: "unat (ucast (w :: u16) :: u32) = unat w"
  using unat_u16 [of w] by (simp only: unsigned_ucast_eq) (simp add: take_bit_nat_eq_self_iff del: unat_u8 unat_u16)

lemma unat_up8 [simp]: "unat (ucast (w :: u8) :: u32) = unat w"
  using unat_u8 [of w] by (simp only: unsigned_ucast_eq) (simp add: take_bit_nat_eq_self_iff del: unat_u8 unat_u16)

lemma unat_up8_16 [simp]: "unat (ucast (w :: u8) :: u16) = unat w"
  using unat_u8 [of w] by (simp only: unsigned_ucast_eq) (simp add: take_bit_nat_eq_self_iff del: unat_u8 unat_u16)

lemma nsum_bound: "2 * nsum xs \<le> 65535 * (length xs + 1)"
proof (induction xs rule: nsum.induct)
  case (1 a b xs)
  then show ?case using unat_u16 [of "le16 a b"] by (simp del: unat_u16)
next
  case (2 a)
  show ?case using unat_u8 [of a] by (simp del: unat_u8)
qed simp

lemma unat_add32: "unat a + unat b < 4294967296 \<Longrightarrow> unat (a + b :: u32) = unat a + unat b"
  by (simp add: unat_word_ariths(1))

lemma unat_sum_words:
  "unat s + nsum xs < 4294967296 \<Longrightarrow> unat (sum_words s xs) = unat s + nsum xs"
proof (induction s xs rule: sum_words.induct)
  case (1 s a b xs)
  have "unat (s + ucast (le16 a b)) = unat s + unat (le16 a b)"
    using "1.prems" unat_add32 [of s "ucast (le16 a b)"] by simp
  then show ?case using 1 by simp
next
  case (2 s a)
  then show ?case using unat_add32 [of s "ucast a"] by simp
qed simp

lemma unat_calculate: "length xs \<le> 131068 \<Longrightarrow> unat (calculate xs) = 65535 - csum (nsum xs)"
  using nsum_bound [of xs] by (simp add: calculate_def unat_finish unat_sum_words)

lemma icmp_calculate_eq: "icmp_calculate_checksum = calculate"
  by (simp add: fun_eq_iff icmp_calculate_checksum_def calculate_def)

lemma unat_incremental:
  "unat (incremental_update c m m') =
     65535 - csum ((65535 - unat c) + (65535 - unat m) + unat m')"
proof -
  have "unat (ucast (NOT c) + ucast (NOT m) :: u32) = (65535 - unat c) + (65535 - unat m)"
    using unat_add32 [of "ucast (NOT c)" "ucast (NOT m)"] by (simp add: unat_not16)
  moreover have "(65535 - unat c) + (65535 - unat m) + unat m' < 4294967296"
    using unat_u16 [of m'] by linarith
  ultimately have "unat (ucast (NOT c) + ucast (NOT m) + ucast m' :: u32) =
      (65535 - unat c) + (65535 - unat m) + unat m'"
    using unat_add32 [of "ucast (NOT c) + ucast (NOT m)" "ucast m'"] by simp
  then show ?thesis by (simp only: incremental_update_def unat_finish)
qed

lemma unat_add_up16: "unat x < 1000000 \<Longrightarrow> unat (x + ucast (w :: u16) :: u32) = unat x + unat w"
  using unat_add32 [of x "ucast w"] unat_u16 [of w] by (simp del: unat_u16)

lemma unat_pseudo:
  "unat (calculate_pseudo_header_sum a d pr n) =
     unat (hi16 a) + unat (lo16 a) + (unat (hi16 d) + unat (lo16 d)) + unat (htons (ucast pr)) + unat (htons n)"
proof -
  have [simp]: "unat w < k" if "65536 \<le> k" for w :: u16 and k
    using that unat_u16 [of w] by linarith
  have b: "unat w \<le> 65535" for w :: u16 using unat_u16 [of w] by linarith
  note bs = b [of "hi16 a"] b [of "lo16 a"] b [of "hi16 d"] b [of "lo16 d"] b [of "htons (ucast pr)"]
  have eq: "calculate_pseudo_header_sum a d pr n = 
      ucast (hi16 a) + ucast (lo16 a) + ucast (hi16 d) + ucast (lo16 d) + ucast (htons (ucast pr)) + ucast (htons n)"
    by (simp add: calculate_pseudo_header_sum_def add.assoc)
  have 1: "unat (ucast (hi16 a) + ucast (lo16 a) :: u32) = unat (hi16 a) + unat (lo16 a)"
    by (simp add: unat_add_up16)
  have 2: "unat (ucast (hi16 a) + ucast (lo16 a) + ucast (hi16 d) :: u32) = unat (hi16 a) + unat (lo16 a) + unat (hi16 d)"
    using bs by (subst unat_add_up16) (simp_all only: 1)
  have 3: "unat (ucast (hi16 a) + ucast (lo16 a) + ucast (hi16 d) + ucast (lo16 d) :: u32) =
      unat (hi16 a) + unat (lo16 a) + unat (hi16 d) + unat (lo16 d)"
    using bs by (subst unat_add_up16) (simp_all only: 2)
  have 4: "unat (ucast (hi16 a) + ucast (lo16 a) + ucast (hi16 d) + ucast (lo16 d) + ucast (htons (ucast pr)) :: u32) =
      unat (hi16 a) + unat (lo16 a) + unat (hi16 d) + unat (lo16 d) + unat (htons (ucast pr))"
    using bs by (subst unat_add_up16) (simp_all only: 3)
  show ?thesis
    unfolding eq using bs by (subst unat_add_up16) (simp_all only: 4)
qed

section \<open>What a receiver accepts\<close>

text \<open>A receiver sums the data with the checksum in it; the folded sum must be 0xFFFF.\<close>

definition valid_sum :: "nat \<Rightarrow> bool" where
  "valid_sum n \<longleftrightarrow> 0 < n \<and> n mod 65535 = 0"

definition l4_sum :: "bytes \<Rightarrow> nat \<Rightarrow> nat \<Rightarrow> nat \<Rightarrow> u32" where
  "l4_sum p b l4 n =
     sum_words (calculate_pseudo_header_sum (ip_src p b) (ip_dst p b) (ip_protocol p b) (word_of_nat n)) (sub p l4 n)"

definition l4_accepts :: "bytes \<Rightarrow> nat \<Rightarrow> nat \<Rightarrow> nat \<Rightarrow> bool" where
  "l4_accepts p b l4 n \<longleftrightarrow> ucast (NOT (fold_carry (l4_sum p b l4 n))) = (0 :: u16)"

definition pseudo :: "bytes \<Rightarrow> nat \<Rightarrow> nat \<Rightarrow> nat" where
  "pseudo p b n = unat (calculate_pseudo_header_sum (ip_src p b) (ip_dst p b) (ip_protocol p b) (word_of_nat n))"

lemma finish_zero: "(ucast (NOT (fold_carry s)) :: u16) = 0 \<longleftrightarrow> valid_sum (unat s)"
proof -
  have "(ucast (NOT (fold_carry s)) :: u16) = 0 \<longleftrightarrow> unat (ucast (NOT (fold_carry s)) :: u16) = 0"
    by (simp only: unsigned_eq_0_iff)
  also have "\<dots> \<longleftrightarrow> csum (unat s) = 65535"
    using csum_less [of "unat s"] by (simp only: unat_finish) linarith
  finally show ?thesis by (simp only: csum_full valid_sum_def)
qed

lemma calculate_zero: "length xs \<le> 131068 \<Longrightarrow> calculate xs = 0 \<longleftrightarrow> valid_sum (nsum xs)"
  using nsum_bound [of xs] by (simp add: calculate_def finish_zero unat_sum_words)

lemma pseudo_bound: "pseudo p b n < 393216"
  unfolding pseudo_def unat_pseudo
  using unat_u16 [of "hi16 (ip_src p b)"] unat_u16 [of "lo16 (ip_src p b)"] unat_u16 [of "hi16 (ip_dst p b)"]
    unat_u16 [of "lo16 (ip_dst p b)"] unat_u16 [of "htons (ucast (ip_protocol p b))"]
    unat_u16 [of "htons (word_of_nat n)"] by linarith

lemma unat_l4_sum:
  assumes "n \<le> 65535"
  shows "unat (l4_sum p b l4 n) = pseudo p b n + nsum (sub p l4 n)"
proof -
  have "length (sub p l4 n) + 1 \<le> 65536" using assms by (simp add: sub_def)
  then have "65535 * (length (sub p l4 n) + 1) \<le> 65535 * 65536" by (rule mult_le_mono2)
  then have "pseudo p b n + nsum (sub p l4 n) < 4294967296"
    using nsum_bound [of "sub p l4 n"] pseudo_bound [of p b n] assms by linarith
  then show ?thesis by (simp add: l4_sum_def pseudo_def unat_sum_words)
qed

lemma l4_accepts_iff: "n \<le> 65535 \<Longrightarrow> l4_accepts p b l4 n \<longleftrightarrow> valid_sum (pseudo p b n + nsum (sub p l4 n))"
  by (simp only: l4_accepts_def finish_zero unat_l4_sum)

lemma valid_complete: "valid_sum (n + (65535 - csum n))"
proof -
  have "n mod 65535 = csum n mod 65535" by (simp add: csum_mod)
  then have "(n + (65535 - csum n)) mod 65535 = (csum n + (65535 - csum n)) mod 65535"
    by (rule mod_add_cong) simp
  also have "csum n + (65535 - csum n) = 65535" using csum_less [of n] by linarith
  finally have "(n + (65535 - csum n)) mod 65535 = 0" by simp
  moreover have "0 < n + (65535 - csum n)" by (cases "n = 0") (simp add: csum_def, simp)
  ultimately show ?thesis by (simp only: valid_sum_def)
qed

lemma valid_incremental:
  assumes v: "valid_sum (r + unat m + unat c)" and r: "0 < r"
  shows "valid_sum (r + unat m' + unat (incremental_update c m m'))"
proof -
  define x where "x = (65535 - unat c) + (65535 - unat m) + unat m'"
  have b: "unat c \<le> 65535" "unat m \<le> 65535" "csum x \<le> 65535"
    using unat_u16 [of c] unat_u16 [of m] csum_less [of x] by linarith+
  have c': "unat (incremental_update c m m') = 65535 - csum x"
    by (simp only: unat_incremental x_def)
  have "int x mod 65535 = int (csum x) mod 65535"
    using csum_mod [of x] by (metis zmod_int of_nat_numeral)
  then have d1: "65535 dvd int x - int (csum x)" by (simp add: mod_eq_dvd_iff)
  have "65535 dvd r + unat m + unat c" using v by (simp only: valid_sum_def dvd_eq_mod_eq_0)
  then have "int 65535 dvd int (r + unat m + unat c)" by (simp only: int_dvd_int_iff)
  then have d2: "65535 dvd int r + int (unat m) + int (unat c)" by (simp only: of_nat_add of_nat_numeral)
  have "int (r + unat m' + (65535 - csum x)) =
      (int r + int (unat m) + int (unat c)) + (int x - int (csum x)) - 65535"
    using b by (simp add: x_def of_nat_diff)
  then have "65535 dvd int (r + unat m' + (65535 - csum x))"
    using d1 d2 by (metis dvd_add dvd_diff dvd_refl)
  then have "(r + unat m' + (65535 - csum x)) mod 65535 = 0"
    by (metis int_dvd_int_iff mod_0_imp_dvd dvd_imp_mod_0 of_nat_numeral)
  then show ?thesis using r unfolding valid_sum_def c' by auto
qed

text \<open>A sequence of incremental updates.\<close>

definition iu :: "u16 \<Rightarrow> (u16 \<times> u16) list \<Rightarrow> u16" where
  "iu c ms = foldl (\<lambda>c (m, m'). incremental_update c m m') c ms"

lemma iu_Nil [simp]: "iu c [] = c" and iu_Cons: "iu c ((m, m') # ms) = iu (incremental_update c m m') ms"
  by (simp_all add: iu_def)

lemma valid_iu:
  "valid_sum (r + sum_list (map (unat \<circ> fst) ms) + unat c) \<Longrightarrow> 0 < r \<Longrightarrow>
   valid_sum (r + sum_list (map (unat \<circ> snd) ms) + unat (iu c ms))"
proof (induction ms arbitrary: r c)
  case (Cons a ms)
  obtain m m' where a: "a = (m, m')" by (cases a)
  have "valid_sum ((r + sum_list (map (unat \<circ> fst) ms)) + unat m' + unat (incremental_update c m m'))"
    using Cons.prems by (intro valid_incremental) (simp_all add: a comp_def ac_simps)
  then show ?case
    using Cons.IH [of "r + unat m'" "incremental_update c m m'"] Cons.prems
    by (simp add: a iu_Cons comp_def ac_simps)
qed simp

section \<open>Sums of parts of a frame\<close>

lemma nsum_append: "even (length xs) \<Longrightarrow> nsum (xs @ ys) = nsum xs + nsum ys"
  by (induction xs rule: nsum.induct) simp_all

lemma sub_split:
  assumes "n + l \<le> length p" "k + 2 \<le> l"
  shows "sub p n l = sub p n k @ p ! (n + k) # p ! (n + k + 1) # sub p (n + k + 2) (l - k - 2)"
proof -
  have "drop (n + k) p = p ! (n + k) # p ! (n + k + 1) # drop (n + k + 2) p"
    using assms Cons_nth_drop_Suc [of "n + k" p] Cons_nth_drop_Suc [of "n + k + 1" p] by simp
  moreover have "sub p n l = take k (drop n p) @ take (l - k) (drop (n + k) p)"
    using assms take_add [of k "l - k" "drop n p"] by (simp add: sub_def ac_simps)
  moreover have "l - k = Suc (Suc (l - k - 2))" using assms by simp
  ultimately show ?thesis unfolding sub_def by (metis take_Suc_Cons)
qed

lemma nsum_split:
  assumes "n + l \<le> length p" "k + 2 \<le> l" "even k"
  shows "nsum (sub p n l) = nsum (sub p n k) + unat (get16 p (n + k)) + nsum (sub p (n + k + 2) (l - k - 2))"
  using assms by (simp add: sub_split [OF assms(1,2)] nsum_append get16_def)

lemma nsum_put16:
  assumes "n + l \<le> length p" "k + 2 \<le> l" "even k"
  shows "nsum (sub (put16 p (n + k) v) n l) + unat (get16 p (n + k)) = nsum (sub p n l) + unat v"
  using assms nsum_split [of n l "put16 p (n + k) v" k] nsum_split [of n l p k] by simp

lemma get16_le_nsum:
  "n + l \<le> length p \<Longrightarrow> k + 2 \<le> l \<Longrightarrow> even k \<Longrightarrow> unat (get16 p (n + k)) \<le> nsum (sub p n l)"
  using nsum_split [of n l p k] by simp

section \<open>Checksums written in full\<close>

lemma nsum_pos: "x \<in> set xs \<Longrightarrow> x \<noteq> 0 \<Longrightarrow> 0 < nsum xs"
  by (induction xs rule: nsum.induct) (auto simp: unat_le16 unat_gt_0)

lemma sub_all [simp]: "sub xs 0 (length xs) = xs"
  by (simp add: sub_def)

text \<open>Writing the IP checksum makes the header one that a receiver accepts, whatever it was,
  and changes nothing else.\<close>

lemma ip_update_accepted:
  assumes "12 \<le> ip_header_len p b" "b + ip_header_len p b \<le> length p" "ip_update p b = q"
  shows "calculate (sub q b (ip_header_len q b)) = 0 \<and> length q = length p \<and>
    (\<forall>i. i \<noteq> b + 10 \<and> i \<noteq> b + 11 \<longrightarrow> q ! i = p ! i)"
proof -
  define p0 where "p0 = put16 p (b + 10) 0"
  define h where "h = ip_header_len p b"
  have h: "ip_header_len (put16 x (b + 10) v) b = ip_header_len x b" for x v
    by (simp add: ip_header_len_def)
  have hb: "h \<le> 131068" unfolding h_def ip_header_len_def using unat_u8 [of "p ! b AND 15"] by linarith
  have q: "q = put16 p0 (b + 10) (calculate (sub p0 b h))"
    using assms(3) by (simp add: ip_update_def Let_def p0_def h h_def)
  have "nsum (sub q b h) + unat (get16 p0 (b + 10)) = nsum (sub p0 b h) + unat (calculate (sub p0 b h))"
    unfolding q using assms(1,2) by (intro nsum_put16) (simp_all add: p0_def h_def)
  moreover have "get16 p0 (b + 10) = 0" using assms(1,2) by (simp add: p0_def)
  ultimately have "nsum (sub q b h) = nsum (sub p0 b h) + (65535 - csum (nsum (sub p0 b h)))"
    using hb by (simp add: unat_calculate sub_def)
  then have "valid_sum (nsum (sub q b h))" by (simp only: valid_complete)
  moreover have "ip_header_len q b = h" by (simp add: q p0_def h h_def)
  ultimately show ?thesis
    using hb by (simp add: calculate_zero sub_def) (simp add: q p0_def)
qed

lemma finish_accepted:
  assumes "n + l \<le> length p" "k + 2 \<le> l" "even k" "l \<le> 65535" "get16 p (n + k) = 0"
    and "b + 20 \<le> n"
  shows "l4_accepts (put16 p (n + k) (ucast (NOT (fold_carry (l4_sum p b n l))))) b n l"
proof -
  define c where "c = (ucast (NOT (fold_carry (l4_sum p b n l))) :: u16)"
  have c: "unat c = 65535 - csum (pseudo p b l + nsum (sub p n l))"
    unfolding c_def unat_finish using assms by (simp only: unat_l4_sum)
  have "pseudo (put16 p (n + k) c) b l = pseudo p b l"
    using assms(6) by (simp add: pseudo_def ip_src_def ip_dst_def ip_protocol_def)
  moreover have "nsum (sub (put16 p (n + k) c) n l) = nsum (sub p n l) + unat c"
    using nsum_put16 [OF assms(1,2,3), of c] assms(5) by simp
  ultimately have "valid_sum (pseudo (put16 p (n + k) c) b l + nsum (sub (put16 p (n + k) c) n l))"
    using c valid_complete [of "pseudo p b l + nsum (sub p n l)"] by (simp only: add.assoc)
  then show ?thesis using assms(4) by (simp only: l4_accepts_iff flip: c_def)
qed

text \<open>A TCP checksum that is recomputed in full is one that the receiver of the segment accepts.\<close>

lemma recalculate_tcp_accepted:
  assumes "b + 20 \<le> l4" "18 \<le> n" "n \<le> 65535" "l4 + n \<le> length p"
  shows "l4_accepts (recalculate_tcp_checksum p b l4 n) b l4 n"
  unfolding recalculate_tcp_checksum_def Let_def l4_sum_def [symmetric]
  using assms by (intro finish_accepted) simp_all

lemma valid_ffff: "valid_sum n \<Longrightarrow> valid_sum (n + 65535)"
  by (simp add: valid_sum_def)

text \<open>A UDP checksum that is recomputed in full is accepted by the receiver and is never the
  zero that means that there is none.\<close>

lemma recalculate_udp_accepted:
  assumes "b + 20 \<le> l4" "8 \<le> udp_length p l4" "l4 + udp_length p l4 \<le> length p"
    and "recalculate_udp_checksum p b l4 = q"
  shows "l4_accepts q b l4 (udp_length p l4) \<and> get16 q (l4 + 6) \<noteq> 0"
proof -
  define n where "n = udp_length p l4"
  define p0 where "p0 = put16 p (l4 + 6) 0"
  define c where "c = (ucast (NOT (fold_carry (l4_sum p0 b l4 n))) :: u16)"
  define p1 where "p1 = put16 p0 (l4 + 6) c"
  have n: "8 \<le> n" "l4 + n \<le> length p" "n \<le> 65535"
    using assms unat_u16 [of "ntohs (get16 p (l4 + 4))"] by (simp_all add: n_def udp_length_def del: unat_u16)
  have len: "udp_length p0 l4 = n" by (simp add: p0_def n_def udp_length_def)
  have get: "get16 p1 (l4 + 6) = c" using n by (simp add: p1_def p0_def)
  have q: "q = (if c = 0 then put16 p1 (l4 + 6) 0xFFFF else p1)"
    using assms(4) unfolding recalculate_udp_checksum_def Let_def p0_def [symmetric] len
      l4_sum_def [symmetric] c_def [symmetric] p1_def [symmetric] get by simp
  have acc: "l4_accepts p1 b l4 n"
    unfolding p1_def c_def using assms(1) n by (intro finish_accepted) (simp_all add: p0_def)
  show ?thesis
  proof (cases "c = 0")
    case False
    then show ?thesis using acc get q n_def by simp
  next
    case True
    have v: "valid_sum (pseudo p1 b n + nsum (sub p1 l4 n))" using acc n by (simp only: l4_accepts_iff)
    have "nsum (sub (put16 p1 (l4 + 6) 0xFFFF) l4 n) = nsum (sub p1 l4 n) + 65535"
      using nsum_put16 [of l4 n p1 6 "0xFFFF"] n get True by (simp add: p1_def p0_def)
    moreover have "pseudo (put16 p1 (l4 + 6) 0xFFFF) b n = pseudo p1 b n"
      using assms(1) by (simp add: pseudo_def ip_src_def ip_dst_def ip_protocol_def)
    ultimately have "l4_accepts (put16 p1 (l4 + 6) 0xFFFF) b l4 n"
      using n valid_ffff [OF v] by (simp add: l4_accepts_iff add.assoc)
    then show ?thesis using True q n by (simp add: n_def [symmetric] p1_def p0_def)
  qed
qed

lemma icmp_sum_accepted:
  assumes "4 \<le> n" "n \<le> 65535" "b + n \<le> length p" "get16 p (b + 2) = 0"
  shows "calculate (sub (put16 p (b + 2) (calculate (sub p b n))) b n) = 0"
proof -
  have "nsum (sub (put16 p (b + 2) (calculate (sub p b n))) b n) = nsum (sub p b n) + (65535 - csum (nsum (sub p b n)))"
    using nsum_put16 [of b n p 2 "calculate (sub p b n)"] assms by (simp add: unat_calculate)
  then have "valid_sum (nsum (sub (put16 p (b + 2) (calculate (sub p b n))) b n))" by (simp only: valid_complete)
  then show ?thesis using assms by (simp add: calculate_zero)
qed

text \<open>Answering an echo request turns it into an echo reply with a checksum the receiver
  accepts and the identifier, sequence number and data of the request.\<close>

lemma echo_reply_accepted:
  assumes "p ! b = 8" "4 \<le> n" "n \<le> 65535" "b + n \<le> length p"
    and "handle_echo_request p b n = (r, q)"
  shows "r \<and> q ! b = 0 \<and> calculate (sub q b n) = 0 \<and> length q = length p \<and>
    (\<forall>i. i < b \<or> b + 4 \<le> i \<longrightarrow> q ! i = p ! i)"
proof -
  define p0 where "p0 = put16 (p[b := 0, b + 1 := 0]) (b + 2) 0"
  have q: "r" "q = put16 p0 (b + 2) (calculate (sub p0 b n))"
    using assms(1,5) by (auto simp: handle_echo_request_def Let_def icmp_is_echo_request_def p0_def icmp_calculate_eq)
  have "calculate (sub q b n) = 0"
    unfolding q(2) using assms by (intro icmp_sum_accepted) (simp_all add: p0_def)
  then show ?thesis using q assms by (auto simp: p0_def)
qed

section \<open>Properties\<close>

text \<open>C26: The incremental update gives the checksum that recomputing it over the changed data would
  give: changing the 16-bit word at an even place of data that is not all zero.\<close>

theorem incremental_is_full:
  assumes "even k" "k + 1 < length xs" "length xs \<le> 131068"
    and nz: "\<exists>x\<in>set (put16 xs k v). x \<noteq> 0"
  shows "incremental_update (calculate xs) (get16 xs k) v = calculate (put16 xs k v)"
proof -
  define n n' where "n = nsum xs" and "n' = nsum (put16 xs k v)"
  have r: "n' + unat (get16 xs k) = n + unat v"
    using nsum_put16 [of 0 "length xs" xs k v] assms sub_all [of "put16 xs k v"] by (simp add: n_def n'_def)
  have le: "unat (get16 xs k) \<le> n" "unat (get16 xs k) \<le> 65535" "csum n \<le> 65535"
    using get16_le_nsum [of 0 "length xs" xs k] assms unat_u16 [of "get16 xs k"] csum_less [of n]
    by (simp_all add: n_def del: unat_u16 csum_less)
  have c: "65535 - unat (calculate xs) = csum n"
    using le unat_calculate [of xs] assms by (simp add: n_def)
  have "csum (csum n + (65535 - unat (get16 xs k)) + unat v) = csum n'"
  proof (rule csum_eq)
    have "(csum n + (65535 - unat (get16 xs k)) + unat v) mod 65535 =
        (n + ((65535 - unat (get16 xs k)) + unat v)) mod 65535"
      unfolding add.assoc by (rule mod_add_cong) (simp_all add: csum_mod)
    also have "n + ((65535 - unat (get16 xs k)) + unat v) = n' + 65535" using r le by linarith
    finally show "(csum n + (65535 - unat (get16 xs k)) + unat v) mod 65535 = n' mod 65535" by simp
    have "0 < n'" using nz nsum_pos by (auto simp: n'_def)
    moreover have "n \<noteq> 0 \<or> unat (get16 xs k) = 0" using le by auto
    ultimately show "csum n + (65535 - unat (get16 xs k)) + unat v = 0 \<longleftrightarrow> n' = 0" by auto
  qed
  then have "unat (incremental_update (calculate xs) (get16 xs k) v) = unat (calculate (put16 xs k v))"
    unfolding unat_incremental c using assms by (simp add: unat_calculate n'_def)
  then show ?thesis by (simp only: word_unat_eq_iff)
qed

theorem incremental_is_full_witness:
  "incremental_update (calculate [1, 2, 3, 4, 5]) (get16 [1, 2, 3, 4, 5] 2) 0xFFFF = calculate (put16 [1, 2, 3, 4, 5] 2 0xFFFF)"
  by (rule incremental_is_full) (simp_all add: put16_def)

end
