(* ===== verification/Parser.thy ===== *)
theory Parser
  imports Checksum
begin

text \<open>
  The packet parser of \<^verbatim>\<open>include/protocol/parser.h\<close> and \<^verbatim>\<open>src/protocol/parser.cpp\<close>. \<open>parse\<close> takes the
  metadata that its caller passes by reference and returns it updated; the fields an early return
  does not reach keep their old value. Offsets and lengths are stored in 16 bits.
\<close>

datatype parse_result = PARSE_OK | PARSE_MALFORMED | PARSE_FRAGMENT

record icmp_error_info =
  inner_l3_offset :: nat
  inner_l4_offset :: nat
  inner :: five_tuple

definition kIpFlagMF :: u16 where "kIpFlagMF = 0x2000"
definition kIpFragOffMask :: u16 where "kIpFragOffMask = 0x1FFF"

definition u16_of :: "nat \<Rightarrow> nat" where "u16_of n = n mod 65536"

definition parse_l4 :: "bytes \<Rightarrow> nat \<Rightarrow> packet_meta \<Rightarrow> parse_result \<times> packet_meta" where
  "parse_l4 p stop meta =
     (let l4 = pm_l4_offset meta;
          fin = (\<lambda>meta. (PARSE_OK, meta\<lparr>pm_payload_len := u16_of (stop - pm_payload_offset meta)\<rparr>)) in
      if ip_is_tcp p (pm_l3_offset meta) then
        (if l4 + 20 > stop then (PARSE_MALFORMED, meta)
         else let doff = tcp_header_len p l4 in
           if doff < 20 \<or> l4 + doff > stop then (PARSE_MALFORMED, meta)
           else fin (meta\<lparr>pm_src_port := l4_src_port p l4, pm_dst_port := l4_dst_port p l4,
                           pm_tcp_flags := tcp_flags p l4, pm_payload_offset := u16_of (l4 + doff)\<rparr>))
      else if ip_is_udp p (pm_l3_offset meta) then
        (if l4 + 8 > stop then (PARSE_MALFORMED, meta)
         else let udp_len = udp_length p l4 in
           if udp_len < 8 \<or> l4 + udp_len > stop then (PARSE_MALFORMED, meta)
           else fin (meta\<lparr>pm_src_port := l4_src_port p l4, pm_dst_port := l4_dst_port p l4,
                           pm_payload_offset := u16_of (l4 + 8)\<rparr>))
      else if ip_is_icmp p (pm_l3_offset meta) \<and> l4 + 8 > stop then (PARSE_MALFORMED, meta)
      else fin meta)"

definition parse :: "bytes \<Rightarrow> packet_meta \<Rightarrow> parse_result \<times> packet_meta" where
  "parse p meta =
     (if length p < 14 then (PARSE_MALFORMED, meta)
      else
        let meta = meta\<lparr>pm_dst_mac := eth_dst_mac p, pm_src_mac := eth_src_mac p, pm_ether_type := eth_type p,
                        pm_l2_offset := 0, pm_l3_offset := 14, pm_src_port := 0, pm_dst_port := 0,
                        pm_tcp_flags := 0\<rparr>
        in if \<not> is_ipv4 p then (PARSE_OK, meta)
        else if length p < pm_l3_offset meta + 20 then (PARSE_MALFORMED, meta)
        else
          let l3 = pm_l3_offset meta;
              ihl = ip_header_len p l3;
              ip_total = ip_total_length p l3
          in if ip_version p l3 \<noteq> 4 \<or> ihl < 20 \<or> ip_total < ihl \<or> l3 + ip_total > length p
             then (PARSE_MALFORMED, meta)
          else
            let stop = l3 + ip_total;
                meta = meta\<lparr>pm_src_ip := ip_src p l3, pm_dst_ip := ip_dst p l3,
                            pm_ip_protocol := ip_protocol p l3, pm_ip_ttl := ip_ttl p l3,
                            pm_l4_offset := u16_of (l3 + ihl), pm_total_len := u16_of stop,
                            pm_payload_offset := u16_of (l3 + ihl)\<rparr>;
                frag = ip_flags_fragment p l3
            in if frag AND kIpFlagMF \<noteq> 0 \<or> frag AND kIpFragOffMask \<noteq> 0 then (PARSE_FRAGMENT, meta)
            else parse_l4 p stop meta)"

definition parse_icmp_error :: "bytes \<Rightarrow> packet_meta \<Rightarrow> icmp_error_info option" where
  "parse_icmp_error p meta =
     (if \<not> icmp_is_error (p ! pm_l4_offset meta) then None
      else let inner_l3 = pm_l4_offset meta + 8 in
        if inner_l3 + 20 > pm_total_len meta then None
        else let ihl = ip_header_len p inner_l3 in
          if ip_version p inner_l3 \<noteq> 4 \<or> ihl < 20 then None
          else if \<not> ip_is_tcp p inner_l3 \<and> \<not> ip_is_udp p inner_l3 then None
          else if ip_flags_fragment p inner_l3 AND kIpFragOffMask \<noteq> 0 then None
          else let inner_l4 = inner_l3 + ihl in
            if inner_l4 + 8 > pm_total_len meta then None
            else Some \<lparr>inner_l3_offset = u16_of inner_l3, inner_l4_offset = u16_of inner_l4,
              inner = FiveTuple (ip_src p inner_l3) (ip_dst p inner_l3) (get16 p inner_l4) (get16 p (inner_l4 + 2))
                        (ip_protocol p inner_l3)\<rparr>)"

section \<open>Metadata that fits the frame\<close>

definition l4_fits :: "bytes \<Rightarrow> packet_meta \<Rightarrow> bool" where
  "l4_fits p m \<longleftrightarrow>
     (ip_is_tcp p 14 \<longrightarrow>
        20 \<le> tcp_header_len p (pm_l4_offset m) \<and> pm_payload_offset m = pm_l4_offset m + tcp_header_len p (pm_l4_offset m)) \<and>
     (ip_is_udp p 14 \<longrightarrow>
        8 \<le> udp_length p (pm_l4_offset m) \<and> pm_l4_offset m + udp_length p (pm_l4_offset m) \<le> pm_total_len m \<and>
        pm_payload_offset m = pm_l4_offset m + 8) \<and>
     (ip_is_icmp p 14 \<longrightarrow> pm_l4_offset m + 8 \<le> pm_total_len m) \<and>
     (ip_is_tcp p 14 \<or> ip_is_udp p 14 \<longrightarrow>
        pm_src_port m = l4_src_port p (pm_l4_offset m) \<and> pm_dst_port m = l4_dst_port p (pm_l4_offset m)) \<and>
     pm_tcp_flags m = (if ip_is_tcp p 14 then tcp_flags p (pm_l4_offset m) else 0)"

definition meta_fits :: "bytes \<Rightarrow> packet_meta \<Rightarrow> bool" where
  "meta_fits p m \<longleftrightarrow>
     is_ipv4 p \<and> pm_l3_offset m = 14 \<and> ip_version p 14 = 4 \<and> 20 \<le> ip_header_len p 14 \<and>
     pm_l4_offset m = 14 + ip_header_len p 14 \<and> pm_total_len m = 14 + ip_total_length p 14 \<and>
     pm_total_len m \<le> length p \<and> pm_l4_offset m \<le> pm_payload_offset m \<and>
     pm_payload_offset m + pm_payload_len m = pm_total_len m \<and>
     pm_src_ip m = ip_src p 14 \<and> pm_dst_ip m = ip_dst p 14 \<and> pm_ip_protocol m = ip_protocol p 14 \<and>
     pm_ip_ttl m = ip_ttl p 14 \<and> l4_fits p m"

lemma u16_of_small [simp]: "n < 65536 \<Longrightarrow> u16_of n = n"
  by (simp add: u16_of_def)

lemma parse_l4_fits:
  assumes "parse_l4 p stop m = (PARSE_OK, m')" "stop < 65536" "pm_l3_offset m = 14" "pm_total_len m = stop"
    "pm_l4_offset m \<le> stop" "pm_payload_offset m = pm_l4_offset m" "pm_src_port m = 0" "pm_dst_port m = 0" "pm_tcp_flags m = 0"
  shows "l4_fits p m' \<and> pm_l4_offset m \<le> pm_payload_offset m' \<and> pm_payload_offset m' + pm_payload_len m' = stop"
  using assms
  by (auto simp: parse_l4_def Let_def l4_fits_def ip_is_tcp_def ip_is_udp_def ip_is_icmp_def split: if_splits)

lemma parse_l4_frame:
  assumes "parse_l4 p stop m = (r, m')"
  shows "pm_l3_offset m' = pm_l3_offset m" "pm_l4_offset m' = pm_l4_offset m" "pm_total_len m' = pm_total_len m"
    "pm_src_ip m' = pm_src_ip m" "pm_dst_ip m' = pm_dst_ip m" "pm_ip_protocol m' = pm_ip_protocol m"
    "pm_ip_ttl m' = pm_ip_ttl m"
  using assms by (auto simp: parse_l4_def Let_def split: if_splits)

section \<open>Trailing padding\<close>

lemma get16_append [simp]: "n + 1 < length p \<Longrightarrow> get16 (p @ q) n = get16 p n"
  by (simp add: get16_def nth_append)

lemma get32_append [simp]: "n + 3 < length p \<Longrightarrow> get32 (p @ q) n = get32 p n"
  by (simp add: get32_def)

lemmas field_defs = ip_version_def ip_header_len_def ip_total_length_def ip_flags_fragment_def ip_ttl_def
  ip_protocol_def ip_src_def ip_dst_def ip_is_tcp_def ip_is_udp_def ip_is_icmp_def l4_src_port_def
  l4_dst_port_def tcp_flags_def tcp_header_len_def udp_length_def

lemma ip_fields_append [simp]:
  assumes "b + 20 \<le> length p"
  shows "ip_version (p @ q) b = ip_version p b" "ip_header_len (p @ q) b = ip_header_len p b"
    "ip_total_length (p @ q) b = ip_total_length p b" "ip_flags_fragment (p @ q) b = ip_flags_fragment p b"
    "ip_ttl (p @ q) b = ip_ttl p b" "ip_protocol (p @ q) b = ip_protocol p b" "ip_src (p @ q) b = ip_src p b"
    "ip_dst (p @ q) b = ip_dst p b" "ip_is_tcp (p @ q) b = ip_is_tcp p b" "ip_is_udp (p @ q) b = ip_is_udp p b"
    "ip_is_icmp (p @ q) b = ip_is_icmp p b"
  using assms by (simp_all add: field_defs nth_append)

lemma eth_fields_append [simp]:
  assumes "14 \<le> length p"
  shows "eth_dst_mac (p @ q) = eth_dst_mac p" "eth_src_mac (p @ q) = eth_src_mac p" "eth_type (p @ q) = eth_type p"
    "is_ipv4 (p @ q) = is_ipv4 p"
  using assms by (simp_all add: eth_dst_mac_def eth_src_mac_def eth_type_def is_ipv4_def sub_def)

lemma parse_l4_append:
  assumes "stop \<le> length p" "pm_l3_offset m = 14" "34 \<le> length p"
  shows "parse_l4 (p @ q) stop m = parse_l4 p stop m"
proof -
  let ?o = "pm_l4_offset m"
  have "?o + 8 \<le> stop \<Longrightarrow> l4_src_port (p @ q) ?o = l4_src_port p ?o \<and> l4_dst_port (p @ q) ?o = l4_dst_port p ?o \<and>
      udp_length (p @ q) ?o = udp_length p ?o"
    using assms(1) by (simp add: field_defs)
  moreover have "?o + 20 \<le> stop \<Longrightarrow> tcp_header_len (p @ q) ?o = tcp_header_len p ?o \<and> tcp_flags (p @ q) ?o = tcp_flags p ?o"
    using assms(1) by (simp add: field_defs nth_append)
  ultimately show ?thesis
    using assms(2,3) by (simp add: parse_l4_def Let_def)
qed

lemma parse_l4_same:
  assumes "parse_l4 p stop m = (PARSE_OK, m1)" "m2 = m\<lparr>pm_payload_len := l\<rparr>"
  shows "parse_l4 p stop m2 = (PARSE_OK, m1)"
proof -
  have "parse_l4 p stop (m\<lparr>pm_payload_len := l\<rparr>) = (PARSE_OK, m1)"
    using assms(1) unfolding parse_l4_def Let_def by (cases m) (force split: if_split_asm)
  then show ?thesis unfolding assms(2) .
qed

lemma meta_of_parse:
  assumes "parse p m = (PARSE_OK, m')" "is_ipv4 p" "length p \<le> 65535"
  shows "meta_fits p m'"
proof -
  obtain m0 where l4: "parse_l4 p (14 + ip_total_length p 14) m0 = (PARSE_OK, m')"
    and m0: "pm_l3_offset m0 = 14" "pm_l4_offset m0 = u16_of (14 + ip_header_len p 14)"
      "pm_total_len m0 = u16_of (14 + ip_total_length p 14)" "pm_payload_offset m0 = pm_l4_offset m0"
      "pm_src_port m0 = 0" "pm_dst_port m0 = 0" "pm_tcp_flags m0 = 0"
      "pm_src_ip m0 = ip_src p 14" "pm_dst_ip m0 = ip_dst p 14" "pm_ip_protocol m0 = ip_protocol p 14"
      "pm_ip_ttl m0 = ip_ttl p 14"
    and b: "ip_version p 14 = 4" "20 \<le> ip_header_len p 14" "ip_header_len p 14 \<le> ip_total_length p 14"
      "14 + ip_total_length p 14 \<le> length p"
    using assms(1,2) by (auto simp: parse_def Let_def split: if_splits)
  have s: "pm_l4_offset m0 = 14 + ip_header_len p 14" "pm_total_len m0 = 14 + ip_total_length p 14"
    using m0 b assms(3) by simp_all
  have f: "l4_fits p m' \<and> pm_l4_offset m0 \<le> pm_payload_offset m' \<and>
      pm_payload_offset m' + pm_payload_len m' = 14 + ip_total_length p 14"
    using m0 b s assms(3) by (intro parse_l4_fits [OF l4]) simp_all
  show ?thesis
    unfolding meta_fits_def parse_l4_frame [OF l4] m0(1) m0(8-) s
    using assms(2) b f s by simp
qed

lemma parse_icmp_bounds:
  assumes "parse_icmp_error p m = Some i" "pm_total_len m < 65536"
  shows "inner_l3_offset i = pm_l4_offset m + 8 \<and>
    inner_l4_offset i = inner_l3_offset i + ip_header_len p (inner_l3_offset i) \<and>
    20 \<le> ip_header_len p (inner_l3_offset i) \<and> inner_l4_offset i + 8 \<le> pm_total_len m \<and>
    inner i = FiveTuple (ip_src p (inner_l3_offset i)) (ip_dst p (inner_l3_offset i))
      (l4_src_port p (inner_l4_offset i)) (l4_dst_port p (inner_l4_offset i)) (ip_protocol p (inner_l3_offset i)) \<and>
    (protocol (inner i) = 6 \<or> protocol (inner i) = 17)"
  using assms
  by (auto simp: parse_icmp_error_def Let_def l4_src_port_def l4_dst_port_def ip_is_tcp_def ip_is_udp_def split: if_splits)

section \<open>Properties\<close>

text \<open>C27: When parsing an IPv4 frame of at most 65535 bytes succeeds, every header it reports is whole
  and lies inside the frame, no stored offset or length has wrapped, and the reported addresses,
  ports and flags are those of the frame.\<close>

theorem parse_within_frame:
  assumes "parse p m = (PARSE_OK, m')" "is_ipv4 p" "length p \<le> 65535"
  shows "meta_fits p m'"
  using assms by (rule meta_of_parse)

definition demo_frame :: bytes where
  "demo_frame =
     [2, 0, 0, 0, 0, 1, 2, 0, 0, 0, 0, 2, 8, 0,
      0x45, 0, 0, 40, 0, 0, 0, 0, 64, 6, 0, 0, 10, 0, 0, 1, 10, 0, 0, 2,
      0x30, 0x39, 0, 80, 0, 0, 0, 1, 0, 0, 0, 0, 0x50, 2, 0, 0, 0, 0, 0, 0, 0, 0]"

definition meta_zero :: packet_meta where
  "meta_zero =
     \<lparr>pm_src_mac = mac_zero, pm_dst_mac = mac_zero, pm_ether_type = 0, pm_src_ip = 0, pm_dst_ip = 0, pm_ip_protocol = 0,
      pm_ip_ttl = 0, pm_src_port = 0, pm_dst_port = 0, pm_tcp_flags = 0, pm_l2_offset = 0, pm_l3_offset = 0,
      pm_l4_offset = 0, pm_payload_offset = 0, pm_total_len = 0, pm_payload_len = 0\<rparr>"

definition demo_meta :: packet_meta where
  "demo_meta = snd (parse demo_frame meta_zero)"

lemma demo_fields:
  "length demo_frame = 56" "is_ipv4 demo_frame" 
  "ip_version demo_frame 14 = 4" "ip_header_len demo_frame 14 = 20" "ip_total_length demo_frame 14 = 40"
  "ip_flags_fragment demo_frame 14 = 0" "ip_is_tcp demo_frame 14" "tcp_header_len demo_frame 34 = 20"
  by (simp_all add: demo_frame_def is_ipv4_def eth_type_def field_defs get16_def bswap16_def le16_def lo8_def hi8_def)

lemma demo_parse:
  "parse demo_frame meta_zero = (PARSE_OK, demo_meta)" "pm_payload_offset demo_meta = 54"
  unfolding demo_meta_def by (simp_all add: parse_def parse_l4_def Let_def demo_fields)

theorem parse_within_frame_witness:
  "is_ipv4 demo_frame \<and> meta_fits demo_frame demo_meta \<and> pm_payload_offset demo_meta = 54"
  using parse_within_frame [OF demo_parse(1) demo_fields(2)] demo_parse demo_fields by simp

text \<open>C28: Parsing looks only at the packet: Ethernet padding behind an IPv4 packet, and whatever the
  metadata structure held before, make no difference to a successful parse.\<close>

theorem parse_ignores_padding:
  assumes "parse p m = (PARSE_OK, m1)" "is_ipv4 p"
  shows "parse (p @ pad) m2 = (PARSE_OK, m1)"
proof -
  have len: "34 \<le> length p" "14 + ip_total_length p 14 \<le> length p"
    using assms by (auto simp: parse_def Let_def split: if_splits)
  let ?m = "\<lambda>m. m\<lparr>pm_dst_mac := eth_dst_mac p, pm_src_mac := eth_src_mac p, pm_ether_type := eth_type p,
      pm_l2_offset := 0, pm_l3_offset := 14, pm_src_port := 0, pm_dst_port := 0, pm_tcp_flags := 0,
      pm_src_ip := ip_src p 14, pm_dst_ip := ip_dst p 14, pm_ip_protocol := ip_protocol p 14,
      pm_ip_ttl := ip_ttl p 14, pm_l4_offset := u16_of (14 + ip_header_len p 14),
      pm_total_len := u16_of (14 + ip_total_length p 14), pm_payload_offset := u16_of (14 + ip_header_len p 14)\<rparr>"
  have same: "?m m2 = (?m m)\<lparr>pm_payload_len := pm_payload_len m2\<rparr>"
    by (cases m; cases m2) simp
  have l4: "parse_l4 p (14 + ip_total_length p 14) (?m m) = (PARSE_OK, m1)"
    and rest: "parse (p @ pad) m2 = parse_l4 (p @ pad) (14 + ip_total_length p 14) (?m m2)"
    using assms len by (auto simp: parse_def Let_def split: if_splits)
  show ?thesis
    unfolding rest using parse_l4_same [OF l4 same] len by (subst parse_l4_append) simp_all
qed

theorem parse_ignores_padding_witness:
  "parse (demo_frame @ [1, 2, 3]) demo_meta = (PARSE_OK, demo_meta)"
  by (rule parse_ignores_padding [OF demo_parse(1) demo_fields(2)])

text \<open>When the packet quoted in an ICMP error is recognised, its IP header and the first eight
  bytes of its transport header lie inside the packet, behind the ICMP header, and the reported
  five-tuple is that of the quoted packet.\<close>

lemma icmp_error_within_packet:
  assumes "parse_icmp_error p m = Some i" "pm_total_len m < 65536"
  shows "inner_l3_offset i = pm_l4_offset m + 8 \<and>
    inner_l4_offset i = inner_l3_offset i + ip_header_len p (inner_l3_offset i) \<and>
    20 \<le> ip_header_len p (inner_l3_offset i) \<and> inner_l4_offset i + 8 \<le> pm_total_len m \<and>
    inner i = FiveTuple (ip_src p (inner_l3_offset i)) (ip_dst p (inner_l3_offset i))
      (l4_src_port p (inner_l4_offset i)) (l4_dst_port p (inner_l4_offset i)) (ip_protocol p (inner_l3_offset i)) \<and>
    (protocol (inner i) = 6 \<or> protocol (inner i) = 17)"
  using assms by (rule parse_icmp_bounds)

definition demo_icmp :: bytes where
  "demo_icmp = [3, 1, 0, 0, 0, 0, 0, 0] @ drop 14 demo_frame"

lemma demo_icmp_fields:
  "ip_header_len demo_icmp 8 = 20" "ip_version demo_icmp 8 = 4" "ip_is_tcp demo_icmp 8" "ip_flags_fragment demo_icmp 8 = 0"
  "icmp_is_error (demo_icmp ! 0)"
  by (simp_all add: demo_icmp_def demo_frame_def icmp_is_error_def field_defs get16_def bswap16_def le16_def lo8_def hi8_def)

end
