(* ===== verification/Nat_Forwarder.thy ===== *)
theory Nat_Forwarder
  imports Parser Tcp_State
begin

text \<open>
  Packet rewriting, after \<^verbatim>\<open>include/forward/nat_forwarder.h\<close> and \<^verbatim>\<open>src/forward/nat_forwarder.cpp\<close>. The
  packet buffer is a record of the data bytes and the fields of \<^verbatim>\<open>rte_mbuf\<close> that the code writes. What
  DPDK provides (growing and trimming a buffer, the pseudo-header checksum for the network card,
  the values of the offload flags) is a parameter; \<open>hw_cksum\<close> says whether the build defines
  \<^verbatim>\<open>L4LB_HW_CKSUM\<close>.
\<close>

section \<open>Buffers\<close>

record mbuf =
  mb_data :: bytes
  mb_contiguous :: bool
  mb_tailroom :: nat
  mb_ol_flags :: u64
  mb_l2_len :: nat
  mb_l3_len :: nat
  mb_l4_len :: nat

record mbuf_ops =
  pktmbuf_append :: "mbuf \<Rightarrow> nat \<Rightarrow> mbuf option"
  pktmbuf_trim :: "mbuf \<Rightarrow> nat \<Rightarrow> mbuf"
  phdr_cksum :: "bytes \<Rightarrow> nat \<Rightarrow> u64 \<Rightarrow> u16"
  hw_cksum :: bool
  TX_OFFLOAD_TCP_CKSUM :: u64
  TX_OFFLOAD_UDP_CKSUM :: u64
  F_TX_IPV4 :: u64
  F_TX_TCP_CKSUM :: u64
  F_TX_UDP_CKSUM :: u64

text \<open>The documented behaviour of \<^verbatim>\<open>rte_pktmbuf_append\<close> and \<^verbatim>\<open>rte_pktmbuf_trim\<close>.\<close>

locale pktmbuf =
  fixes ops :: mbuf_ops
  assumes append_some: "pktmbuf_append ops m n = Some m' \<Longrightarrow>
      \<exists>xs. length xs = n \<and> m' = m\<lparr>mb_data := mb_data m @ xs, mb_tailroom := mb_tailroom m - n\<rparr>"
    and trim_take: "n \<le> length (mb_data m) \<Longrightarrow>
      pktmbuf_trim ops m n = m\<lparr>mb_data := take (length (mb_data m) - n) (mb_data m), mb_tailroom := mb_tailroom m + n\<rparr>"

text \<open>A buffer that grows while there is room behind its data; bytes that are appended are zero.\<close>

definition tail_append :: "mbuf \<Rightarrow> nat \<Rightarrow> mbuf option" where
  "tail_append m n =
     (if mb_tailroom m < n then None
      else Some (m\<lparr>mb_data := mb_data m @ replicate n 0, mb_tailroom := mb_tailroom m - n\<rparr>))"

definition tail_trim :: "mbuf \<Rightarrow> nat \<Rightarrow> mbuf" where
  "tail_trim m n = m\<lparr>mb_data := take (length (mb_data m) - n) (mb_data m), mb_tailroom := mb_tailroom m + n\<rparr>"

definition tail_ops :: mbuf_ops where
  "tail_ops = \<lparr>pktmbuf_append = tail_append, pktmbuf_trim = tail_trim, phdr_cksum = (\<lambda>p n f. 0), hw_cksum = False,
     TX_OFFLOAD_TCP_CKSUM = 8, TX_OFFLOAD_UDP_CKSUM = 4, F_TX_IPV4 = 1, F_TX_TCP_CKSUM = 2, F_TX_UDP_CKSUM = 4\<rparr>"

interpretation tail: pktmbuf tail_ops
  by unfold_locales (auto simp: tail_ops_def tail_append_def tail_trim_def split: if_splits intro: exI [of _ "replicate n 0" for n])

section \<open>Data\<close>

record nat_rewrite_to =
  rw_src_ip :: ipv4_addr
  rw_dst_ip :: ipv4_addr
  rw_src_port :: port_be
  rw_dst_port :: port_be
  rw_src_mac :: mac_addr
  rw_dst_mac :: mac_addr

record nat_options =
  opt_strip_ts :: bool
  opt_add_toa :: bool
  opt_toa_ip :: ipv4_addr
  opt_toa_port :: port_be
  opt_tx_offloads :: u64
  opt_mtu :: nat

definition nat_options_default :: nat_options where
  "nat_options_default = \<lparr>opt_strip_ts = False, opt_add_toa = False, opt_toa_ip = 0, opt_toa_port = 0,
     opt_tx_offloads = 0, opt_mtu = 1500\<rparr>"

datatype rewrite_result = REWRITE_OK | TTL_EXCEEDED

record rewrite_outcome =
  ts_stripped :: bool
  toa_added :: bool
  toa_no_room :: bool

definition rewrite_outcome_zero :: rewrite_outcome where
  "rewrite_outcome_zero = \<lparr>ts_stripped = False, toa_added = False, toa_no_room = False\<rparr>"

section \<open>TCP options\<close>

definition ip_checksum :: "bytes \<Rightarrow> nat \<Rightarrow> bytes" where
  "ip_checksum p b = (let p = put16 p (b + 10) 0 in put16 p (b + 10) (calculate (sub p b (ip_header_len p b))))"

text \<open>The step \<^verbatim>\<open>opt += opt[1]\<close> reads the length byte after a timestamp option has been overwritten,
  so that it moves on by one byte there.\<close>

lemma strip_step_pos:
  "2 \<le> unat (p ! (n + 1)) \<Longrightarrow> 0 < unat (put_bytes p n (replicate k TCPOPT_NOP) ! (n + 1))"
proof (induction k arbitrary: p n)
  case 0
  then show ?case by simp
next
  case (Suc k)
  show ?case
  proof (cases k)
    case 0
    then show ?thesis using Suc.prems by simp
  next
    case (Suc j)
    have "put_bytes p n (replicate (Suc (Suc j)) TCPOPT_NOP) ! (n + 1) = p[n := TCPOPT_NOP, n + 1 := TCPOPT_NOP] ! (n + 1)"
      by simp
    then show ?thesis
      using Suc Suc.prems by (cases "n + 1 < length p") (simp_all add: TCPOPT_NOP_def list_update_beyond)
  qed
qed

lemma strip_step_less:
  assumes "\<not> unat (p ! Suc n) < 2" "\<not> stop < n + unat (p ! Suc n)"
  shows "stop - (n + unat (put_bytes p n (replicate k TCPOPT_NOP) ! Suc n)) < stop - n"
  using assms strip_step_pos [of p n k] by (simp add: not_less)

function strip_loop :: "bytes \<Rightarrow> nat \<Rightarrow> nat \<Rightarrow> bool \<Rightarrow> bytes \<times> bool" where
  "strip_loop p opt stop changed =
     (if \<not> opt < stop then (p, changed)
      else if p ! opt = TCPOPT_EOL then (p, changed)
      else if p ! opt = TCPOPT_NOP then strip_loop p (opt + 1) stop changed
      else if opt + 1 \<ge> stop \<or> unat (p ! (opt + 1)) < 2 \<or> opt + unat (p ! (opt + 1)) > stop then (p, changed)
      else if p ! opt = TCPOPT_TIMESTAMP then
        (let p' = put_bytes p opt (replicate (unat (p ! (opt + 1))) TCPOPT_NOP)
         in strip_loop p' (opt + unat (p' ! (opt + 1))) stop True)
      else strip_loop p (opt + unat (p ! (opt + 1))) stop changed)"
  by pat_completeness auto
termination strip_loop
  by (relation "measure (\<lambda>(p, opt, stop, changed). stop - opt)") (auto intro: strip_step_less)

declare strip_loop.simps [simp del]

definition strip_timestamp :: "bytes \<Rightarrow> nat \<Rightarrow> bytes \<times> bool" where
  "strip_timestamp p tcp = strip_loop p (tcp + 20) (tcp + tcp_header_len p tcp) False"

definition insert_toa ::
  "mbuf_ops \<Rightarrow> mbuf \<Rightarrow> packet_meta \<Rightarrow> ipv4_addr \<Rightarrow> port_be \<Rightarrow> nat \<Rightarrow> bool \<times> mbuf \<times> packet_meta" where
  "insert_toa ops m meta ip port mtu =
     (let iph = pm_l3_offset meta;
          tcp = pm_l4_offset meta;
          doff = tcp_header_len (mb_data m) tcp;
          ip_len = ip_total_length (mb_data m) iph
      in if doff + TCPOLEN_TOA > 60 \<or> ip_len + TCPOLEN_TOA > mtu \<or> \<not> mb_contiguous m then (False, m, meta)
      else
        let frame_len = iph + ip_len;
            m = (if length (mb_data m) > frame_len then pktmbuf_trim ops m (length (mb_data m) - frame_len) else m)
        in case pktmbuf_append ops m TCPOLEN_TOA of
             None \<Rightarrow> (False, m, meta)
           | Some m \<Rightarrow>
               let p = mb_data m;
                   opt = tcp + 20;
                   p = put_bytes p (opt + TCPOLEN_TOA) (sub p opt (frame_len - opt));
                   p = p[opt := TCPOPT_TOA];
                   p = p[opt + 1 := word_of_nat TCPOLEN_TOA];
                   p = put16 p (opt + 2) port;
                   p = put32 p (opt + 4) ip;
                   p = tcp_set_header_len (doff + TCPOLEN_TOA) p tcp;
                   p = set_total_length (ip_len + TCPOLEN_TOA) p iph
               in (True, m\<lparr>mb_data := p\<rparr>,
                   meta\<lparr>pm_total_len := u16_of (pm_total_len meta + TCPOLEN_TOA),
                        pm_payload_offset := u16_of (pm_payload_offset meta + TCPOLEN_TOA)\<rparr>))"

section \<open>Rewriting\<close>

definition hw_offload :: "mbuf_ops \<Rightarrow> u64 \<Rightarrow> bool \<Rightarrow> bool" where
  "hw_offload ops offloads tcp \<longleftrightarrow>
     hw_cksum ops \<and> offloads AND (if tcp then TX_OFFLOAD_TCP_CKSUM ops else TX_OFFLOAD_UDP_CKSUM ops) \<noteq> 0"

definition l4_checksum_full :: "mbuf_ops \<Rightarrow> mbuf \<Rightarrow> nat \<Rightarrow> nat \<Rightarrow> packet_meta \<Rightarrow> u64 \<Rightarrow> mbuf" where
  "l4_checksum_full ops m ip l4 meta offloads =
     (let p = mb_data m; tcp = ip_is_tcp p ip in
      if hw_offload ops offloads tcp then
        let flags = F_TX_IPV4 ops OR (if tcp then F_TX_TCP_CKSUM ops else F_TX_UDP_CKSUM ops);
            ph = phdr_cksum ops p ip flags;
            m = m\<lparr>mb_l2_len := pm_l3_offset meta, mb_l3_len := ip_header_len p ip, mb_ol_flags := flags\<rparr>
        in if tcp then m\<lparr>mb_l4_len := tcp_header_len p l4, mb_data := put16 p (l4 + 16) ph\<rparr>
           else m\<lparr>mb_l4_len := 8, mb_data := put16 p (l4 + 6) ph\<rparr>
      else
        m\<lparr>mb_ol_flags := 0,
          mb_data := if tcp then recalculate_tcp_checksum p ip l4 (ip_total_length p ip - ip_header_len p ip)
                     else recalculate_udp_checksum p ip l4\<rparr>)"

definition clear_tx_offload :: "mbuf \<Rightarrow> mbuf" where
  "clear_tx_offload m = m\<lparr>mb_ol_flags := 0\<rparr>"

definition dr_rewrite :: "mbuf \<Rightarrow> mac_addr \<Rightarrow> mac_addr \<Rightarrow> mbuf" where
  "dr_rewrite m src_mac dst_mac =
     m\<lparr>mb_data := set_src_mac src_mac (set_dst_mac dst_mac (mb_data m)), mb_ol_flags := 0\<rparr>"

text \<open>The four parts of \<^verbatim>\<open>nat_rewrite\<close>.\<close>

definition rewrite_options ::
  "mbuf_ops \<Rightarrow> nat_options \<Rightarrow> mbuf \<Rightarrow> packet_meta \<Rightarrow> rewrite_outcome \<Rightarrow> mbuf \<times> packet_meta \<times> rewrite_outcome \<times> bool" where
  "rewrite_options ops opt m meta out =
     (if \<not> ip_is_tcp (mb_data m) (pm_l3_offset meta) then (m, meta, out, False)
      else
        let tcp = pm_l4_offset meta;
            (p, stripped) = (if opt_strip_ts opt \<and> has_flag (tcp_flags (mb_data m) tcp) TCP_SYN
                             then strip_timestamp (mb_data m) tcp else (mb_data m, False));
            m = m\<lparr>mb_data := p\<rparr>;
            out = (if stripped then out\<lparr>ts_stripped := True\<rparr> else out)
        in if opt_add_toa opt then
             (case insert_toa ops m meta (opt_toa_ip opt) (opt_toa_port opt) (opt_mtu opt) of
                (True, m, meta) \<Rightarrow> (m, meta, out\<lparr>toa_added := True\<rparr>, True)
              | (False, m, meta) \<Rightarrow> (m, meta, out\<lparr>toa_no_room := True\<rparr>, stripped))
           else (m, meta, out, stripped))"

definition rewrite_ip :: "ipv4_addr \<Rightarrow> ipv4_addr \<Rightarrow> bytes \<Rightarrow> nat \<Rightarrow> bytes" where
  "rewrite_ip sip dip p b =
     (let p = put32 p (b + 12) sip;
          p = put32 p (b + 16) dip;
          p = p[b + 8 := p ! (b + 8) - 1]
      in ip_checksum p b)"

definition rewrite_l4 ::
  "mbuf_ops \<Rightarrow> nat_rewrite_to \<Rightarrow> nat_options \<Rightarrow> mbuf \<Rightarrow> packet_meta \<Rightarrow> ipv4_addr \<Rightarrow> ipv4_addr \<Rightarrow> bool \<Rightarrow> mbuf" where
  "rewrite_l4 ops rw opt m meta old_src old_dst l4_full =
     (let ip = pm_l3_offset meta;
          l4 = pm_l4_offset meta;
          p = mb_data m;
          hw = hw_offload ops (opt_tx_offloads opt) (ip_is_tcp p ip);
          old_sp = l4_src_port p l4;
          old_dp = l4_dst_port p l4;
          q = put16 (put16 p l4 (rw_src_port rw)) (l4 + 2) (rw_dst_port rw)
      in if ip_is_tcp p ip then
           (if l4_full \<or> hw then l4_checksum_full ops (m\<lparr>mb_data := q\<rparr>) ip l4 meta (opt_tx_offloads opt)
            else let q = update_tcp_checksum_ip q l4 old_src (rw_src_ip rw);
                     q = update_tcp_checksum_ip q l4 old_dst (rw_dst_ip rw);
                     q = update_tcp_checksum_port q l4 old_sp (rw_src_port rw);
                     q = update_tcp_checksum_port q l4 old_dp (rw_dst_port rw)
                 in m\<lparr>mb_data := q, mb_ol_flags := 0\<rparr>)
         else if ip_is_udp p ip then
           (let had_cksum = (get16 p (l4 + 6) \<noteq> 0) in
            if hw then l4_checksum_full ops (m\<lparr>mb_data := q\<rparr>) ip l4 meta (opt_tx_offloads opt)
            else if had_cksum then
              let q = update_udp_checksum_ip q l4 old_src (rw_src_ip rw);
                  q = update_udp_checksum_ip q l4 old_dst (rw_dst_ip rw);
                  q = update_udp_checksum_port q l4 old_sp (rw_src_port rw);
                  q = update_udp_checksum_port q l4 old_dp (rw_dst_port rw)
              in m\<lparr>mb_data := q, mb_ol_flags := 0\<rparr>
            else m\<lparr>mb_data := q, mb_ol_flags := 0\<rparr>)
         else m)"

definition rewrite_mac :: "mac_addr \<Rightarrow> mac_addr \<Rightarrow> mbuf \<Rightarrow> mbuf" where
  "rewrite_mac src_mac dst_mac m = m\<lparr>mb_data := set_src_mac src_mac (set_dst_mac dst_mac (mb_data m))\<rparr>"

definition nat_rewrite ::
  "mbuf_ops \<Rightarrow> mbuf \<Rightarrow> packet_meta \<Rightarrow> nat_rewrite_to \<Rightarrow> nat_options \<Rightarrow> rewrite_outcome \<Rightarrow>
     rewrite_result \<times> mbuf \<times> packet_meta \<times> rewrite_outcome" where
  "nat_rewrite ops m meta rw opt out =
     (if ip_ttl (mb_data m) (pm_l3_offset meta) \<le> 1 then (TTL_EXCEEDED, m, meta, out)
      else
        let (m, meta, out, l4_full) = rewrite_options ops opt m meta out;
            ip = pm_l3_offset meta;
            old_src = ip_src (mb_data m) ip;
            old_dst = ip_dst (mb_data m) ip;
            m = m\<lparr>mb_data := rewrite_ip (rw_src_ip rw) (rw_dst_ip rw) (mb_data m) ip\<rparr>;
            m = rewrite_l4 ops rw opt m meta old_src old_dst l4_full
        in (REWRITE_OK, rewrite_mac (rw_src_mac rw) (rw_dst_mac rw) m, meta, out))"

definition nat_rewrite_icmp_error ::
  "mbuf \<Rightarrow> packet_meta \<Rightarrow> icmp_error_info \<Rightarrow> ipv4_addr \<Rightarrow> ipv4_addr \<Rightarrow> five_tuple \<Rightarrow> mac_addr \<Rightarrow> mac_addr \<Rightarrow>
     rewrite_result \<times> mbuf" where
  "nat_rewrite_icmp_error m meta info outer_src outer_dst inn src_mac dst_mac =
     (let ip = pm_l3_offset meta in
      if ip_ttl (mb_data m) ip \<le> 1 then (TTL_EXCEEDED, m)
      else
        let iip = inner_l3_offset info;
            ports = inner_l4_offset info;
            icmp = pm_l4_offset meta;
            p = put32 (mb_data m) (iip + 12) (src_ip inn);
            p = put32 p (iip + 16) (dst_ip inn);
            p = ip_checksum p iip;
            p = put16 p ports (src_port inn);
            p = put16 p (ports + 2) (dst_port inn);
            p = rewrite_ip outer_src outer_dst p ip;
            p = put16 p (icmp + 2) 0;
            p = put16 p (icmp + 2) (icmp_calculate_checksum (sub p icmp (pm_total_len meta - icmp)));
            p = set_dst_mac dst_mac p;
            p = set_src_mac src_mac p
        in (REWRITE_OK, m\<lparr>mb_data := p, mb_ol_flags := 0\<rparr>))"

end
