(* ===== verification/Processor.thy ===== *)
theory Processor
  imports Stats Steering Neigh Session_Table Nat_Forwarder
begin

text \<open>
  Packet processing on a worker, after \<^verbatim>\<open>src/core/processor.cpp\<close> and the structures of
  \<^verbatim>\<open>include/dataplane/context.h\<close>. A handler maps the state of the worker, the snapshot (whose schedulers keep a
  cursor), the packet buffer and the events posted so far to the new state and a result. The result is
  \<open>None\<close> where the code does not return or its behaviour is undefined: a lookup loop that does not end, a
  null pointer that is followed, an array index out of range.
\<close>

section \<open>State\<close>

datatype event_type = EV_NONE | EV_ARP_FOR_US | EV_ARP_REPLY | EV_NEIGH_HINT | EV_NEIGH_MISS | EV_HC_RESP

record master_event =
  ev_type :: event_type
  ev_tcp_flags :: u8
  ev_port :: u16
  ev_ip :: ipv4_addr
  ev_seq :: u32
  ev_ack :: u32
  ev_mac :: mac_addr
  ev_aux :: u16

definition event_zero :: master_event where
  "event_zero = \<lparr>ev_type = EV_NONE, ev_tcp_flags = 0, ev_port = 0, ev_ip = 0, ev_seq = 0, ev_ack = 0, ev_mac = mac_zero, ev_aux = 0\<rparr>"

record 'h worker =
  w_idx :: nat
  w_sessions :: "'h session_table"
  w_stats :: worker_stats
  w_rs_stats :: "rs_counters list"
  w_lip_cursor :: "u32 list"
  w_lip_rr :: u32
  w_now_tick :: nat

text \<open>What the workers read of the global \<^verbatim>\<open>g_dp\<close>.\<close>

record 'n dataplane =
  dp_local_mac :: mac_addr
  dp_tx_offloads :: u64
  dp_mtu :: nat
  dp_cfg :: lb_config
  dp_steering :: steering
  dp_route :: route
  dp_neigh :: "'n neigh"

text \<open>The operations and constants of DPDK.\<close>

record ('h, 'n) lb_env =
  env_hash :: hash_env
  env_rss :: rss_ops
  env_sess :: "('h, five_tuple, nat) hash_ops"
  env_neigh :: "'n neigh_ops"
  env_mbuf :: mbuf_ops
  pktmbuf_pkt_len :: "mbuf \<Rightarrow> u32"
  RX_IP_CKSUM_MASK :: u64
  RX_IP_CKSUM_BAD :: u64
  RX_L4_CKSUM_MASK :: u64
  RX_L4_CKSUM_BAD :: u64
  RX_RSS_HASH :: u64

datatype verdict = SEND | DROP | REDIRECT | CONSUMED

record result =
  res_verdict :: verdict
  res_reason :: stat
  res_target :: nat

record 'h proc =
  pr_w :: "'h worker"
  pr_snap :: snapshot
  pr_m :: mbuf
  pr_events :: "master_event list"

section \<open>Helpers\<close>

definition drop_res :: "stat \<Rightarrow> result" where
  "drop_res reason = \<lparr>res_verdict = DROP, res_reason = reason, res_target = 0\<rparr>"

definition send_res :: result where
  "send_res = \<lparr>res_verdict = SEND, res_reason = ST_COUNT, res_target = 0\<rparr>"

definition consumed_res :: result where
  "consumed_res = \<lparr>res_verdict = CONSUMED, res_reason = ST_COUNT, res_target = 0\<rparr>"

definition redirect_res :: "nat \<Rightarrow> result" where
  "redirect_res to = \<lparr>res_verdict = REDIRECT, res_reason = ST_COUNT, res_target = to\<rparr>"

definition in_nat_range :: "port_be \<Rightarrow> bool" where
  "in_nat_range port \<longleftrightarrow> unat (ntohs port) \<ge> kNatPortMin \<and> unat (ntohs port) \<le> kNatPortMax"

definition in_hc_range :: "port_be \<Rightarrow> bool" where
  "in_hc_range port \<longleftrightarrow> unat (ntohs port) \<ge> kHcPortMin \<and> unat (ntohs port) \<le> kHcPortMax"

definition cksum_bad :: "('h, 'n) lb_env \<Rightarrow> mbuf \<Rightarrow> bool" where
  "cksum_bad env m \<longleftrightarrow>
     mb_ol_flags m AND RX_IP_CKSUM_MASK env = RX_IP_CKSUM_BAD env \<or>
     mb_ol_flags m AND RX_L4_CKSUM_MASK env = RX_L4_CKSUM_BAD env"

definition count :: "stat \<Rightarrow> 'h proc \<Rightarrow> 'h proc" where
  "count i p = p\<lparr>pr_w := (pr_w p)\<lparr>w_stats := ws_add i 1 (w_stats (pr_w p))\<rparr>\<rparr>"

definition post_master_event :: "master_event \<Rightarrow> 'h proc \<Rightarrow> 'h proc" where
  "post_master_event ev p = p\<lparr>pr_events := pr_events p @ [ev]\<rparr>"

definition on_sessions :: "('h session_table \<Rightarrow> 'h session_table) \<Rightarrow> 'h proc \<Rightarrow> 'h proc" where
  "on_sessions f p = p\<lparr>pr_w := (pr_w p)\<lparr>w_sessions := f (w_sessions (pr_w p))\<rparr>\<rparr>"

abbreviation pr_sessions :: "'h proc \<Rightarrow> 'h session_table" where
  "pr_sessions p \<equiv> w_sessions (pr_w p)"

definition rs_count :: "nat \<Rightarrow> (rs_counters \<Rightarrow> rs_counters) \<Rightarrow> 'h proc \<Rightarrow> 'h proc option" where
  "rs_count i f p =
     (if i < length (w_rs_stats (pr_w p))
      then Some (p\<lparr>pr_w := (pr_w p)\<lparr>w_rs_stats := (w_rs_stats (pr_w p))[i := f (w_rs_stats (pr_w p) ! i)]\<rparr>\<rparr>)
      else None)"

definition request_neigh :: "ipv4_addr \<Rightarrow> 'h proc \<Rightarrow> 'h proc" where
  "request_neigh ip p = post_master_event (event_zero\<lparr>ev_type := EV_NEIGH_MISS, ev_ip := ip\<rparr>) p"

text \<open>The two caches of a session are passed as the functions that read and write them.\<close>

definition resolve_mac ::
  "('h, 'n) lb_env \<Rightarrow> 'n dataplane \<Rightarrow> ipv4_addr \<Rightarrow> mac_addr \<times> u32 \<Rightarrow> mac_addr \<Rightarrow> 'h proc \<Rightarrow>
     mac_addr option \<times> (mac_addr \<times> u32) \<times> 'h proc" where
  "resolve_mac env dp hop cache fallback p =
     (let gen = nb_gen (dp_neigh dp) in
      if snd cache = gen then (Some (fst cache), cache, p)
      else
        case (if hop \<noteq> 0 then neigh_lookup (env_neigh env) (dp_neigh dp) hop else None) of
          Some mac \<Rightarrow> (Some mac, (mac, gen), p)
        | None \<Rightarrow>
            let p = (if hop \<noteq> 0 then request_neigh hop p else p)
            in (if \<not> mac_is_zero fallback then Some fallback else None, cache, p))"

definition resolve_rs_mac ::
  "('h, 'n) lb_env \<Rightarrow> 'n dataplane \<Rightarrow> nat \<Rightarrow> rs_state \<Rightarrow> 'h proc \<Rightarrow> mac_addr option \<times> 'h proc" where
  "resolve_rs_mac env dp si rs p =
     (if \<not> mac_is_zero (rst_mac rs) then (Some (rst_mac rs), p)
      else
        let s = sess (pr_sessions p) si;
            (r, cache, p) = resolve_mac env dp (next_hop (dp_route dp) (rst_ip rs)) (rs_mac s, rs_mac_gen s) mac_zero p
        in (r, on_sessions (modify si (\<lambda>s. s\<lparr>rs_mac := fst cache, rs_mac_gen := snd cache\<rparr>)) p))"

definition resolve_client_mac ::
  "('h, 'n) lb_env \<Rightarrow> 'n dataplane \<Rightarrow> nat \<Rightarrow> 'h proc \<Rightarrow> mac_addr option \<times> 'h proc" where
  "resolve_client_mac env dp si p =
     (let s = sess (pr_sessions p) si;
          cip = src_ip (client s);
          fallback = (if on_link (dp_route dp) cip then cli_src_mac s else mac_zero);
          (r, cache, p) = resolve_mac env dp (next_hop (dp_route dp) cip) (cli_mac s, cli_mac_gen s) fallback p
      in (r, on_sessions (modify si (\<lambda>s. s\<lparr>cli_mac := fst cache, cli_mac_gen := snd cache\<rparr>)) p))"

definition count_bytes :: "byte_stat \<Rightarrow> u64 \<Rightarrow> 'h proc \<Rightarrow> 'h proc" where
  "count_bytes i n p = p\<lparr>pr_w := (pr_w p)\<lparr>w_stats := ws_add_bytes i n (w_stats (pr_w p))\<rparr>\<rparr>"

definition count_fwd_in :: "('h, 'n) lb_env \<Rightarrow> nat \<Rightarrow> 'h proc \<Rightarrow> 'h proc option" where
  "count_fwd_in env si p =
     (let len = ucast (pktmbuf_pkt_len env (pr_m p));
          p = count_bytes BS_FWD_IN len (count ST_FWD_IN p)
      in rs_count (rs_id (sess (pr_sessions p) si))
           (\<lambda>c. c\<lparr>rk_pkts_in := rk_pkts_in c + 1, rk_bytes_in := rk_bytes_in c + len\<rparr>) p)"

definition count_fwd_out :: "('h, 'n) lb_env \<Rightarrow> nat \<Rightarrow> 'h proc \<Rightarrow> 'h proc option" where
  "count_fwd_out env si p =
     (let len = ucast (pktmbuf_pkt_len env (pr_m p));
          p = count_bytes BS_FWD_OUT len (count ST_FWD_OUT p)
      in rs_count (rs_id (sess (pr_sessions p) si))
           (\<lambda>c. c\<lparr>rk_pkts_out := rk_pkts_out c + 1, rk_bytes_out := rk_bytes_out c + len\<rparr>) p)"

definition close_session :: "('h, 'n) lb_env \<Rightarrow> nat \<Rightarrow> 'h proc \<Rightarrow> 'h proc" where
  "close_session env si p = count ST_SESS_CLOSED (on_sessions (\<lambda>t. st_remove (env_sess env) t si) p)"

definition update_state :: "'n dataplane \<Rightarrow> nat \<Rightarrow> u8 \<Rightarrow> dir \<Rightarrow> 'h proc \<Rightarrow> 'h proc" where
  "update_state dp si fg d p =
     (let p = on_sessions (modify si (\<lambda>s.
                if sstate s \<noteq> UDP
                then (let (st, fin) = tcp_next_state (sstate s) fg d (fin_seen s) in s\<lparr>sstate := st, fin_seen := fin\<rparr>)
                else s)) p
      in on_sessions (\<lambda>t. st_touch t si (w_now_tick (pr_w p)) (state_timeout (sstate (sess t si)) (lb_timeouts (dp_cfg dp)))) p)"

section \<open>New sessions\<close>

text \<open>The candidate port of a probe: \<open>k\<close> is the cursor modulo the number of candidates.\<close>

definition snat_port :: "nat \<Rightarrow> nat \<Rightarrow> nat \<Rightarrow> nat" where
  "snat_port idx step k =
     (kNatPortMin + k * step + (if step > 1 then (idx + step - kNatPortMin mod step) mod step else 0)) mod 65536"

datatype 'h fullnat = Found "'h worker" nat | Table_Full "'h worker" | No_Port "'h worker"

text \<open>The inner loop, with the number of probes left; then the loop over the local addresses, with the
  number of addresses left.\<close>

primrec fullnat_probe ::
  "('h, 'n) lb_env \<Rightarrow> 'n dataplane \<Rightarrow> snapshot \<Rightarrow> five_tuple \<Rightarrow> rs_state \<Rightarrow> nat \<Rightarrow> nat \<Rightarrow> nat \<Rightarrow> 'h worker \<Rightarrow> 'h fullnat" where
  "fullnat_probe env dp snap cli rs timeout li 0 w = No_Port w"
| "fullnat_probe env dp snap cli rs timeout li (Suc left) w =
     (let st = dp_steering dp;
          proto = protocol cli;
          step = port_step st proto;
          range = kNatPortMax - kNatPortMin + 1;
          k = unat (w_lip_cursor w ! li) mod (range div step);
          w = w\<lparr>w_lip_cursor := (w_lip_cursor w)[li := w_lip_cursor w ! li + 1]\<rparr>;
          port = snat_port (w_idx w) step k;
          srv = FiveTuple (rst_ip rs) (snap_local_ips snap ! li) (rst_port_be rs) (htons (word_of_nat port)) proto
      in if port > kNatPortMax then fullnat_probe env dp snap cli rs timeout li left w
         else if ret_by_rss st proto \<and> ret_owner (env_rss env) st srv \<noteq> w_idx w
           then fullnat_probe env dp snap cli rs timeout li left w
         else if key_in_use (env_sess env) (w_sessions w) srv then fullnat_probe env dp snap cli rs timeout li left w
         else
           case st_create (env_sess env) (w_sessions w) cli (Some srv) (w_now_tick w) timeout of
             (t, None) \<Rightarrow> Table_Full (w\<lparr>w_sessions := t\<rparr>)
           | (t, Some si) \<Rightarrow> Found (w\<lparr>w_sessions := t, w_lip_rr := word_of_nat (li + 1)\<rparr>) si)"

primrec fullnat_lips ::
  "('h, 'n) lb_env \<Rightarrow> 'n dataplane \<Rightarrow> snapshot \<Rightarrow> five_tuple \<Rightarrow> rs_state \<Rightarrow> nat \<Rightarrow> nat \<Rightarrow> nat \<Rightarrow> 'h worker \<Rightarrow> 'h fullnat" where
  "fullnat_lips env dp snap cli rs timeout rr 0 w = No_Port w"
| "fullnat_lips env dp snap cli rs timeout rr (Suc left) w =
     (let lips = snap_local_ips snap;
          n = length lips - Suc left;
          li = (rr + n) mod length lips;
          probes = (if ret_by_rss (dp_steering dp) (protocol cli) then 64 * str_n (dp_steering dp) else 64)
      in case fullnat_probe env dp snap cli rs timeout li probes w of
           No_Port w \<Rightarrow> fullnat_lips env dp snap cli rs timeout rr left w
         | r \<Rightarrow> r)"

definition create_fullnat ::
  "('h, 'n) lb_env \<Rightarrow> 'n dataplane \<Rightarrow> snapshot \<Rightarrow> five_tuple \<Rightarrow> rs_state \<Rightarrow> nat \<Rightarrow> 'h worker \<Rightarrow> 'h worker \<times> (stat + nat)" where
  "create_fullnat env dp snap cli rs timeout w =
     (let lips = snap_local_ips snap in
      if lips = [] then (w, Inl ST_DROP_NO_PORT)
      else
        let w = w\<lparr>w_lip_cursor := w_lip_cursor w @ replicate (length lips - length (w_lip_cursor w)) 0\<rparr>
        in case fullnat_lips env dp snap cli rs timeout (unat (w_lip_rr w)) (length lips) w of
             Found w si \<Rightarrow> (w, Inr si)
           | Table_Full w \<Rightarrow> (w, Inl ST_DROP_TABLE_FULL)
           | No_Port w \<Rightarrow> (w, Inl ST_DROP_NO_PORT))"

text \<open>\<^verbatim>\<open>new_session\<close> for the service at place \<open>k\<close>; the pick moves the cursor of its scheduler.\<close>

definition new_session ::
  "('h, 'n) lb_env \<Rightarrow> 'n dataplane \<Rightarrow> nat \<Rightarrow> five_tuple \<Rightarrow> 'h proc \<Rightarrow> ('h proc \<times> (stat + nat)) option" where
  "new_session env dp k tuple p =
     (let snap = pr_snap p;
          svc = snap_services snap ! k;
          (sched, pick) = sched_pick (jhash_3words (env_hash env)) (sv_sched svc) tuple (w_idx (pr_w p));
          p = p\<lparr>pr_snap := snap\<lparr>snap_services := (snap_services snap)[k := svc\<lparr>sv_sched := sched\<rparr>]\<rparr>\<rparr>
      in case pick of
           None \<Rightarrow> Some (p, Inl ST_DROP_NO_RS)
         | Some i \<Rightarrow>
             let rs = snap_rs_pool snap ! (sv_rs svc ! i);
                 cfg = dp_cfg dp;
                 tcp = (protocol tuple = 6);
                 timeout = (if tcp then to_tcp_syn (lb_timeouts cfg) else to_udp (lb_timeouts cfg));
                 (w, r) =
                   (if snap_mode snap = NAT then create_fullnat env dp snap tuple rs timeout (pr_w p)
                    else
                      case st_create (env_sess env) (pr_sessions p) tuple None (w_now_tick (pr_w p)) timeout of
                        (t, None) \<Rightarrow> ((pr_w p)\<lparr>w_sessions := t\<rparr>, Inl ST_DROP_TABLE_FULL)
                      | (t, Some si) \<Rightarrow> ((pr_w p)\<lparr>w_sessions := t\<rparr>, Inr si));
                 p = p\<lparr>pr_w := w\<rparr>
             in case r of
                  Inl fail \<Rightarrow> Some (p, Inl fail)
                | Inr si \<Rightarrow>
                    let p = on_sessions (modify si (\<lambda>s.
                              let s = s\<lparr>rs_id := rst_id rs, svc_idx := sv_idx svc, sstate := if tcp then NONE else UDP,
                                        cli_src_mac := eth_src_mac (mb_data (pr_m p))\<rparr>
                              in if snap_mode snap = NAT \<and> tcp \<and> lb_toa cfg then s\<lparr>flags := flags s OR SF_TOA_PENDING\<rparr> else s)) p;
                        p = count ST_SESS_NEW p
                    in do {
                         p \<leftarrow> rs_count (rst_id rs) (\<lambda>c. c\<lparr>rk_conns := rk_conns c + 1\<rparr>) p;
                         let p = (if snap_mode snap = NAT \<and> on_link (dp_route dp) (src_ip tuple)
                                  then post_master_event (event_zero\<lparr>ev_type := EV_NEIGH_HINT, ev_ip := src_ip tuple,
                                         ev_mac := cli_src_mac (sess (pr_sessions p) si)\<rparr>) p
                                  else p);
                         Some (p, Inr si)
                       })"

section \<open>Client to service\<close>

definition is_syn :: "packet_meta \<Rightarrow> bool" where
  "is_syn meta \<longleftrightarrow> pm_ip_protocol meta = 6 \<and> pm_tcp_flags meta AND (TCP_SYN OR TCP_ACK OR TCP_RST) = TCP_SYN"

text \<open>The self-check of the hash that the network card reports; \<open>rss\<close> is the \<^verbatim>\<open>hash.rss\<close> of the buffer.\<close>

definition rss_check :: "('h, 'n) lb_env \<Rightarrow> 'n dataplane \<Rightarrow> five_tuple \<Rightarrow> bool \<Rightarrow> bool \<Rightarrow> u32 \<Rightarrow> 'h proc \<Rightarrow> 'h proc" where
  "rss_check env dp tuple syn redirected rss p =
     (let st = dp_steering dp in
      if syn \<and> str_hw st \<and> \<not> redirected then
        (if mb_ol_flags (pr_m p) AND RX_RSS_HASH env = 0 then count ST_RSS_NO_HASH p
         else if rss \<noteq> rss_hash (env_rss env) st tuple (l4_hashed st 6) then count ST_RSS_MISMATCH p
         else p)
      else p)"

text \<open>The session of the packet: the one that is there and still good, or a new one. The result is the
  reason of a drop, or the session and whether it is new.\<close>

definition inbound_session ::
  "('h, 'n) lb_env \<Rightarrow> 'n dataplane \<Rightarrow> nat \<Rightarrow> packet_meta \<Rightarrow> 'h proc \<Rightarrow> ('h proc \<times> (stat + nat \<times> bool)) option" where
  "inbound_session env dp k meta p =
     (let tuple = to_five_tuple meta;
          tcp = (pm_ip_protocol meta = 6);
          syn = is_syn meta;
          create = (\<lambda>p. if tcp \<and> \<not> syn then Some (p, Inl ST_DROP_NO_SESSION)
                        else do {
                          (p, r) \<leftarrow> new_session env dp k tuple p;
                          Some (p, case r of Inl fail \<Rightarrow> Inl fail | Inr si \<Rightarrow> Inr (si, True))
                        })
      in case st_lookup (env_sess env) (pr_sessions p) tuple of
           None \<Rightarrow> create p
         | Some si \<Rightarrow>
             let rs = snap_rs (pr_snap p) (rs_id (sess (pr_sessions p) si));
                 reuse = (syn \<and> tcp_state_reusable (sstate (sess (pr_sessions p) si)))
             in if rs = None \<or> \<not> usable (the rs) \<or> reuse then
                  let p = close_session env si p in
                  if \<not> syn \<and> tcp then Some (p, Inl (if rs \<noteq> None \<and> \<not> reuse then ST_DROP_RS_DOWN else ST_DROP_NO_SESSION))
                  else create p
                else Some (p, Inr (si, False)))"

definition inbound_rewrite :: "'n dataplane \<Rightarrow> session \<Rightarrow> mac_addr \<Rightarrow> nat_rewrite_to" where
  "inbound_rewrite dp s mac =
     \<lparr>rw_src_ip = dst_ip (server s), rw_dst_ip = src_ip (server s), rw_src_port = dst_port (server s),
      rw_dst_port = src_port (server s), rw_src_mac = dp_local_mac dp, rw_dst_mac = mac\<rparr>"

definition inbound_options :: "'n dataplane \<Rightarrow> session \<Rightarrow> packet_meta \<Rightarrow> nat_options" where
  "inbound_options dp s meta =
     nat_options_default\<lparr>opt_tx_offloads := dp_tx_offloads dp, opt_mtu := dp_mtu dp,
       opt_strip_ts := pm_ip_protocol meta = 6 \<and> lb_strip_tcp_timestamp (dp_cfg dp),
       opt_add_toa := flags s AND SF_TOA_PENDING \<noteq> 0 \<and> pm_tcp_flags meta AND (TCP_SYN OR TCP_RST) = 0,
       opt_toa_ip := src_ip (client s), opt_toa_port := src_port (client s)\<rparr>"

definition count_outcome :: "rewrite_outcome \<Rightarrow> 'h proc \<Rightarrow> 'h proc" where
  "count_outcome out p =
     (let p = (if ts_stripped out then count ST_TS_STRIPPED p else p);
          p = (if toa_added out then count ST_TOA_ADDED p else p)
      in if toa_no_room out then count ST_TOA_NO_ROOM p else p)"

text \<open>The part of \<^verbatim>\<open>handle_inbound\<close> after the session is known.\<close>

definition inbound_forward ::
  "('h, 'n) lb_env \<Rightarrow> 'n dataplane \<Rightarrow> packet_meta \<Rightarrow> nat \<Rightarrow> bool \<Rightarrow> 'h proc \<Rightarrow> ('h proc \<times> result) option" where
  "inbound_forward env dp meta si is_new p =
     do {
       rs \<leftarrow> snap_rs (pr_snap p) (rs_id (sess (pr_sessions p) si));
       let p = update_state dp si (pm_tcp_flags meta) CLIENT_TO_RS p;
       let p = on_sessions (modify si (\<lambda>s. s\<lparr>pkts_in := pkts_in s + 1, bytes_in := bytes_in s + ucast (pktmbuf_pkt_len env (pr_m p))\<rparr>)) p;
       let (mac, p) = resolve_rs_mac env dp si rs p;
       (case mac of
          None \<Rightarrow> Some (if is_new then close_session env si p else p, drop_res ST_DROP_NO_NEIGH)
        | Some rmac \<Rightarrow>
            if snap_mode (pr_snap p) = DR then do {
              p \<leftarrow> count_fwd_in env si (p\<lparr>pr_m := dr_rewrite (pr_m p) (dp_local_mac dp) rmac\<rparr>);
              Some (p, send_res)
            }
            else
              let s = sess (pr_sessions p) si in
              (case nat_rewrite (env_mbuf env) (pr_m p) meta (inbound_rewrite dp s rmac) (inbound_options dp s meta) rewrite_outcome_zero of
                 (r, m, meta', out) \<Rightarrow>
                   if r \<noteq> REWRITE_OK
                   then Some (let p = p\<lparr>pr_m := m\<rparr> in if is_new then close_session env si p else p, drop_res ST_DROP_TTL)
                   else do {
                     p \<leftarrow> count_fwd_in env si (count_outcome out (p\<lparr>pr_m := m\<rparr>));
                     Some (p, send_res)
                   }))
     }"

definition not_owner :: "nat \<Rightarrow> bool \<Rightarrow> result" where
  "not_owner owner redirected = (if redirected then drop_res ST_DROP_OTHER else redirect_res owner)"

definition handle_inbound ::
  "('h, 'n) lb_env \<Rightarrow> 'n dataplane \<Rightarrow> nat \<Rightarrow> packet_meta \<Rightarrow> bool \<Rightarrow> u32 \<Rightarrow> 'h proc \<Rightarrow> ('h proc \<times> result) option" where
  "handle_inbound env dp k meta redirected rss p =
     (let tuple = to_five_tuple meta;
          owner = fwd_owner (env_hash env) (env_rss env) (dp_steering dp) tuple
      in if owner \<noteq> w_idx (pr_w p) then Some (p, not_owner owner redirected)
         else do {
           (p, r) \<leftarrow> inbound_session env dp k meta (rss_check env dp tuple (is_syn meta) redirected rss p);
           (case r of
              Inl fail \<Rightarrow> Some (p, drop_res fail)
            | Inr (si, is_new) \<Rightarrow> inbound_forward env dp meta si is_new p)
         })"

section \<open>Real server to client\<close>

definition return_rewrite :: "'n dataplane \<Rightarrow> session \<Rightarrow> mac_addr \<Rightarrow> nat_rewrite_to" where
  "return_rewrite dp s mac =
     \<lparr>rw_src_ip = dst_ip (client s), rw_dst_ip = src_ip (client s), rw_src_port = dst_port (client s),
      rw_dst_port = src_port (client s), rw_src_mac = dp_local_mac dp, rw_dst_mac = mac\<rparr>"

definition return_forward ::
  "('h, 'n) lb_env \<Rightarrow> 'n dataplane \<Rightarrow> packet_meta \<Rightarrow> nat \<Rightarrow> 'h proc \<Rightarrow> ('h proc \<times> result) option" where
  "return_forward env dp meta si p =
     (let p = update_state dp si (pm_tcp_flags meta) RS_TO_CLIENT p;
          p = on_sessions (modify si (\<lambda>s.
                let s = (if flags s AND SF_TOA_PENDING \<noteq> 0 \<and> pm_tcp_flags meta AND TCP_SYN = 0
                         then s\<lparr>flags := flags s AND NOT SF_TOA_PENDING\<rparr> else s)
                in s\<lparr>pkts_out := pkts_out s + 1, bytes_out := bytes_out s + ucast (pktmbuf_pkt_len env (pr_m p))\<rparr>)) p;
          (mac, p) = resolve_client_mac env dp si p
      in case mac of
           None \<Rightarrow> Some (p, drop_res ST_DROP_NO_NEIGH)
         | Some cmac \<Rightarrow>
             let s = sess (pr_sessions p) si;
                 opt = nat_options_default\<lparr>opt_tx_offloads := dp_tx_offloads dp, opt_mtu := dp_mtu dp\<rparr>
             in case nat_rewrite (env_mbuf env) (pr_m p) meta (return_rewrite dp s cmac) opt rewrite_outcome_zero of
                  (r, m, meta', out) \<Rightarrow>
                    if r \<noteq> REWRITE_OK then Some (p\<lparr>pr_m := m\<rparr>, drop_res ST_DROP_TTL)
                    else do {
                      p \<leftarrow> count_fwd_out env si (p\<lparr>pr_m := m\<rparr>);
                      Some (p, send_res)
                    })"

definition handle_return ::
  "('h, 'n) lb_env \<Rightarrow> 'n dataplane \<Rightarrow> packet_meta \<Rightarrow> bool \<Rightarrow> 'h proc \<Rightarrow> ('h proc \<times> result) option" where
  "handle_return env dp meta redirected p =
     (let tuple = to_five_tuple meta;
          owner = ret_owner (env_rss env) (dp_steering dp) tuple
      in if owner \<noteq> w_idx (pr_w p) then Some (p, not_owner owner redirected)
         else
           case st_lookup (env_sess env) (pr_sessions p) tuple of
             None \<Rightarrow> Some (p, drop_res ST_DROP_NO_SESSION)
           | Some si \<Rightarrow>
               let s = sess (pr_sessions p) si in
               if flags s AND SF_FULLNAT = 0 \<or> server s \<noteq> tuple then Some (p, drop_res ST_DROP_NO_SESSION)
               else
                 let rs = snap_rs (pr_snap p) (rs_id s) in
                 if rs = None \<or> \<not> usable (the rs) then Some (close_session env si p, drop_res ST_DROP_RS_DOWN)
                 else return_forward env dp meta si p)"

section \<open>ICMP\<close>

text \<open>\<^verbatim>\<open>&&\<close> of lookups, from left to right.\<close>

definition and_also :: "bool option \<Rightarrow> bool option \<Rightarrow> bool option" where
  "and_also a b = (case a of None \<Rightarrow> None | Some False \<Rightarrow> Some False | Some True \<Rightarrow> b)"

text \<open>An error about a packet that was sent to a real server.\<close>

definition icmp_error_to_client ::
  "('h, 'n) lb_env \<Rightarrow> 'n dataplane \<Rightarrow> packet_meta \<Rightarrow> icmp_error_info \<Rightarrow> bool \<Rightarrow> 'h proc \<Rightarrow> ('h proc \<times> result) option" where
  "icmp_error_to_client env dp meta info redirected p =
     (let key = reverse (inner info);
          owner = ret_owner (env_rss env) (dp_steering dp) key
      in if owner \<noteq> w_idx (pr_w p) then Some (p, not_owner owner redirected)
         else
           case st_lookup (env_sess env) (pr_sessions p) key of
             None \<Rightarrow> Some (p, drop_res ST_DROP_NO_SESSION)
           | Some si \<Rightarrow>
               if server (sess (pr_sessions p) si) \<noteq> key then Some (p, drop_res ST_DROP_NO_SESSION)
               else
                 let (mac, p) = resolve_client_mac env dp si p in
                 case mac of
                   None \<Rightarrow> Some (p, drop_res ST_DROP_NO_NEIGH)
                 | Some cmac \<Rightarrow>
                     let c = client (sess (pr_sessions p) si);
                         (r, m) = nat_rewrite_icmp_error (pr_m p) meta info (dst_ip c) (src_ip c) c (dp_local_mac dp) cmac;
                         p = p\<lparr>pr_m := m\<rparr>
                     in if r \<noteq> REWRITE_OK then Some (p, drop_res ST_DROP_TTL)
                        else Some (count ST_ICMP_ERR_FWD p, send_res))"

text \<open>An error about a packet that was sent to a client.\<close>

definition icmp_error_to_rs ::
  "('h, 'n) lb_env \<Rightarrow> 'n dataplane \<Rightarrow> packet_meta \<Rightarrow> icmp_error_info \<Rightarrow> bool \<Rightarrow> 'h proc \<Rightarrow> ('h proc \<times> result) option" where
  "icmp_error_to_rs env dp meta info redirected p =
     (let key = reverse (inner info);
          owner = fwd_owner (env_hash env) (env_rss env) (dp_steering dp) key
      in if owner \<noteq> w_idx (pr_w p) then Some (p, not_owner owner redirected)
         else
           case st_lookup (env_sess env) (pr_sessions p) key of
             None \<Rightarrow> Some (p, drop_res ST_DROP_NO_SESSION)
           | Some si \<Rightarrow>
               let s = sess (pr_sessions p) si in
               if client s \<noteq> key then Some (p, drop_res ST_DROP_NO_SESSION)
               else
                 case snap_rs (pr_snap p) (rs_id s) of
                   None \<Rightarrow> Some (p, drop_res ST_DROP_NO_NEIGH)
                 | Some rs \<Rightarrow>
                     let (mac, p) = resolve_rs_mac env dp si rs p in
                     case mac of
                       None \<Rightarrow> Some (p, drop_res ST_DROP_NO_NEIGH)
                     | Some rmac \<Rightarrow>
                         if snap_mode (pr_snap p) = DR
                         then Some (count ST_ICMP_ERR_FWD (p\<lparr>pr_m := dr_rewrite (pr_m p) (dp_local_mac dp) rmac\<rparr>), send_res)
                         else
                           let v = server s;
                               (r, m) = nat_rewrite_icmp_error (pr_m p) meta info (dst_ip v) (src_ip v) v (dp_local_mac dp) rmac;
                               p = p\<lparr>pr_m := m\<rparr>
                           in if r \<noteq> REWRITE_OK then Some (p, drop_res ST_DROP_TTL)
                              else Some (count ST_ICMP_ERR_FWD p, send_res))"

definition handle_icmp_error ::
  "('h, 'n) lb_env \<Rightarrow> 'n dataplane \<Rightarrow> packet_meta \<Rightarrow> bool \<Rightarrow> 'h proc \<Rightarrow> ('h proc \<times> result) option" where
  "handle_icmp_error env dp meta redirected p =
     (case parse_icmp_error (mb_data (pr_m p)) meta of
        None \<Rightarrow> Some (p, drop_res ST_DROP_MALFORMED)
      | Some info \<Rightarrow>
          let he = env_hash env; snap = pr_snap p in do {
            c1 \<leftarrow> and_also (and_also (Some (snap_mode snap = NAT)) (is_lip he snap (pm_dst_ip meta)))
                    (and_also (is_lip he snap (src_ip (inner info))) (Some (in_nat_range (src_port (inner info)))));
            if c1 then icmp_error_to_client env dp meta info redirected p
            else do {
              c2 \<leftarrow> and_also (is_vip he snap (pm_dst_ip meta)) (is_vip he snap (src_ip (inner info)));
              if c2 then icmp_error_to_rs env dp meta info redirected p
              else Some (p, drop_res ST_DROP_NO_SESSION)
            }
          })"

definition handle_icmp ::
  "('h, 'n) lb_env \<Rightarrow> 'n dataplane \<Rightarrow> packet_meta \<Rightarrow> bool \<Rightarrow> 'h proc \<Rightarrow> ('h proc \<times> result) option" where
  "handle_icmp env dp meta redirected p =
     (let d = mb_data (pr_m p) in
      if icmp_is_error (d ! pm_l4_offset meta) then handle_icmp_error env dp meta redirected p
      else
        let (ok, d) = handle_echo_request d (pm_l4_offset meta) (pm_total_len meta - pm_l4_offset meta) in
        if \<not> ok then Some (p\<lparr>pr_m := (pr_m p)\<lparr>mb_data := d\<rparr>\<rparr>, drop_res ST_DROP_OTHER)
        else
          let ip = pm_l3_offset meta;
              d = set_src_mac (dp_local_mac dp) (swap_mac d);
              d = swap_ip d ip;
              d = d[ip + 8 := 64];
              d = ip_update d ip
          in Some (p\<lparr>pr_m := clear_tx_offload ((pr_m p)\<lparr>mb_data := d\<rparr>)\<rparr>, send_res))"

section \<open>Health checks and ARP\<close>

definition handle_hc_response :: "packet_meta \<Rightarrow> 'h proc \<Rightarrow> 'h proc \<times> result" where
  "handle_hc_response meta p =
     (if pm_ip_protocol meta \<noteq> 6 then (p, drop_res ST_DROP_OTHER)
      else
        let tcp = pm_l4_offset meta; d = mb_data (pr_m p);
            ev = event_zero\<lparr>ev_type := EV_HC_RESP, ev_ip := pm_src_ip meta, ev_port := ntohs (pm_dst_port meta),
                   ev_aux := ntohs (pm_src_port meta), ev_tcp_flags := pm_tcp_flags meta,
                   ev_seq := ntohl (get32 d (tcp + 4)), ev_ack := ntohl (get32 d (tcp + 8))\<rparr>
        in (count ST_HC_RESP (post_master_event ev p), consumed_res))"

definition handle_arp :: "('h, 'n) lb_env \<Rightarrow> 'n dataplane \<Rightarrow> 'h proc \<Rightarrow> ('h proc \<times> result) option" where
  "handle_arp env dp p =
     (let d = mb_data (pr_m p); he = env_hash env; snap = pr_snap p in
      if length d < 14 + 28 then Some (p, drop_res ST_DROP_MALFORMED)
      else
        let p = count ST_ARP p in
        if \<not> is_eth_ipv4 d then Some (p, consumed_res)
        else do {
          own \<leftarrow> is_local he snap (arp_sender_ip d);
          if own then Some (p, consumed_res)
          else do {
            us \<leftarrow> is_local he snap (arp_target_ip d);
            if \<not> us then Some (p, consumed_res)
            else
              let ev = event_zero\<lparr>ev_ip := arp_sender_ip d, ev_mac := arp_sender_mac d\<rparr> in
              if arp_is_request d then
                let p = (if arp_sender_ip d \<noteq> 0 \<and> on_link (dp_route dp) (arp_sender_ip d)
                         then post_master_event (ev\<lparr>ev_type := EV_ARP_FOR_US\<rparr>) p else p)
                in Some (p\<lparr>pr_m := clear_tx_offload ((pr_m p)\<lparr>mb_data := make_reply (dp_local_mac dp) d\<rparr>)\<rparr>, send_res)
              else if arp_is_reply d then Some (post_master_event (ev\<lparr>ev_type := EV_ARP_REPLY\<rparr>) p, consumed_res)
              else Some (p, consumed_res)
          }
        })"

section \<open>Entry\<close>

text \<open>A packet without a service or a session to go to.\<close>

definition not_served :: "('h, 'n) lb_env \<Rightarrow> packet_meta \<Rightarrow> 'h proc \<Rightarrow> ('h proc \<times> result) option" where
  "not_served env meta p =
     do {
       l \<leftarrow> is_local (env_hash env) (pr_snap p) (pm_dst_ip meta);
       Some (p, drop_res (if l then ST_DROP_NO_SERVICE else ST_DROP_NOT_LOCAL))
     }"

text \<open>TCP and UDP, in the order of the code: return traffic, health checks, services.\<close>

definition dispatch_l4 ::
  "('h, 'n) lb_env \<Rightarrow> 'n dataplane \<Rightarrow> packet_meta \<Rightarrow> bool \<Rightarrow> u32 \<Rightarrow> 'h proc \<Rightarrow> ('h proc \<times> result) option" where
  "dispatch_l4 env dp meta redirected rss p =
     (let he = env_hash env; dst = pm_dst_ip meta; snap = pr_snap p in do {
        ret \<leftarrow> and_also (and_also (Some (snap_mode snap = NAT)) (is_lip he snap dst)) (Some (in_nat_range (pm_dst_port meta)));
        if ret then handle_return env dp meta redirected p
        else if dst = snap_hc_src snap \<and> in_hc_range (pm_dst_port meta) then Some (handle_hc_response meta p)
        else do {
          svc \<leftarrow> find_service he snap dst (pm_dst_port meta) (pm_ip_protocol meta);
          (case svc of
             Some k \<Rightarrow> handle_inbound env dp k meta redirected rss p
           | None \<Rightarrow> not_served env meta p)
        }
      })"

definition process_packet ::
  "('h, 'n) lb_env \<Rightarrow> 'n dataplane \<Rightarrow> bool \<Rightarrow> u32 \<Rightarrow> 'h proc \<Rightarrow> ('h proc \<times> result) option" where
  "process_packet env dp redirected rss p =
     (let d = mb_data (pr_m p) in
      if length d < 14 then Some (p, drop_res ST_DROP_MALFORMED)
      else if is_arp d then handle_arp env dp p
      else if \<not> is_ipv4 d then Some (p, drop_res ST_DROP_OTHER)
      else
        case parse d meta_zero of
          (PARSE_FRAGMENT, _) \<Rightarrow> Some (p, drop_res ST_DROP_FRAGMENT)
        | (PARSE_MALFORMED, _) \<Rightarrow> Some (p, drop_res ST_DROP_MALFORMED)
        | (PARSE_OK, meta) \<Rightarrow>
            if cksum_bad env (pr_m p) then Some (p, drop_res ST_DROP_CKSUM)
            else if pm_src_mac meta = dp_local_mac dp then Some (p, consumed_res)
            else if pm_ip_protocol meta = 1 then do {
              l \<leftarrow> is_local (env_hash env) (pr_snap p) (pm_dst_ip meta);
              if \<not> l then Some (p, drop_res ST_DROP_NOT_LOCAL)
              else handle_icmp env dp meta redirected (if redirected then p else count ST_ICMP p)
            }
            else if pm_ip_protocol meta \<noteq> 6 \<and> pm_ip_protocol meta \<noteq> 17 then not_served env meta p
            else dispatch_l4 env dp meta redirected rss
                   (if redirected then p else count (if pm_ip_protocol meta = 6 then ST_TCP else ST_UDP) p))"

end
