(* ===== verification/Wheel_Lists.thy ===== *)
theory Wheel_Lists
  imports Session_Table
begin

text \<open>
  The lists of the timing wheel. The slots and the pending list are doubly linked lists threaded
  through the session array; \<open>dll\<close> says that the cells of an index list are linked in its order,
  and \<open>wheel_rep\<close> that every list head of the table leads to the list given for it. The lemmas say
  what linking, unlinking and draining do to the lists, for any number of lists at once.
\<close>

section \<open>Linked cells\<close>

fun dseg :: "session list \<Rightarrow> nat \<Rightarrow> nat \<Rightarrow> nat list \<Rightarrow> nat \<Rightarrow> bool" where
  "dseg S p h [] e \<longleftrightarrow> h = e"
| "dseg S p h (x # xs) e \<longleftrightarrow>
     h = x \<and> x < length S \<and> wheel_prev (S ! x) = p \<and> dseg S x (wheel_next (S ! x)) xs e"

abbreviation dll :: "session list \<Rightarrow> nat \<Rightarrow> nat list \<Rightarrow> bool" where
  "dll S h xs \<equiv> dseg S kNil h xs kNil"

definition same_links :: "session \<Rightarrow> session \<Rightarrow> bool" where
  "same_links a b \<longleftrightarrow> wheel_prev a = wheel_prev b \<and> wheel_next a = wheel_next b"

lemma same_links_refl [simp]: "same_links a a"
  by (simp add: same_links_def)

lemma dseg_append:
  "dseg S p h (xs @ ys) e \<longleftrightarrow> (\<exists>m. dseg S p h xs m \<and> dseg S (last (p # xs)) m ys e)"
  by (induction xs arbitrary: p h) auto

lemma dseg_frame:
  assumes "dseg S p h xs e" and "length S' = length S"
    and "\<And>x. x \<in> set xs \<Longrightarrow> same_links (S' ! x) (S ! x)"
  shows "dseg S' p h xs e"
  using assms by (induction xs arbitrary: p h) (auto simp: same_links_def)

lemma dseg_update_outside [simp]:
  "i \<notin> set xs \<Longrightarrow> dseg (S[i := v]) p h xs e = dseg S p h xs e"
  by (induction xs arbitrary: p h) auto

lemma dseg_bounded: "dseg S p h xs e \<Longrightarrow> x \<in> set xs \<Longrightarrow> x < length S"
  by (induction xs arbitrary: p h) auto

lemma dseg_prev_mem:
  "dseg S p h xs e \<Longrightarrow> x \<in> set xs \<Longrightarrow> wheel_prev (S ! x) = p \<or> wheel_prev (S ! x) \<in> set xs"
  by (induction xs arbitrary: p h) auto

lemma dseg_head: "dseg S p h xs kNil \<Longrightarrow> h = (case xs of [] \<Rightarrow> kNil | x # _ \<Rightarrow> x)"
  by (cases xs) auto

lemma dll_push:
  assumes "dll S h xs" "distinct xs" "i \<notin> set xs" "i < length S" "length S \<le> kFree"
    and "wheel_prev v = kNil" "wheel_next v = h"
    and "S' = (let S1 = S[i := v] in if h \<noteq> kNil then S1[h := (S1 ! h)\<lparr>wheel_prev := i\<rparr>] else S1)"
  shows "dll S' i (i # xs)"
  using assms by (cases xs) (auto simp: Let_def kNil_def kFree_def)

text \<open>The session array after the pointer updates of \<^verbatim>\<open>wheel_unlink\<close>.\<close>

definition unlinked :: "session list \<Rightarrow> nat \<Rightarrow> session list" where
  "unlinked S i =
     (let p = wheel_prev (S ! i); n = wheel_next (S ! i);
          S1 = (if p \<noteq> kNil then S[p := (S ! p)\<lparr>wheel_next := n\<rparr>] else S);
          S2 = (if n \<noteq> kNil then S1[n := (S1 ! n)\<lparr>wheel_prev := p\<rparr>] else S1)
      in S2[i := (S2 ! i)\<lparr>wheel_prev := kNil, wheel_next := kNil\<rparr>])"

lemma length_unlinked [simp]: "length (unlinked S i) = length S"
  by (simp add: unlinked_def Let_def)

lemma dseg_set_last_next:
  assumes "dseg S p h (xs @ [y]) e" "y \<notin> set xs"
  shows "dseg (S[y := (S ! y)\<lparr>wheel_next := e'\<rparr>]) p h (xs @ [y]) e'"
  using assms by (auto simp: dseg_append)

lemma dseg_set_first_prev:
  assumes "dseg S p x (x # xs) e" "x \<notin> set xs"
  shows "dseg (S[x := (S ! x)\<lparr>wheel_prev := p'\<rparr>]) p' x (x # xs) e"
  using assms by auto

lemma kNil_not_index: "i < n \<Longrightarrow> n \<le> kFree \<Longrightarrow> i \<noteq> kNil"
  by (simp add: kNil_def kFree_def)

lemma dll_unlink:
  assumes "dll S h (xs @ i # ys)" "distinct (xs @ i # ys)" "length S \<le> kFree"
  shows "dll (unlinked S i) (if wheel_prev (S ! i) \<noteq> kNil then h else wheel_next (S ! i)) (xs @ ys)"
proof -
  let ?p = "wheel_prev (S ! i)" and ?n = "wheel_next (S ! i)"
  have pre: "dseg S kNil h xs i" and p: "?p = last (kNil # xs)" and post: "dseg S i ?n ys kNil"
    and i: "i < length S"
    using assms(1) by (auto simp: dseg_append)
  have n: "?n = (case ys of [] \<Rightarrow> kNil | y # _ \<Rightarrow> y)"
    using post dseg_head by blast
  define S1 where "S1 = (if ?p \<noteq> kNil then S[?p := (S ! ?p)\<lparr>wheel_next := ?n\<rparr>] else S)"
  define S2 where "S2 = (if ?n \<noteq> kNil then S1[?n := (S1 ! ?n)\<lparr>wheel_prev := ?p\<rparr>] else S1)"
  have nil: "x < length S \<Longrightarrow> x \<noteq> kNil" for x
    using assms(3) kNil_not_index by blast
  have len: "length S1 = length S" by (simp add: S1_def)
  have 1: "dseg S1 kNil (if ?p \<noteq> kNil then h else ?n) xs ?n \<and> dseg S1 i ?n ys kNil"
  proof (cases xs rule: rev_cases)
    case Nil
    then show ?thesis using p post by (simp add: S1_def)
  next
    case (snoc zs z)
    have "?p = z" "z \<noteq> kNil"
      using p pre snoc nil by (auto simp: dseg_append)
    then show ?thesis
      using pre post snoc assms(2) dseg_set_last_next [of S kNil h zs z i ?n]
      by (auto simp: S1_def)
  qed
  have 2: "dseg S2 kNil (if ?p \<noteq> kNil then h else ?n) xs ?n \<and> dseg S2 ?p ?n ys kNil"
  proof (cases ys)
    case Nil
    then show ?thesis using 1 n by (simp add: S2_def)
  next
    case (Cons y zs)
    have "?n = y" "y \<noteq> kNil"
      using post Cons n nil by auto
    then show ?thesis
      using 1 Cons assms(2) dseg_set_first_prev [of S1 i y zs kNil ?p]
      by (auto simp: S2_def)
  qed
  have "unlinked S i = S2[i := (S2 ! i)\<lparr>wheel_prev := kNil, wheel_next := kNil\<rparr>]"
    by (simp add: unlinked_def S1_def S2_def Let_def)
  then show ?thesis
    using 2 p assms(2) by (auto simp: dseg_append)
qed

lemma unlinked_outside:
  assumes "dll S h (xs @ i # ys)" "length S \<le> kFree" "j \<notin> set (xs @ i # ys)"
  shows "unlinked S i ! j = S ! j"
proof -
  have p: "wheel_prev (S ! i) = last (kNil # xs)" and post: "dseg S i (wheel_next (S ! i)) ys kNil"
    using assms(1) by (auto simp: dseg_append)
  have "wheel_prev (S ! i) \<noteq> kNil \<Longrightarrow> wheel_prev (S ! i) \<noteq> j"
    using p assms(3) by (auto split: if_splits)
  moreover have "wheel_next (S ! i) \<noteq> kNil \<Longrightarrow> wheel_next (S ! i) \<noteq> j"
    using dseg_head [OF post] assms(3) by (auto split: list.splits)
  ultimately show ?thesis
    using assms(3) by (auto simp: unlinked_def Let_def)
qed

section \<open>The lists of a table\<close>

text \<open>A list of the table is named by a slot number, or \<^term>\<open>None\<close> for the pending list.
  \<open>home\<close> is the list a session says it is on.\<close>

definition head_of :: "'h session_table \<Rightarrow> nat option \<Rightarrow> nat" where
  "head_of t c = (case c of None \<Rightarrow> pending t | Some s \<Rightarrow> slots t ! s)"

definition home :: "session \<Rightarrow> nat option" where
  "home s = (if in_pending s then None else Some (wheel_slot (slot_tick s)))"

definition wheel_idx :: "nat option set" where
  "wheel_idx = insert None (Some ` {..<kWheelSlots})"

definition wheel_rep :: "'h session_table \<Rightarrow> (nat option \<Rightarrow> nat list) \<Rightarrow> bool" where
  "wheel_rep t W \<longleftrightarrow>
     length (sessions t) = capacity t \<and> capacity t \<le> kFree \<and> length (slots t) = kWheelSlots \<and>
     (\<forall>c\<in>wheel_idx. dll (sessions t) (head_of t c) (W c) \<and> distinct (W c) \<and>
        (\<forall>i\<in>set (W c). home (sess t i) = c)) \<and>
     (\<forall>c. c \<notin> wheel_idx \<longrightarrow> W c = [])"

definition linked :: "(nat option \<Rightarrow> nat list) \<Rightarrow> nat \<Rightarrow> bool" where
  "linked W i \<longleftrightarrow> (\<exists>c. i \<in> set (W c))"

text \<open>The part of a session the wheel does not use.\<close>

definition core :: "session \<Rightarrow> session" where
  "core s = s\<lparr>slot_tick := 0, wheel_prev := 0, wheel_next := 0, in_pending := False\<rparr>"

lemma core_sel:
  assumes "core a = core b"
  shows "client a = client b" "server a = server b" "rs_id a = rs_id b" "svc_idx a = svc_idx b"
    "sstate a = sstate b" "fin_seen a = fin_seen b" "flags a = flags b"
    "created_tick a = created_tick b" "expire_tick a = expire_tick b" "is_fullnat a = is_fullnat b"
  using assms by (cases a; cases b; simp add: core_def is_fullnat_def)+

lemma core_update [simp]:
  "core (s\<lparr>slot_tick := a\<rparr>) = core s" "core (s\<lparr>wheel_prev := b\<rparr>) = core s"
  "core (s\<lparr>wheel_next := b\<rparr>) = core s" "core (s\<lparr>in_pending := d\<rparr>) = core s"
  by (simp_all add: core_def)

lemma home_update [simp]:
  "home (s\<lparr>wheel_prev := b\<rparr>) = home s" "home (s\<lparr>wheel_next := b\<rparr>) = home s"
  by (simp_all add: home_def)

lemma wheel_slot_less [simp]: "wheel_slot k < kWheelSlots"
  by (simp add: wheel_slot_def kWheelSlots_def)

lemma home_wheel_idx [simp]: "home s \<in> wheel_idx"
  by (simp add: home_def wheel_idx_def)

lemma None_wheel_idx [simp]: "None \<in> wheel_idx"
  by (simp add: wheel_idx_def)

lemma Some_wheel_idx [simp]: "Some s \<in> wheel_idx \<longleftrightarrow> s < kWheelSlots"
  by (auto simp: wheel_idx_def)

lemma wheel_repD:
  assumes "wheel_rep t W"
  shows "length (sessions t) = capacity t" "capacity t \<le> kFree" "length (slots t) = kWheelSlots"
    "c \<in> wheel_idx \<Longrightarrow> dll (sessions t) (head_of t c) (W c)" "distinct (W c)"
    "i \<in> set (W c) \<Longrightarrow> home (sess t i) = c" "i \<in> set (W c) \<Longrightarrow> c \<in> wheel_idx"
    "c \<notin> wheel_idx \<Longrightarrow> W c = []"
  using assms by (auto simp: wheel_rep_def)

lemma linked_iff: "wheel_rep t W \<Longrightarrow> linked W i \<longleftrightarrow> i \<in> set (W (home (sess t i)))"
  by (auto simp: linked_def dest: wheel_repD(6))

lemma linked_bounded: "wheel_rep t W \<Longrightarrow> linked W i \<Longrightarrow> i < capacity t"
  by (metis linked_def wheel_repD(1,4,7) dseg_bounded)

lemma linked_prev: "wheel_rep t W \<Longrightarrow> linked W i \<Longrightarrow> wheel_prev (sess t i) \<noteq> kFree"
proof -
  assume r: "wheel_rep t W" and "linked W i"
  then obtain c where c: "i \<in> set (W c)" by (auto simp: linked_def)
  then have "wheel_prev (sess t i) = kNil \<or> wheel_prev (sess t i) \<in> set (W c)"
    using r dseg_prev_mem wheel_repD(4,7) by metis
  moreover have "x \<in> set (W c) \<Longrightarrow> x < kFree" for x
    using linked_bounded [OF r] wheel_repD(2) [OF r] by (fastforce simp: linked_def)
  moreover have "kNil \<noteq> kFree" by (simp add: kNil_def kFree_def)
  ultimately show ?thesis by (metis less_irrefl)
qed

lemma head_of_None_iff: "wheel_rep t W \<Longrightarrow> pending t = kNil \<longleftrightarrow> W None = []"
proof -
  assume r: "wheel_rep t W"
  have d: "dll (sessions t) (pending t) (W None)"
    using wheel_repD(4) [OF r, of None] by (simp add: head_of_def)
  show ?thesis
  proof (cases "W None")
    case Nil
    then show ?thesis using d by simp
  next
    case (Cons x xs)
    then have "pending t = x" "x < length (sessions t)" using d by auto
    then show ?thesis
      using Cons kNil_not_index wheel_repD(1,2) [OF r] by auto
  qed
qed

section \<open>Linking\<close>

lemma rep_push:
  assumes r: "wheel_rep t W" and i: "i < capacity t" "\<not> linked W i"
    and v: "wheel_prev v = kNil" "wheel_next v = head_of t (home v)"
    and S': "sessions t' = (let S1 = (sessions t)[i := v]; h = head_of t (home v)
               in if h \<noteq> kNil then S1[h := (S1 ! h)\<lparr>wheel_prev := i\<rparr>] else S1)"
    and hd: "head_of t' (home v) = i" "\<And>c. c \<in> wheel_idx \<Longrightarrow> c \<noteq> home v \<Longrightarrow> head_of t' c = head_of t c"
    and len: "capacity t' = capacity t" "length (slots t') = kWheelSlots"
  shows "wheel_rep t' (W(home v := i # W (home v)))"
    and "sess t' i = v"
    and "j \<noteq> i \<Longrightarrow> core (sess t' j) = core (sess t j) \<and> home (sess t' j) = home (sess t j) \<and>
         slot_tick (sess t' j) = slot_tick (sess t j)"
    and "j \<noteq> i \<Longrightarrow> j \<notin> set (W (home v)) \<Longrightarrow> sess t' j = sess t j"
    and "j \<noteq> i \<Longrightarrow> wheel_next (sess t' j) = wheel_next (sess t j)"
proof -
  let ?h = "head_of t (home v)"
  have d: "dll (sessions t) ?h (W (home v))"
    using wheel_repD(4) [OF r] by simp
  have hW: "?h \<noteq> kNil \<Longrightarrow> ?h \<in> set (W (home v))"
    using dseg_head [OF d] by (auto split: list.splits)
  have ni: "i \<notin> set (W c)" for c
    using i by (auto simp: linked_def)
  have hi: "?h \<noteq> kNil \<Longrightarrow> ?h \<noteq> i" using hW ni by metis
  note ls = wheel_repD(1) [OF r]
  have other: "j \<noteq> i \<Longrightarrow> sess t' j = (if ?h \<noteq> kNil \<and> j = ?h then (sess t j)\<lparr>wheel_prev := i\<rparr> else sess t j)" for j
    using hi hW dseg_bounded [OF d] by (auto simp: S' Let_def nth_list_update)
  show own: "sess t' i = v"
    using i(1) ls hi by (simp add: S' Let_def)
  show "j \<noteq> i \<Longrightarrow> core (sess t' j) = core (sess t j) \<and> home (sess t' j) = home (sess t j) \<and>
         slot_tick (sess t' j) = slot_tick (sess t j)" for j
    by (simp add: other)
  show out: "j \<noteq> i \<Longrightarrow> j \<notin> set (W (home v)) \<Longrightarrow> sess t' j = sess t j" for j
    using hW by (auto simp: other)
  show "j \<noteq> i \<Longrightarrow> wheel_next (sess t' j) = wheel_next (sess t j)" for j
    by (simp add: other)
  have homes: "j \<in> set (W c) \<Longrightarrow> home (sess t' j) = c" for j c
  proof -
    assume j: "j \<in> set (W c)"
    then have "j \<noteq> i" using ni by metis
    then show ?thesis using wheel_repD(6) [OF r j] by (auto simp: other)
  qed
  have "dll (sessions t') i (i # W (home v))"
    using dll_push [OF d wheel_repD(5) [OF r] ni _ _ v, of "sessions t'"] i(1) ls wheel_repD(2) [OF r]
    by (simp add: S' Let_def)
  moreover have "dll (sessions t') (head_of t' c) (W c)" if "c \<in> wheel_idx" "c \<noteq> home v" for c
  proof (rule dseg_frame)
    show "dll (sessions t) (head_of t' c) (W c)"
      using wheel_repD(4) [OF r that(1)] hd(2) [OF that] by simp
    show "length (sessions t') = length (sessions t)" by (simp add: S' Let_def)
    show "same_links (sess t' x) (sess t x)" if x: "x \<in> set (W c)" for x
    proof -
      have "x \<notin> set (W (home v))" using wheel_repD(6) [OF r] x \<open>c \<noteq> home v\<close> by metis
      then show ?thesis using out ni x by (metis same_links_refl)
    qed
  qed
  moreover have "length (sessions t') = capacity t" using ls by (simp add: S' Let_def)
  ultimately show "wheel_rep t' (W(home v := i # W (home v)))"
    using r hd(1) len ni own homes wheel_repD(5,8) [OF r]
    by (auto simp: wheel_rep_def)
qed

lemma head_of_slots: "head_of (t\<lparr>slots := xs\<rparr>) c = (case c of None \<Rightarrow> pending t | Some s \<Rightarrow> xs ! s)"
  by (simp add: head_of_def split: option.split)

lemma sessions_modify: "sessions (modify i f t) = (sessions t)[i := f (sess t i)]"
  by (simp add: modify_def)

text \<open>The session as \<^verbatim>\<open>wheel_link\<close> and \<^verbatim>\<open>pending_push\<close> write it.\<close>

definition link_cell :: "'h session_table \<Rightarrow> nat \<Rightarrow> nat \<Rightarrow> session" where
  "link_cell t i tick =
     (let tick = max tick (cur_tick t)
      in (sess t i)\<lparr>slot_tick := tick, in_pending := False, wheel_prev := kNil,
                    wheel_next := slots t ! wheel_slot tick\<rparr>)"

definition push_cell :: "'h session_table \<Rightarrow> nat \<Rightarrow> session" where
  "push_cell t i = (sess t i)\<lparr>in_pending := True, wheel_prev := kNil, wheel_next := pending t\<rparr>"

lemma link_cell_sel [simp]:
  "core (link_cell t i tick) = core (sess t i)" "slot_tick (link_cell t i tick) = max tick (cur_tick t)"
  "home (link_cell t i tick) = Some (wheel_slot (max tick (cur_tick t)))"
  "wheel_prev (link_cell t i tick) = kNil"
  "wheel_next (link_cell t i tick) = slots t ! wheel_slot (max tick (cur_tick t))"
  by (simp_all add: link_cell_def Let_def home_def)

lemma push_cell_sel [simp]:
  "core (push_cell t i) = core (sess t i)" "slot_tick (push_cell t i) = slot_tick (sess t i)"
  "home (push_cell t i) = None" "wheel_prev (push_cell t i) = kNil"
  "wheel_next (push_cell t i) = pending t"
  by (simp_all add: push_cell_def home_def)

lemma wheel_link_rep:
  assumes "wheel_rep t W" "i < capacity t" "\<not> linked W i"
    and "c = Some (wheel_slot (max tick (cur_tick t)))"
  shows "wheel_rep (wheel_link t i tick) (W(c := i # W c))"
    and "sess (wheel_link t i tick) i = link_cell t i tick"
    and "j \<noteq> i \<Longrightarrow> core (sess (wheel_link t i tick) j) = core (sess t j) \<and>
         home (sess (wheel_link t i tick) j) = home (sess t j) \<and>
         slot_tick (sess (wheel_link t i tick) j) = slot_tick (sess t j)"
    and "j \<noteq> i \<Longrightarrow> \<not> linked W j \<Longrightarrow> sess (wheel_link t i tick) j = sess t j"
proof -
  let ?t = "wheel_link t i tick" and ?v = "link_cell t i tick"
  have tick: "(if tick < cur_tick t then cur_tick t else tick) = max tick (cur_tick t)" by auto
  have v: "wheel_prev ?v = kNil" "wheel_next ?v = head_of t (home ?v)"
    by (simp_all add: head_of_def)
  have S': "sessions ?t = (let S1 = (sessions t)[i := ?v]; h = head_of t (home ?v)
      in if h \<noteq> kNil then S1[h := (S1 ! h)\<lparr>wheel_prev := i\<rparr>] else S1)"
    using assms(2) wheel_repD(1) [OF assms(1)]
    by (simp add: wheel_link_def tick Let_def sessions_modify head_of_def frame_simps)
      (simp add: link_cell_def Let_def)
  have sl: "slots ?t = (slots t)[wheel_slot (max tick (cur_tick t)) := i]"
    by (simp add: wheel_link_def tick Let_def frame_simps)
  have hd: "head_of ?t (home ?v) = i"
    "\<And>c. c \<in> wheel_idx \<Longrightarrow> c \<noteq> home ?v \<Longrightarrow> head_of ?t c = head_of t c"
    using wheel_repD(3) [OF assms(1)] by (auto simp: head_of_def sl frame_simps nth_list_update split: option.split)
  have len: "capacity ?t = capacity t" "length (slots ?t) = kWheelSlots"
    using wheel_repD(3) [OF assms(1)] by (simp_all add: frame_simps sl)
  note push = rep_push [OF assms(1-3) v S' hd len]
  show "wheel_rep ?t (W(c := i # W c))" using push(1) assms(4) by simp
  show "sess ?t i = ?v" by (rule push(2))
  show "j \<noteq> i \<Longrightarrow> core (sess ?t j) = core (sess t j) \<and> home (sess ?t j) = home (sess t j) \<and>
         slot_tick (sess ?t j) = slot_tick (sess t j)" by (rule push(3))
  show "j \<noteq> i \<Longrightarrow> \<not> linked W j \<Longrightarrow> sess ?t j = sess t j"
    using push(4) by (auto simp: linked_def)
qed

lemma pending_push_rep:
  assumes "wheel_rep t W" "i < capacity t" "\<not> linked W i"
  shows "wheel_rep (pending_push t i) (W(None := i # W None))"
    and "sess (pending_push t i) i = push_cell t i"
    and "j \<noteq> i \<Longrightarrow> core (sess (pending_push t i) j) = core (sess t j) \<and>
         home (sess (pending_push t i) j) = home (sess t j) \<and>
         slot_tick (sess (pending_push t i) j) = slot_tick (sess t j)"
    and "j \<noteq> i \<Longrightarrow> \<not> linked W j \<Longrightarrow> sess (pending_push t i) j = sess t j"
proof -
  let ?t = "pending_push t i" and ?v = "push_cell t i"
  have v: "wheel_prev ?v = kNil" "wheel_next ?v = head_of t (home ?v)"
    by (simp_all add: head_of_def)
  have S': "sessions ?t = (let S1 = (sessions t)[i := ?v]; h = head_of t (home ?v)
      in if h \<noteq> kNil then S1[h := (S1 ! h)\<lparr>wheel_prev := i\<rparr>] else S1)"
    using assms(2) wheel_repD(1) [OF assms(1)]
    by (simp add: pending_push_def Let_def sessions_modify head_of_def frame_simps)
      (simp add: push_cell_def)
  have hd: "head_of ?t (home ?v) = i"
    "\<And>c. c \<in> wheel_idx \<Longrightarrow> c \<noteq> home ?v \<Longrightarrow> head_of ?t c = head_of t c"
    by (auto simp: head_of_def frame_simps pending_push_def Let_def split: option.split)
  have len: "capacity ?t = capacity t" "length (slots ?t) = kWheelSlots"
    using wheel_repD(3) [OF assms(1)] by (simp_all add: frame_simps)
  note push = rep_push [OF assms(1-3) v S' hd len]
  show "wheel_rep ?t (W(None := i # W None))" using push(1) by simp
  show "sess ?t i = ?v" by (rule push(2))
  show "j \<noteq> i \<Longrightarrow> core (sess ?t j) = core (sess t j) \<and> home (sess ?t j) = home (sess t j) \<and>
         slot_tick (sess ?t j) = slot_tick (sess t j)" by (rule push(3))
  show "j \<noteq> i \<Longrightarrow> \<not> linked W j \<Longrightarrow> sess ?t j = sess t j"
    using push(4) by (auto simp: linked_def)
qed

section \<open>Unlinking\<close>

lemma update_keeps: "g v = g (xs ! k) \<Longrightarrow> g (xs[k := v] ! j) = g (xs ! j)"
  by (cases "k < length xs"; cases "j = k") (simp_all add: list_update_beyond)

lemmas update_keeps_part = update_keeps [where g = core] update_keeps [where g = home]
  update_keeps [where g = slot_tick]

lemma unlinked_core [simp]:
  "core (unlinked S i ! j) = core (S ! j)" "home (unlinked S i ! j) = home (S ! j)"
  "slot_tick (unlinked S i ! j) = slot_tick (S ! j)"
  by (simp_all add: unlinked_def Let_def update_keeps_part)

lemma sessions_wheel_unlink: "sessions (wheel_unlink t i) = unlinked (sessions t) i"
  by (simp add: wheel_unlink_def unlinked_def Let_def sessions_modify frame_simps)

lemma head_of_wheel_unlink:
  assumes "length (slots t) = kWheelSlots" "c \<in> wheel_idx"
  shows "head_of (wheel_unlink t i) c =
    (if wheel_prev (sess t i) = kNil \<and> c = home (sess t i) then wheel_next (sess t i) else head_of t c)"
  using assms
  by (cases c; cases "wheel_prev (sess t i) = kNil"; cases "wheel_next (sess t i) = kNil"; cases "in_pending (sess t i)")
    (auto simp: wheel_unlink_def Let_def head_of_def frame_simps set_head_def home_def nth_list_update)

lemma slots_wheel_unlink_length [simp]: "length (slots (wheel_unlink t i)) = length (slots t)"
  by (simp add: wheel_unlink_def Let_def frame_simps set_head_def)

lemma wheel_unlink_rep:
  assumes r: "wheel_rep t W" and l: "linked W i" and c: "c = home (sess t i)"
  shows "wheel_rep (wheel_unlink t i) (W(c := remove1 i (W c)))"
    and "j \<noteq> i \<Longrightarrow> \<not> linked W j \<Longrightarrow> sess (wheel_unlink t i) j = sess t j"
    and "\<not> linked (W(c := remove1 i (W c))) i"
proof -
  have ci: "c \<in> wheel_idx" by (simp add: c)
  have "i \<in> set (W c)" using linked_iff [OF r] l c by simp
  then obtain xs ys where W: "W c = xs @ i # ys" by (auto simp: in_set_conv_decomp)
  have dist: "distinct (xs @ i # ys)" using wheel_repD(5) [OF r, of c] W by simp
  have d: "dll (sessions t) (head_of t c) (xs @ i # ys)" using wheel_repD(4) [OF r ci] W by simp
  have len: "length (sessions t) \<le> kFree" using wheel_repD(1,2) [OF r] by simp
  have rm: "remove1 i (W c) = xs @ ys" using dist W by (simp add: remove1_append)
  have "dll (unlinked (sessions t) i) (head_of (wheel_unlink t i) c) (xs @ ys)"
    using dll_unlink [OF d dist len] head_of_wheel_unlink [OF wheel_repD(3) [OF r] ci] c by auto
  moreover have "dll (unlinked (sessions t) i) (head_of (wheel_unlink t i) b) (W b)"
    if b: "b \<in> wheel_idx" "b \<noteq> c" for b
  proof (rule dseg_frame)
    show "dll (sessions t) (head_of (wheel_unlink t i) b) (W b)"
      using head_of_wheel_unlink [OF wheel_repD(3) [OF r] b(1)] wheel_repD(4) [OF r b(1)] b(2) c by simp
    fix x assume "x \<in> set (W b)"
    then have "x \<notin> set (xs @ i # ys)" using wheel_repD(6) [OF r] b(2) W by metis
    then show "same_links (unlinked (sessions t) i ! x) (sess t x)"
      using unlinked_outside [OF d len] by simp
  qed simp
  ultimately show "wheel_rep (wheel_unlink t i) (W(c := remove1 i (W c)))"
    using r rm dist W wheel_repD(6,8) [OF r] ci
    by (auto simp: wheel_rep_def sessions_wheel_unlink frame_simps)
  show "j \<noteq> i \<Longrightarrow> \<not> linked W j \<Longrightarrow> sess (wheel_unlink t i) j = sess t j"
    using unlinked_outside [OF d len] W by (metis linked_def sessions_wheel_unlink)
  show "\<not> linked (W(c := remove1 i (W c))) i"
    using rm dist wheel_repD(6) [OF r] c by (auto simp: linked_def)
qed

lemma rep_modify_outside:
  assumes "wheel_rep t W" "\<not> linked W i"
  shows "wheel_rep (modify i f t) W"
proof -
  have "i \<notin> set (W c)" for c using assms(2) by (simp add: linked_def)
  moreover from this have "x \<in> set (W c) \<Longrightarrow> home (sess (modify i f t) x) = home (sess t x)" for x c
    by (metis nth_list_update_neq sessions_modify)
  moreover have "head_of (modify i f t) = head_of t"
    by (simp add: head_of_def fun_eq_iff frame_simps split: option.split)
  ultimately show ?thesis
    using assms(1) by (simp add: wheel_rep_def sessions_modify frame_simps)
qed

lemma wheel_rep_cong:
  "wheel_rep t W \<Longrightarrow> sessions t' = sessions t \<Longrightarrow> capacity t' = capacity t \<Longrightarrow> slots t' = slots t \<Longrightarrow>
   pending t' = pending t \<Longrightarrow> wheel_rep t' W"
  by (subgoal_tac "head_of t' = head_of t")
    (simp_all add: wheel_rep_def head_of_def fun_eq_iff split: option.split)

lemma unlinked_self:
  "i < length S \<Longrightarrow> wheel_prev (unlinked S i ! i) = kNil \<and> wheel_next (unlinked S i ! i) = kNil"
  by (simp add: unlinked_def Let_def)

lemma pending_pop_rep:
  assumes r: "wheel_rep t W" and W: "W None = i # xs"
  shows "pending t = i" "i < capacity t"
    and "wheel_rep (fst (pending_pop t)) (W(None := xs))" "\<not> linked (W(None := xs)) i"
    and "core (sess (fst (pending_pop t)) j) = core (sess t j)"
    and "slot_tick (sess (fst (pending_pop t)) j) = slot_tick (sess t j)"
    and "j \<noteq> i \<Longrightarrow> \<not> linked W j \<Longrightarrow> sess (fst (pending_pop t)) j = sess t j"
    and "\<not> in_pending (sess (fst (pending_pop t)) i)" "wheel_prev (sess (fst (pending_pop t)) i) = kNil"
      "wheel_next (sess (fst (pending_pop t)) i) = kNil"
proof -
  have l: "linked W i" using W by (metis linked_def list.set_intros(1))
  show p: "pending t = i"
    using wheel_repD(4) [OF r, of None] W by (simp add: head_of_def)
  show b: "i < capacity t" using linked_bounded [OF r l] .
  have h: "None = home (sess t i)" using wheel_repD(6) [OF r, of i None] W by simp
  have len: "i < length (sessions t)" using b wheel_repD(1) [OF r] by simp
  note u = wheel_unlink_rep [OF r l h]
  have W': "W(None := remove1 i (W None)) = W(None := xs)" using W by simp
  have pop: "fst (pending_pop t) = modify i (\<lambda>s. s\<lparr>in_pending := False\<rparr>) (wheel_unlink t i)"
    by (simp add: pending_pop_def p)
  show "\<not> linked (W(None := xs)) i" using u(3) W' by simp
  show "wheel_rep (fst (pending_pop t)) (W(None := xs))"
    using rep_modify_outside [OF u(1) u(3)] W' by (simp add: pop)
  show "core (sess (fst (pending_pop t)) j) = core (sess t j)"
    "slot_tick (sess (fst (pending_pop t)) j) = slot_tick (sess t j)"
    by (simp_all add: pop sessions_modify sessions_wheel_unlink update_keeps_part)
  show "j \<noteq> i \<Longrightarrow> \<not> linked W j \<Longrightarrow> sess (fst (pending_pop t)) j = sess t j"
    using u(2) by (simp add: pop sessions_modify)
  show "\<not> in_pending (sess (fst (pending_pop t)) i)" "wheel_prev (sess (fst (pending_pop t)) i) = kNil"
    "wheel_next (sess (fst (pending_pop t)) i) = kNil"
    using unlinked_self len by (simp_all add: pop sessions_modify sessions_wheel_unlink)
qed

section \<open>Draining a slot\<close>

fun chain :: "session list \<Rightarrow> nat \<Rightarrow> nat list \<Rightarrow> bool" where
  "chain S h [] \<longleftrightarrow> h = kNil"
| "chain S h (x # xs) \<longleftrightarrow> h = x \<and> x \<noteq> kNil \<and> chain S (wheel_next (S ! x)) xs"

lemma chain_frame:
  assumes "chain S h xs" "\<And>x. x \<in> set xs \<Longrightarrow> S' ! x = S ! x"
  shows "chain S' h xs"
  using assms by (induction xs arbitrary: h) auto

lemma dseg_chain: "dseg S p h xs kNil \<Longrightarrow> length S \<le> kFree \<Longrightarrow> chain S h xs"
  by (induction xs arbitrary: p h) (auto simp: kNil_def kFree_def)

definition moved :: "'h session_table \<Rightarrow> 'h session_table \<Rightarrow> bool" where
  "moved t t' \<longleftrightarrow> hash t' = hash t \<and> free_stack t' = free_stack t \<and> free_top t' = free_top t \<and>
     capacity t' = capacity t \<and> slots t' = slots t \<and> cur_tick t' = cur_tick t \<and>
     (\<forall>j. core (sess t' j) = core (sess t j) \<and> slot_tick (sess t' j) = slot_tick (sess t j))"

lemma linked_push: "linked (W(c := i # W c)) j \<longleftrightarrow> j = i \<or> linked W j"
  by (auto simp: linked_def)

lemma drain_slot_rep:
  assumes "wheel_rep t W" "distinct L" "\<And>x. x \<in> set L \<Longrightarrow> x < capacity t \<and> \<not> linked W x"
    and "chain (sessions t) h L"
  shows "\<exists>t'. drain_slot t h = Some t' \<and> wheel_rep t' (W(None := rev L @ W None)) \<and> moved t t' \<and>
    (\<forall>j. j \<notin> set L \<longrightarrow> \<not> linked W j \<longrightarrow> sess t' j = sess t j)"
  using assms
proof (induction L arbitrary: t h W)
  case Nil
  then show ?case
    by (intro exI [of _ t]) (simp add: drain_slot.simps [of t kNil] moved_def)
next
  case (Cons x L)
  let ?t = "pending_push t x" and ?W = "W(None := x # W None)"
  have x: "h = x" "x \<noteq> kNil" "x < capacity t" "\<not> linked W x" using Cons.prems by auto
  note push = pending_push_rep [OF Cons.prems(1) x(3,4)]
  have ch: "chain (sessions ?t) (wheel_next (sess t x)) L"
  proof (rule chain_frame)
    show "chain (sessions t) (wheel_next (sess t x)) L" using Cons.prems(4) by simp
    show "sess ?t y = sess t y" if "y \<in> set L" for y
      using push(4) Cons.prems(2,3) that by (metis distinct.simps(2) list.set_intros(2))
  qed
  have out: "y < capacity ?t \<and> \<not> linked ?W y" if "y \<in> set L" for y
    using Cons.prems(2,3) that by (auto simp: linked_push frame_simps)
  have "distinct L" using Cons.prems(2) by simp
  from Cons.IH [OF push(1) this out ch] obtain t' where t': "drain_slot ?t (wheel_next (sess t x)) = Some t'"
    "wheel_rep t' (?W(None := rev L @ ?W None))" "moved ?t t'"
    "\<forall>j. j \<notin> set L \<longrightarrow> \<not> linked ?W j \<longrightarrow> sess t' j = sess ?t j"
    by blast
  have "moved t ?t"
    using push(2,3) by (simp add: moved_def frame_simps) (metis push_cell_sel(1,2))
  then have "moved t t'" using t'(3) by (simp add: moved_def)
  moreover have "drain_slot t h = Some t'"
    using t'(1) x by (simp add: drain_slot.simps [of t x])
  moreover have "\<forall>j. j \<notin> set (x # L) \<longrightarrow> \<not> linked W j \<longrightarrow> sess t' j = sess t j"
    using t'(4) push(4) by (simp add: linked_push)
  moreover have "?W(None := rev L @ ?W None) = W(None := rev (x # L) @ W None)"
    by (simp add: fun_eq_iff)
  ultimately show ?case using t'(2) by metis
qed

end
