(* ===== verification/Session_Inv.thy ===== *)
theory Session_Inv
  imports Wheel_Lists
begin

text \<open>
  The invariant of the session table and its preservation by every operation. \<open>st_rep\<close> ties the
  four structures together: the wheel lists hold exactly the sessions that are in use, the free
  stack exactly the others, the hash maps the keys of the sessions in use and nothing else to their
  index, and the ticks of a session agree with the list it is on. The set \<open>H\<close> holds sessions that
  an operation has taken off their list and not yet put back or released.
\<close>

section \<open>The invariant\<close>

definition is_active :: "'h session_table \<Rightarrow> nat \<Rightarrow> bool" where
  "is_active t i \<longleftrightarrow> i < capacity t \<and> wheel_prev (sess t i) \<noteq> kFree"

definition has_key :: "session \<Rightarrow> five_tuple \<Rightarrow> bool" where
  "has_key s k \<longleftrightarrow> client s = k \<or> (is_fullnat s \<and> server s = k)"

definition free_list :: "'h session_table \<Rightarrow> nat list" where
  "free_list t = take (free_top t) (free_stack t)"

definition live :: "(nat option \<Rightarrow> nat list) \<Rightarrow> nat set \<Rightarrow> nat \<Rightarrow> bool" where
  "live W H i \<longleftrightarrow> linked W i \<or> i \<in> H"

definition free_ok :: "'h session_table \<Rightarrow> (nat option \<Rightarrow> nat list) \<Rightarrow> nat set \<Rightarrow> bool" where
  "free_ok t W H \<longleftrightarrow>
     length (free_stack t) = capacity t \<and> free_top t \<le> capacity t \<and> distinct (free_list t) \<and>
     set (free_list t) = {i. i < capacity t \<and> \<not> live W H i} \<and>
     (\<forall>i\<in>set (free_list t). wheel_prev (sess t i) = kFree)"

definition hash_ok :: "('h, five_tuple, nat) hash_ops \<Rightarrow> 'h session_table \<Rightarrow> (nat option \<Rightarrow> nat list) \<Rightarrow> nat set \<Rightarrow> bool" where
  "hash_ok ops t W H \<longleftrightarrow>
     (\<forall>k i. hash_lookup ops (hash t) k = Some i \<longleftrightarrow> live W H i \<and> has_key (sess t i) k)"

definition tick_ok :: "nat \<Rightarrow> session \<Rightarrow> bool" where
  "tick_ok cur s \<longleftrightarrow> (if in_pending s then Suc (slot_tick s) = cur
                      else cur \<le> slot_tick s \<and> slot_tick s \<le> expire_tick s)"

definition time_ok :: "'h session_table \<Rightarrow> (nat option \<Rightarrow> nat list) \<Rightarrow> nat set \<Rightarrow> bool" where
  "time_ok t W H \<longleftrightarrow>
     (\<forall>i. live W H i \<longrightarrow> expire_tick (sess t i) + 2 \<le> cur_tick t + kWheelSlots) \<and>
     (\<forall>i. linked W i \<longrightarrow> tick_ok (cur_tick t) (sess t i))"

definition st_rep :: "('h, five_tuple, nat) hash_ops \<Rightarrow> 'h session_table \<Rightarrow> (nat option \<Rightarrow> nat list) \<Rightarrow> nat set \<Rightarrow> bool" where
  "st_rep ops t W H \<longleftrightarrow>
     wheel_rep t W \<and> free_ok t W H \<and> hash_ok ops t W H \<and> time_ok t W H \<and>
     (\<forall>i\<in>H. i < capacity t \<and> \<not> linked W i \<and> wheel_prev (sess t i) \<noteq> kFree)"

definition st_inv :: "('h, five_tuple, nat) hash_ops \<Rightarrow> 'h session_table \<Rightarrow> bool" where
  "st_inv ops t \<longleftrightarrow> (\<exists>W. st_rep ops t W {})"

text \<open>A timeout fits the wheel when the deadline it gives lies less than one turn ahead.\<close>

definition in_horizon :: "'h session_table \<Rightarrow> nat \<Rightarrow> nat \<Rightarrow> bool" where
  "in_horizon t now_tick timeout \<longleftrightarrow> deadline now_tick timeout + 2 \<le> cur_tick t + kWheelSlots"

lemma st_repD:
  assumes "st_rep ops t W H"
  shows "wheel_rep t W" "free_ok t W H" "hash_ok ops t W H" "time_ok t W H"
    "i \<in> H \<Longrightarrow> i < capacity t" "i \<in> H \<Longrightarrow> \<not> linked W i" "i \<in> H \<Longrightarrow> wheel_prev (sess t i) \<noteq> kFree"
  using assms by (auto simp: st_rep_def)

lemma live_simps [simp]: "live W {} = linked W" "live W {i} j \<longleftrightarrow> j = i \<or> linked W j"
  by (auto simp: live_def)

lemma live_bounded: "st_rep ops t W H \<Longrightarrow> live W H i \<Longrightarrow> i < capacity t"
  by (auto simp: live_def dest: st_repD linked_bounded)

lemma active_iff_live: "st_rep ops t W H \<Longrightarrow> is_active t i \<longleftrightarrow> live W H i"
proof
  assume r: "st_rep ops t W H" and "live W H i"
  then show "is_active t i"
    using live_bounded [OF r] linked_prev [OF st_repD(1) [OF r]] st_repD(7) [OF r]
    by (auto simp: is_active_def live_def)
next
  assume r: "st_rep ops t W H" and a: "is_active t i"
  then show "live W H i"
    using st_repD(2) [OF r] by (auto simp: is_active_def free_ok_def)
qed

lemma active_iff_linked: "st_rep ops t W {} \<Longrightarrow> is_active t i \<longleftrightarrow> linked W i"
  using active_iff_live [of ops t W "{}"] by simp

lemma has_key_core: "core a = core b \<Longrightarrow> has_key a k = has_key b k"
  by (simp add: has_key_def core_sel [of a b])

text \<open>What an operation on the wheel alone leaves of the other structures.\<close>

lemma free_ok_cong:
  assumes "free_ok t W H" "free_stack t' = free_stack t" "free_top t' = free_top t"
    "capacity t' = capacity t" "\<And>i. i < capacity t \<Longrightarrow> live W' H' i = live W H i"
    "\<And>i. i < capacity t \<Longrightarrow> \<not> live W H i \<Longrightarrow> sess t' i = sess t i"
  shows "free_ok t' W' H'"
  using assms by (auto simp: free_ok_def free_list_def)

lemma hash_ok_cong:
  assumes "hash_ok ops t W H" "hash t' = hash t" "\<And>i. live W' H' i = live W H i"
    "\<And>i. live W H i \<Longrightarrow> core (sess t' i) = core (sess t i)"
  shows "hash_ok ops t' W' H'"
proof -
  have "live W H i \<Longrightarrow> has_key (sess t' i) k = has_key (sess t i) k" for i k
    using assms(4) by (intro has_key_core)
  then show ?thesis using assms(1-3) by (auto simp: hash_ok_def)
qed

lemma linked_unlink_iff:
  assumes "wheel_rep t W" "linked W i" "c = home (sess t i)"
  shows "linked (W(c := remove1 i (W c))) j \<longleftrightarrow> linked W j \<and> j \<noteq> i"
proof (cases "j = i")
  case True
  then show ?thesis using wheel_unlink_rep(3) [OF assms] by simp
next
  case False
  then show ?thesis by (auto simp: linked_def)
qed

section \<open>Taking a session off its list and putting it back\<close>

lemma tick_ok_cong:
  "core a = core b \<Longrightarrow> home a = home b \<Longrightarrow> slot_tick a = slot_tick b \<Longrightarrow> tick_ok c a = tick_ok c b"
  by (auto simp: tick_ok_def home_def dest: core_sel split: if_splits)

lemma unlink_rep:
  assumes r: "st_rep ops t W {}" and l: "linked W i" and c: "c = home (sess t i)"
  shows "st_rep ops (wheel_unlink t i) (W(c := remove1 i (W c))) {i}"
proof -
  let ?t = "wheel_unlink t i" and ?W = "W(c := remove1 i (W c))"
  note w = st_repD(1) [OF r]
  note u = wheel_unlink_rep [OF w l c] and lk = linked_unlink_iff [OF w l c]
  have lv: "live ?W {i} j = live W {} j" for j using l lk by auto
  have i: "i < capacity t" "i < length (sessions t)"
    using linked_bounded [OF w l] wheel_repD(1) [OF w] by auto
  have "free_ok ?t ?W {i}"
    using st_repD(2) [OF r] by (rule free_ok_cong) (use u(2) lv l in \<open>auto simp: frame_simps\<close>)
  moreover have "hash_ok ops ?t ?W {i}"
    using st_repD(3) [OF r] by (rule hash_ok_cong) (use lv in \<open>auto simp: frame_simps sessions_wheel_unlink\<close>)
  moreover have "tick_ok (cur_tick t) (sess ?t j) = tick_ok (cur_tick t) (sess t j)" for j
    by (rule tick_ok_cong) (simp_all add: sessions_wheel_unlink)
  then have "time_ok ?t ?W {i}"
    using st_repD(4) [OF r] lv core_sel(9) [OF unlinked_core(1)]
    by (auto simp: time_ok_def lk frame_simps sessions_wheel_unlink)
  moreover have "wheel_prev (sess ?t i) \<noteq> kFree"
    using unlinked_self [OF i(2)] by (simp add: sessions_wheel_unlink kNil_def kFree_def)
  ultimately show ?thesis
    using u(1,3) i(1) by (simp add: st_rep_def frame_simps)
qed

lemma link_rep:
  assumes r: "st_rep ops t W {i}" and e: "tick \<le> expire_tick (sess t i)" "cur_tick t \<le> expire_tick (sess t i)"
    and c: "c = Some (wheel_slot (max tick (cur_tick t)))"
  shows "st_rep ops (wheel_link t i tick) (W(c := i # W c)) {}"
proof -
  let ?t = "wheel_link t i tick" and ?W = "W(c := i # W c)"
  have i: "i < capacity t" "\<not> linked W i" using st_repD(5,6) [OF r] by auto
  note k = wheel_link_rep [OF st_repD(1) [OF r] i c]
  have lv: "live ?W {} j = live W {i} j" for j by (simp add: linked_push)
  have cores: "core (sess ?t j) = core (sess t j)" for j
    using k(2,3) by (cases "j = i") auto
  have "free_ok ?t ?W {}"
    using st_repD(2) [OF r] by (rule free_ok_cong) (use k(4) lv in \<open>auto simp: frame_simps\<close>)
  moreover have "hash_ok ops ?t ?W {}"
    using st_repD(3) [OF r] by (rule hash_ok_cong) (use lv cores in \<open>auto simp: frame_simps\<close>)
  moreover have "tick_ok (cur_tick t) (sess ?t i)"
    using e by (auto simp: k(2) tick_ok_def link_cell_def Let_def)
  moreover have "tick_ok (cur_tick t) (sess ?t j)" if "linked W j" for j
  proof -
    have "j \<noteq> i" using i(2) that by metis
    then have "tick_ok (cur_tick t) (sess ?t j) = tick_ok (cur_tick t) (sess t j)"
      using k(3) by (intro tick_ok_cong) auto
    then show ?thesis using st_repD(4) [OF r] that by (simp add: time_ok_def)
  qed
  ultimately show ?thesis
    using st_repD(4) [OF r] k(1) core_sel(9) [OF cores]
    by (auto simp: st_rep_def time_ok_def linked_push frame_simps)
qed

lemma pop_rep:
  assumes r: "st_rep ops t W {}" and W: "W None = i # xs"
  shows "st_rep ops (fst (pending_pop t)) (W(None := xs)) {i}"
proof -
  let ?t = "fst (pending_pop t)" and ?W = "W(None := xs)"
  note w = st_repD(1) [OF r]
  note p = pending_pop_rep [OF w W]
  have l: "linked W i" using W by (metis linked_def list.set_intros(1))
  have h: "None = home (sess t i)" using wheel_repD(6) [OF w, of i None] W by simp
  have lk: "linked ?W j \<longleftrightarrow> linked W j \<and> j \<noteq> i" for j
    using linked_unlink_iff [OF w l h, of j] W by simp
  have lv: "live ?W {i} j = live W {} j" for j using l lk by auto
  have "free_ok ?t ?W {i}"
    using st_repD(2) [OF r] by (rule free_ok_cong) (use p(7) lv l in \<open>auto simp: frame_simps\<close>)
  moreover have "hash_ok ops ?t ?W {i}"
    using st_repD(3) [OF r] by (rule hash_ok_cong) (use lv p(5) in \<open>auto simp: frame_simps\<close>)
  moreover have "home (sess ?t j) = home (sess t j)" if "j \<noteq> i" for j
    using that by (simp add: pending_pop_def Let_def sessions_modify sessions_wheel_unlink p(1))
  then have "j \<noteq> i \<Longrightarrow> tick_ok (cur_tick t) (sess ?t j) = tick_ok (cur_tick t) (sess t j)" for j
    by (intro tick_ok_cong p(5,6))
  then have "time_ok ?t ?W {i}"
    using st_repD(4) [OF r] lv core_sel(9) [OF p(5)] by (auto simp: time_ok_def lk frame_simps)
  ultimately show ?thesis
    using p(2-4,9) by (simp add: st_rep_def frame_simps kNil_def kFree_def)
qed

section \<open>Releasing a session\<close>

text \<open>\<^verbatim>\<open>remove\<close> without its \<^verbatim>\<open>wheel_unlink\<close>.\<close>

definition release :: "('h, five_tuple, nat) hash_ops \<Rightarrow> 'h session_table \<Rightarrow> nat \<Rightarrow> 'h session_table" where
  "release ops t idx =
     (let s = sess t idx;
          h = hash_del ops (hash t) (client s);
          h = (if is_fullnat s then hash_del ops h (server s) else h);
          t = modify idx (\<lambda>s. s\<lparr>wheel_prev := kFree\<rparr>) (t\<lparr>hash := h\<rparr>)
      in t\<lparr>free_stack := (free_stack t)[free_top t := idx], free_top := free_top t + 1\<rparr>)"

lemma wheel_unlink_hash: "wheel_unlink (t\<lparr>hash := h\<rparr>) i = (wheel_unlink t i)\<lparr>hash := h\<rparr>"
  by (simp add: wheel_unlink_def Let_def modify_def set_head_def)

lemma st_remove_release: "st_remove ops t i = release ops (wheel_unlink t i) i"
  using core_sel [OF unlinked_core(1), of "sessions t" i i]
  by (simp add: st_remove_def release_def Let_def wheel_unlink_hash sessions_wheel_unlink frame_simps modify_def)

text \<open>A session just popped from the pending list is unlinked once more by \<^verbatim>\<open>remove\<close>. Its links are
  empty, so this only clears the head of its old slot, which is empty while no deadline lies a
  whole turn ahead.\<close>

lemma unlink_popped:
  assumes w: "wheel_rep t W" and i: "i < capacity t" "\<not> in_pending (sess t i)"
    "wheel_prev (sess t i) = kNil" "wheel_next (sess t i) = kNil"
    and e: "W (Some (wheel_slot (slot_tick (sess t i)))) = []"
  shows "wheel_unlink t i = t"
proof -
  let ?s = "wheel_slot (slot_tick (sess t i))"
  have "slots t ! ?s = kNil"
    using wheel_repD(4) [OF w, of "Some ?s"] e by (simp add: head_of_def)
  then have "(slots t)[?s := kNil] = slots t" by (metis list_update_id)
  moreover have "(sess t i)\<lparr>wheel_prev := kNil, wheel_next := kNil\<rparr> = sess t i"
    using i(3,4) by (cases "sess t i") simp
  then have "(sessions t)[i := (sess t i)\<lparr>wheel_prev := kNil, wheel_next := kNil\<rparr>] = sessions t"
    by (metis list_update_id)
  ultimately show ?thesis
    using i(2-4) by (simp add: wheel_unlink_def set_head_def modify_def)
qed

lemma release_free_list:
  assumes "free_ok t W H" "free_top t < capacity t"
  shows "free_list (release ops t i) = free_list t @ [i]"
  using assms by (simp add: release_def Let_def free_list_def free_ok_def modify_def take_Suc_conv_app_nth)

lemma free_top_less:
  assumes "free_ok t W H" "live W H i" "i < capacity t"
  shows "free_top t < capacity t"
proof -
  have "card (set (free_list t)) = free_top t"
    using assms(1) distinct_card [of "free_list t"] by (simp add: free_ok_def) (simp add: free_list_def)
  moreover have "set (free_list t) \<subset> {..<capacity t}"
    using assms by (auto simp: free_ok_def)
  ultimately show ?thesis by (metis card_lessThan finite_lessThan psubset_card_mono)
qed

lemma release_rep:
  assumes hash: "rte_hash ops" and r: "st_rep ops t W {i}"
  shows "st_rep ops (release ops t i) W {}"
proof -
  let ?t = "release ops t i" and ?s = "sess t i"
  note f = st_repD(2) [OF r] and w = st_repD(1) [OF r]
  have i: "i < capacity t" "\<not> linked W i" using st_repD(5,6) [OF r] by auto
  have S: "sessions ?t = (sessions t)[i := ?s\<lparr>wheel_prev := kFree\<rparr>]"
    and fr: "capacity ?t = capacity t" "slots ?t = slots t" "pending ?t = pending t"
      "cur_tick ?t = cur_tick t" "free_top ?t = free_top t + 1"
      "length (free_stack ?t) = length (free_stack t)"
    by (simp_all add: release_def Let_def modify_def)
  have same: "linked W j \<Longrightarrow> sess ?t j = sess t j" for j
    using i(2) by (metis S nth_list_update_neq)
  have "wheel_rep ?t W"
    by (rule wheel_rep_cong [OF rep_modify_outside [OF w i(2), of "\<lambda>s. s\<lparr>wheel_prev := kFree\<rparr>"]])
      (simp_all add: S fr sessions_modify frame_simps)
  moreover have top: "free_top t < capacity t"
    using free_top_less [OF f _ i(1)] by simp
  have "free_ok ?t W {}"
    using f i top wheel_repD(1) [OF w]
    by (auto simp: free_ok_def fr release_free_list [OF f top] S nth_list_update)
  moreover have "hash_ok ops ?t W {}"
  proof -
    have lk: "hash_lookup ops (hash ?t) k = (if has_key ?s k then None else hash_lookup ops (hash t) k)" for k
      using rte_hash.lookup_del_iff [OF hash]
      by (auto simp: release_def Let_def modify_def has_key_def)
    have ok: "hash_lookup ops (hash t) k = Some j \<longleftrightarrow> (j = i \<or> linked W j) \<and> has_key (sess t j) k" for k j
      using st_repD(3) [OF r] by (simp add: hash_ok_def)
    show ?thesis
      unfolding hash_ok_def
    proof (intro allI iffI)
      fix k j assume "hash_lookup ops (hash ?t) k = Some j"
      then show "live W {} j \<and> has_key (sess ?t j) k"
        using lk ok same by (auto split: if_splits)
    next
      fix k j assume a: "live W {} j \<and> has_key (sess ?t j) k"
      then have "hash_lookup ops (hash t) k = Some j" using ok same by auto
      moreover have "\<not> has_key ?s k" using a ok i(2) calculation by (metis live_simps(1) option.inject)
      ultimately show "hash_lookup ops (hash ?t) k = Some j" by (simp add: lk)
    qed
  qed
  moreover have "time_ok ?t W {}"
    using st_repD(4) [OF r] same by (simp add: time_ok_def fr)
  ultimately show ?thesis by (simp add: st_rep_def)
qed

section \<open>The operations keep the invariant\<close>

lemma core_st_remove: "core (sess (st_remove ops t i) j) = core (sess t j)"
  by (simp add: st_remove_release release_def Let_def modify_def sessions_wheel_unlink update_keeps_part)

lemma st_invE:
  assumes "st_inv ops t"
  obtains W where "st_rep ops t W {}" "is_active t = linked W"
  using assms active_iff_linked unfolding st_inv_def by blast

lemma st_remove_inv:
  assumes "rte_hash ops" "st_inv ops t" "is_active t i"
  shows "st_inv ops (st_remove ops t i)"
    and "is_active (st_remove ops t i) j \<longleftrightarrow> is_active t j \<and> j \<noteq> i"
proof -
  obtain W where r: "st_rep ops t W {}" and a: "is_active t = linked W"
    using assms(2) by (rule st_invE)
  define c where "c = home (sess t i)"
  have l: "linked W i" using a assms(3) by simp
  have u: "st_rep ops (st_remove ops t i) (W(c := remove1 i (W c))) {}"
    using release_rep [OF assms(1) unlink_rep [OF r l c_def]] by (simp add: st_remove_release)
  then show "st_inv ops (st_remove ops t i)" by (auto simp: st_inv_def)
  show "is_active (st_remove ops t i) j \<longleftrightarrow> is_active t j \<and> j \<noteq> i"
    using active_iff_linked [OF u] linked_unlink_iff [OF st_repD(1) [OF r] l c_def] a by simp
qed

text \<open>Rewriting fields of a session that the wheel and the hash do not read.\<close>

lemma modify_rep:
  assumes r: "st_rep ops t W {}" and l: "linked W i"
    and f: "home (f (sess t i)) = home (sess t i)" "same_links (f (sess t i)) (sess t i)"
      "has_key (f (sess t i)) = has_key (sess t i)"
    and e: "expire_tick (f (sess t i)) + 2 \<le> cur_tick t + kWheelSlots" "tick_ok (cur_tick t) (f (sess t i))"
  shows "st_rep ops (modify i f t) W {}"
proof -
  note w = st_repD(1) [OF r]
  have i: "i < capacity t" "i < length (sessions t)"
    using linked_bounded [OF w l] wheel_repD(1) [OF w] by auto
  have own: "sess (modify i f t) i = f (sess t i)" and other: "j \<noteq> i \<Longrightarrow> sess (modify i f t) j = sess t j" for j
    using i by (simp_all add: sessions_modify)
  have out: "\<not> linked W j \<Longrightarrow> sess (modify i f t) j = sess t j" for j
    using other l by metis
  have links: "same_links (sess (modify i f t) j) (sess t j)" "home (sess (modify i f t) j) = home (sess t j)"
    "has_key (sess (modify i f t) j) = has_key (sess t j)" for j
    using f own other by (cases "j = i"; simp)+
  have "head_of (modify i f t) = head_of t"
    by (simp add: head_of_def fun_eq_iff frame_simps split: option.split)
  then have "wheel_rep (modify i f t) W"
    using w links by (auto simp: wheel_rep_def frame_simps intro: dseg_frame)
  moreover have "free_ok (modify i f t) W {}"
    using st_repD(2) [OF r] by (rule free_ok_cong) (use out in \<open>auto simp: frame_simps\<close>)
  moreover have "hash_ok ops (modify i f t) W {}"
    using st_repD(3) [OF r] by (simp add: hash_ok_def links frame_simps)
  moreover have "time_ok (modify i f t) W {}"
    using st_repD(4) [OF r] e own other by (simp add: time_ok_def frame_simps) metis
  ultimately show ?thesis by (simp add: st_rep_def)
qed

lemma st_touch_rep:
  assumes r: "st_rep ops t W {}" and l: "linked W i"
    and n: "cur_tick t \<le> Suc now_tick" and h: "in_horizon t now_tick timeout"
  shows "\<exists>W'. st_rep ops (st_touch t i now_tick timeout) W' {} \<and> linked W' = linked W"
proof -
  let ?e = "deadline now_tick timeout" and ?s = "sess t i"
  have ce: "cur_tick t < ?e" using n by (simp add: deadline_def)
  have ok: "tick_ok (cur_tick t) ?s" using st_repD(4) [OF r] l by (simp add: time_ok_def)
  show ?thesis
  proof (cases "?e < slot_tick ?s \<and> \<not> in_pending ?s")
    case True
    define c where "c = home ?s"
    define d where "d = Some (wheel_slot (max ?e (cur_tick t)))"
    let ?W = "W(c := remove1 i (W c))" and ?t = "wheel_unlink t i"
    note w = st_repD(1) [OF r] and u = unlink_rep [OF r l c_def]
    have ex: "expire_tick (sess ?t i) = expire_tick ?s"
      using core_sel(9) [OF unlinked_core(1)] by (simp add: sessions_wheel_unlink)
    have lim: "?e \<le> expire_tick ?s" "cur_tick t \<le> expire_tick ?s" using True ok by (auto simp: tick_ok_def)
    have k: "st_rep ops (wheel_link ?t i ?e) (?W(d := i # ?W d)) {}"
      by (rule link_rep [OF u]) (use ex lim in \<open>simp_all add: frame_simps d_def\<close>)
    have own: "sess (wheel_link ?t i ?e) i = link_cell ?t i ?e"
      by (rule wheel_link_rep [OF st_repD(1) [OF u], where c = d])
        (use st_repD(5,6) [OF u] in \<open>auto simp: frame_simps d_def\<close>)
    have li: "linked (?W(d := i # ?W d)) i" by (simp only: linked_push simp_thms)
    have "st_rep ops (modify i (\<lambda>s. s\<lparr>expire_tick := ?e\<rparr>) (wheel_link ?t i ?e)) (?W(d := i # ?W d)) {}"
      by (rule modify_rep [OF k li])
        (use h own ce in \<open>auto simp: in_horizon_def frame_simps same_links_def home_def has_key_def
           is_fullnat_def tick_ok_def link_cell_def Let_def\<close>)
    moreover have "linked (?W(d := i # ?W d)) = linked W"
      using l linked_unlink_iff [OF w l c_def] by (simp only: fun_eq_iff linked_push) metis
    ultimately show ?thesis using True by (auto simp: st_touch_def Let_def)
  next
    case False
    have "st_rep ops (modify i (\<lambda>s. s\<lparr>expire_tick := ?e\<rparr>) t) W {}"
      by (rule modify_rep [OF r l])
        (use h ok False in \<open>auto simp: in_horizon_def home_def same_links_def has_key_def is_fullnat_def tick_ok_def\<close>)
    then show ?thesis using False by (auto simp: st_touch_def Let_def)
  qed
qed

text \<open>The session \<^verbatim>\<open>create\<close> writes, before it is linked.\<close>

definition fresh_session :: "five_tuple \<Rightarrow> five_tuple option \<Rightarrow> nat \<Rightarrow> nat \<Rightarrow> session" where
  "fresh_session cli srv now_tick timeout =
     (case srv of None \<Rightarrow> session_zero\<lparr>client := cli\<rparr>
      | Some k \<Rightarrow> session_zero\<lparr>client := cli, server := k, flags := SF_FULLNAT\<rparr>)
       \<lparr>created_tick := now_tick, expire_tick := deadline now_tick timeout\<rparr>"

lemma fresh_session_sel:
  "client (fresh_session cli srv n o') = cli" "created_tick (fresh_session cli srv n o') = n"
  "expire_tick (fresh_session cli srv n o') = deadline n o'"
  "wheel_prev (fresh_session cli srv n o') = 0" "sstate (fresh_session cli srv n o') = NONE"
  "has_key (fresh_session cli srv n o') k \<longleftrightarrow> k = cli \<or> srv = Some k"
  by (auto simp: fresh_session_def session_zero_def has_key_def is_fullnat_def SF_FULLNAT_def
      split: option.splits)

lemma new_session_at_link:
  assumes "i < length (sessions t)"
  shows "new_session_at t i cli srv n o' =
    wheel_link (modify i (\<lambda>_. fresh_session cli srv n o') t) i (deadline n o')"
  by (cases srv) (simp_all add: new_session_at_def fresh_session_def Let_def session_zero_def)

lemma st_create_cases:
  obtains (full) "free_top t = 0" "st_create ops t cli srv n o' = (t, None)"
  | (fail) "st_create ops t cli srv n o' = (t, None)"
  | (undo) h1 where "hash_add ops (hash t) cli (free_stack t ! (free_top t - 1)) = Some h1"
      "st_create ops t cli srv n o' = (t\<lparr>hash := hash_del ops h1 cli\<rparr>, None)"
  | (ok) h1 h2 i where "free_top t \<noteq> 0" "i = free_stack t ! (free_top t - 1)"
      "hash_add ops (hash t) cli i = Some h1"
      "(case srv of None \<Rightarrow> Some h1 | Some k \<Rightarrow> hash_add ops h1 k i) = Some h2"
      "st_create ops t cli srv n o' =
         (new_session_at (t\<lparr>hash := h2, free_top := free_top t - 1\<rparr>) i cli srv n o', Some i)"
proof (cases "free_top t = 0")
  case True
  then show ?thesis using that(1) by (simp add: st_create_def)
next
  case False
  let ?i = "free_stack t ! (free_top t - 1)"
  show ?thesis
  proof (cases "hash_add ops (hash t) cli ?i")
    case None
    then show ?thesis using that(2) False by (simp add: st_create_def)
  next
    case (Some h1)
    then show ?thesis
      using that(3) [OF Some] that(4) [OF False refl Some] False
      by (cases "case srv of None \<Rightarrow> Some h1 | Some k \<Rightarrow> hash_add ops h1 k ?i")
        (simp_all add: st_create_def Let_def del: One_nat_def)
  qed
qed

lemma free_list_last:
  assumes "free_ok t W {}" "free_top t \<noteq> 0" "i = free_stack t ! (free_top t - 1)"
  shows "free_list t = take (free_top t - 1) (free_stack t) @ [i]" "i < capacity t" "\<not> linked W i"
proof -
  have "free_top t - 1 < length (free_stack t)" using assms(1,2) by (auto simp: free_ok_def)
  then show *: "free_list t = take (free_top t - 1) (free_stack t) @ [i]"
    using assms(2,3) take_Suc_conv_app_nth [of "free_top t - 1" "free_stack t"] by (simp add: free_list_def)
  have "i \<in> set (free_list t)" by (simp add: *)
  then show "i < capacity t" "\<not> linked W i" using assms(1) by (auto simp: free_ok_def)
qed

lemma alloc_rep:
  assumes hash: "rte_hash ops" and r: "st_rep ops t W {}"
    and ft: "free_top t \<noteq> 0" "i = free_stack t ! (free_top t - 1)"
    and add: "hash_add ops (hash t) cli i = Some h1"
      "(case srv of None \<Rightarrow> Some h1 | Some k \<Rightarrow> hash_add ops h1 k i) = Some h2"
    and new: "st_lookup ops t cli = None" "\<And>k. srv = Some k \<Longrightarrow> st_lookup ops t k = None"
    and h: "in_horizon t n o'"
  shows "st_rep ops (modify i (\<lambda>_. fresh_session cli srv n o') (t\<lparr>hash := h2, free_top := free_top t - 1\<rparr>)) W {i}"
    (is "st_rep ops ?t W {i}")
proof -
  let ?f = "fresh_session cli srv n o'"
  note w = st_repD(1) [OF r] and f = st_repD(2) [OF r]
  note fl = free_list_last [OF f ft]
  have i: "i < capacity t" "\<not> linked W i" "i < length (sessions t)"
    using fl(2,3) wheel_repD(1) [OF w] by auto
  have S: "sessions ?t = (sessions t)[i := ?f]" by (simp add: modify_def)
  have own: "sess ?t i = ?f" unfolding S using i(3) by simp
  have same: "j \<noteq> i \<Longrightarrow> sess ?t j = sess t j" for j unfolding S by simp
  have lsame: "linked W j \<Longrightarrow> sess ?t j = sess t j" for j using same i(2) by metis
  have "wheel_rep ?t W"
    by (rule rep_modify_outside [OF wheel_rep_cong [OF w] i(2)]) simp_all
  moreover have "free_ok ?t W {i}"
  proof -
    have d: "distinct (free_list t)" "set (free_list t) = {j. j < capacity t \<and> \<not> linked W j}"
      using f by (auto simp: free_ok_def)
    have "free_list ?t = take (free_top t - 1) (free_stack t)"
      by (simp add: free_list_def modify_def)
    then have l: "distinct (free_list ?t)" "set (free_list ?t) = {j. j < capacity t \<and> \<not> linked W j \<and> j \<noteq> i}"
      using d fl(1) by auto
    show ?thesis
      using f l same by (auto simp: free_ok_def frame_simps)
  qed
  moreover have "hash_ok ops ?t W {i}"
  proof -
    have lk: "hash_lookup ops (hash ?t) k = (if has_key ?f k then Some i else hash_lookup ops (hash t) k)" for k
      using add rte_hash.lookup_add_iff [OF hash]
      by (auto simp: frame_simps fresh_session_sel(6) split: option.splits)
    have ok: "hash_lookup ops (hash t) k = Some j \<longleftrightarrow> linked W j \<and> has_key (sess t j) k" for k j
      using st_repD(3) [OF r] by (simp add: hash_ok_def)
    have none: "has_key ?f k \<Longrightarrow> hash_lookup ops (hash t) k = None" for k
      using new by (auto simp: fresh_session_sel(6) st_lookup_def)
    show ?thesis
      unfolding hash_ok_def lk using ok none own lsame i(2)
      by (auto split: if_splits) (metis option.distinct(1))+
  qed
  moreover have "time_ok ?t W {i}"
    using st_repD(4) [OF r] h own lsame
    by (auto simp: time_ok_def frame_simps in_horizon_def fresh_session_sel)
  ultimately show ?thesis
    using i own by (simp add: st_rep_def frame_simps fresh_session_sel kFree_def)
qed

lemma create_ok_rep:
  assumes "rte_hash ops" "st_rep ops t W {}"
    and "free_top t \<noteq> 0" "i = free_stack t ! (free_top t - 1)"
    and "hash_add ops (hash t) cli i = Some h1"
      "(case srv of None \<Rightarrow> Some h1 | Some k \<Rightarrow> hash_add ops h1 k i) = Some h2"
    and "st_lookup ops t cli = None" "\<And>k. srv = Some k \<Longrightarrow> st_lookup ops t k = None"
    and "in_horizon t n o'" and n: "cur_tick t \<le> Suc n"
    and t': "t' = new_session_at (t\<lparr>hash := h2, free_top := free_top t - 1\<rparr>) i cli srv n o'"
  shows "\<exists>c. st_rep ops t' (W(c := i # W c)) {}"
    and "core (sess t' i) = core (fresh_session cli srv n o')"
    and "j \<noteq> i \<Longrightarrow> core (sess t' j) = core (sess t j)"
    and "\<not> linked W i" "i < capacity t" "cur_tick t' = cur_tick t" "capacity t' = capacity t"
proof -
  let ?f = "fresh_session cli srv n o'"
  let ?t = "modify i (\<lambda>_. ?f) (t\<lparr>hash := h2, free_top := free_top t - 1\<rparr>)"
  let ?tick = "deadline n o'"
  note a = alloc_rep [OF assms(1-9)]
  have i: "i < capacity ?t" "\<not> linked W i" using st_repD(5,6) [OF a] by auto
  show "i < capacity t" "\<not> linked W i" using i by (simp_all add: frame_simps)
  have len: "i < length (sessions t)"
    using i(1) wheel_repD(1) [OF st_repD(1) [OF assms(2)]] by (simp add: frame_simps)
  have t: "t' = wheel_link ?t i ?tick"
    unfolding t' by (rule new_session_at_link) (use len in simp)
  have own: "sess ?t i = ?f" using len by (simp add: sessions_modify del: One_nat_def)
  define c where "c = Some (wheel_slot (max ?tick (cur_tick ?t)))"
  note k = wheel_link_rep [OF st_repD(1) [OF a] i c_def]
  have cur: "cur_tick ?t \<le> ?tick" using n by (simp add: frame_simps deadline_def)
  show "\<exists>c. st_rep ops t' (W(c := i # W c)) {}"
    unfolding t by (rule exI, rule link_rep [OF a _ _ c_def]) (use cur own in \<open>simp_all only: fresh_session_sel order_refl\<close>)
  have "core (sess (wheel_link ?t i ?tick) i) = core (link_cell ?t i ?tick)" by (rule arg_cong [OF k(2)])
  then show "core (sess t' i) = core ?f" unfolding t link_cell_sel own .
  show "j \<noteq> i \<Longrightarrow> core (sess t' j) = core (sess t j)"
    unfolding t using k(3) [of j] by (simp add: sessions_modify)
  show "cur_tick t' = cur_tick t" "capacity t' = capacity t"
    unfolding t by (simp_all add: frame_simps)
qed

lemma st_create_undo:
  assumes "rte_hash ops" "st_inv ops t" "st_lookup ops t cli = None"
    and "hash_add ops (hash t) cli i = Some h1"
  shows "st_inv ops (t\<lparr>hash := hash_del ops h1 cli\<rparr>)"
    "hash_lookup ops (hash_del ops h1 cli) = hash_lookup ops (hash t)"
proof -
  show eq: "hash_lookup ops (hash_del ops h1 cli) = hash_lookup ops (hash t)"
    using assms(3,4) rte_hash.lookup_del_iff [OF assms(1)] rte_hash.lookup_add_iff [OF assms(1)]
    by (auto simp: fun_eq_iff st_lookup_def)
  obtain W where r: "st_rep ops t W {}" using assms(2) by (rule st_invE)
  have "wheel_rep (t\<lparr>hash := hash_del ops h1 cli\<rparr>) W"
    by (rule wheel_rep_cong [OF st_repD(1) [OF r]]) simp_all
  then have "st_rep ops (t\<lparr>hash := hash_del ops h1 cli\<rparr>) W {}"
    using r eq by (simp add: st_rep_def free_ok_def free_list_def hash_ok_def time_ok_def)
  then show "st_inv ops (t\<lparr>hash := hash_del ops h1 cli\<rparr>)" by (auto simp: st_inv_def)
qed

lemma st_init_inv:
  assumes "rte_hash ops" "st_init ops cap now_tick mem_ok = Some t" "cap \<le> kFree"
  shows "st_inv ops t" "cur_tick t = now_tick" "capacity t = cap" "\<not> is_active t i"
    "st_lookup ops t k = None"
proof -
  obtain h where h: "hash_create ops ((cap * 2 + cap div 2) mod 2 ^ 32) = Some h"
    and t: "t = \<lparr>hash = h, sessions = replicate cap (session_zero\<lparr>wheel_prev := kFree\<rparr>),
       free_stack = map (\<lambda>i. cap - 1 - i) [0..<cap], free_top = cap, capacity = cap,
       slots = replicate kWheelSlots kNil, pending = kNil, cur_tick = now_tick\<rparr>"
    using assms(2) by (auto simp: st_init_def split: option.splits if_splits)
  have e: "hash_lookup ops h k = None" for k
    using rte_hash.create_empty [OF assms(1) h] by simp
  have fs: "set (map (\<lambda>i. cap - 1 - i) [0..<cap]) = {..<cap}"
  proof -
    have "x \<in> (\<lambda>i. cap - 1 - i) ` {0..<cap}" if "x < cap" for x
      using that by (intro image_eqI [of _ _ "cap - 1 - x"]) auto
    then show ?thesis by auto
  qed
  have "wheel_rep t (\<lambda>_. [])"
    using assms(3) by (auto simp: wheel_rep_def t head_of_def split: option.split)
  moreover have "free_ok t (\<lambda>_. []) {}"
  proof -
    have fl: "free_list t = map (\<lambda>i. cap - 1 - i) [0..<cap]" by (simp add: free_list_def t)
    have "distinct (free_list t)" by (auto simp: fl distinct_map inj_on_def)
    moreover have "set (free_list t) = {..<cap}" unfolding fl by (rule fs)
    ultimately show ?thesis by (auto simp: free_ok_def t linked_def)
  qed
  ultimately have r: "st_rep ops t (\<lambda>_. []) {}"
    using e by (auto simp: st_rep_def hash_ok_def time_ok_def linked_def t)
  then show "st_inv ops t" by (auto simp: st_inv_def)
  show "\<not> is_active t i" using active_iff_linked [OF r] by (simp add: linked_def)
  show "cur_tick t = now_tick" "capacity t = cap" "st_lookup ops t k = None"
    using e by (simp_all add: t st_lookup_def)
qed

end
