(* ===== verification/Session_Expire.thy ===== *)
theory Session_Expire
  imports Session_Inv
begin

text \<open>
  Expiry. The loop of \<^verbatim>\<open>SessionTable::expire\<close> always returns, removes only sessions whose deadline
  has passed, and removes all of them when fewer sessions are due than its budget; the reachable
  tables are those the operations build from an initialised one, and they satisfy the invariant.
\<close>

section \<open>One turn of the expiry loop\<close>

text \<open>The sessions of the slot being opened carry exactly the current tick: a slot holds ticks that
  agree modulo the number of slots, and no deadline lies a whole turn ahead.\<close>

lemma slot_tick_unique:
  assumes "wheel_slot k = wheel_slot c" "c \<le> k" "k + 2 \<le> c + kWheelSlots"
  shows "k = c"
proof -
  have "kWheelSlots dvd k - c"
    using assms(1,2) mod_eq_dvd_iff_nat [of c k kWheelSlots] by (simp add: wheel_slot_def)
  moreover have "k - c < kWheelSlots" using assms(3) by (simp add: kWheelSlots_def)
  ultimately have "k - c = 0" by (metis dvd_imp_le not_less zero_less_iff_neq_zero)
  then show ?thesis using assms(2) by simp
qed

definition opened :: "'h session_table \<Rightarrow> 'h session_table" where
  "opened t = t\<lparr>slots := (slots t)[wheel_slot (cur_tick t) := kNil]\<rparr>"

lemma opened_rep:
  assumes w: "wheel_rep t W"
  shows "wheel_rep (opened t) (W(Some (wheel_slot (cur_tick t)) := []))"
  using w by (auto simp: wheel_rep_def opened_def head_of_def nth_list_update split: option.splits)

lemma linked_drop: "wheel_rep t W \<Longrightarrow> linked (W(c := [])) j \<longleftrightarrow> linked W j \<and> j \<notin> set (W c)"
  by (auto simp: linked_def dest: wheel_repD(6))

abbreviation cur_list :: "'h session_table \<Rightarrow> nat option" where
  "cur_list t \<equiv> Some (wheel_slot (cur_tick t))"

lemma none_pending:
  assumes "st_rep ops t W {}" "W None = []" "linked W j"
  shows "\<not> in_pending (sess t j)"
proof
  assume "in_pending (sess t j)"
  then have "home (sess t j) = None" by (simp add: home_def)
  then show False using assms(2,3) linked_iff [OF st_repD(1) [OF assms(1)], of j] by simp
qed

lemma cur_slot_tick:
  assumes r: "st_rep ops t W {}" and p: "W None = []" and l: "linked W j"
  shows "j \<in> set (W (cur_list t)) \<longleftrightarrow> slot_tick (sess t j) = cur_tick t"
    and "j \<notin> set (W (cur_list t)) \<Longrightarrow> cur_tick t < slot_tick (sess t j)"
proof -
  note w = st_repD(1) [OF r]
  have np: "\<not> in_pending (sess t j)" by (rule none_pending [OF assms])
  have j: "j \<in> set (W (Some (wheel_slot (slot_tick (sess t j)))))"
    using linked_iff [OF w] l np by (simp add: home_def)
  have tk: "cur_tick t \<le> slot_tick (sess t j)" "slot_tick (sess t j) + 2 \<le> cur_tick t + kWheelSlots"
  proof -
    have "tick_ok (cur_tick t) (sess t j)" "expire_tick (sess t j) + 2 \<le> cur_tick t + kWheelSlots"
      using st_repD(4) [OF r] l by (simp_all add: time_ok_def)
    then show "cur_tick t \<le> slot_tick (sess t j)" "slot_tick (sess t j) + 2 \<le> cur_tick t + kWheelSlots"
      using np by (simp_all add: tick_ok_def)
  qed
  show iff: "j \<in> set (W (cur_list t)) \<longleftrightarrow> slot_tick (sess t j) = cur_tick t"
  proof
    assume "j \<in> set (W (cur_list t))"
    then have "home (sess t j) = cur_list t" by (rule wheel_repD(6) [OF w])
    then show "slot_tick (sess t j) = cur_tick t"
      using slot_tick_unique [OF _ tk] np by (simp add: home_def)
  next
    assume "slot_tick (sess t j) = cur_tick t"
    then show "j \<in> set (W (cur_list t))" using j by simp
  qed
  show "j \<notin> set (W (cur_list t)) \<Longrightarrow> cur_tick t < slot_tick (sess t j)"
    using iff tk(1) by linarith
qed

text \<open>Opening a slot: the list is moved to the pending list and the tick advances. The lists before
  and after hold the same sessions.\<close>

definition opened_lists :: "'h session_table \<Rightarrow> (nat option \<Rightarrow> nat list) \<Rightarrow> nat option \<Rightarrow> nat list" where
  "opened_lists t W = W(cur_list t := [], None := rev (W (cur_list t)))"

lemma linked_fill:
  assumes "W c = []"
  shows "linked (W(c := xs)) j \<longleftrightarrow> j \<in> set xs \<or> linked W j"
proof -
  have "j \<in> set ((W(c := xs)) d) \<longleftrightarrow> (d = c \<and> j \<in> set xs) \<or> j \<in> set (W d)" for d
    using assms by simp
  then show ?thesis unfolding linked_def by blast
qed

lemma linked_opened:
  assumes "wheel_rep t W" "W None = []"
  shows "linked (opened_lists t W) = linked W"
proof
  fix j
  have "linked (opened_lists t W) j \<longleftrightarrow> j \<in> set (W (cur_list t)) \<or> linked (W(cur_list t := [])) j"
    unfolding opened_lists_def using assms(2) by (subst linked_fill) simp_all
  then show "linked (opened_lists t W) j = linked W j"
    using linked_drop [OF assms(1)] linked_def [of W j] by blast
qed

lemma drain_opened:
  assumes w: "wheel_rep t W" and p: "W None = []"
  shows "\<exists>t'. drain_slot (opened t) (slots t ! wheel_slot (cur_tick t)) = Some t' \<and>
    wheel_rep t' (opened_lists t W) \<and> moved (opened t) t' \<and>
    (\<forall>j. \<not> linked W j \<longrightarrow> sess t' j = sess t j)"
proof -
  let ?L = "W (cur_list t)" and ?V = "W(cur_list t := [])"
  have L: "x < capacity (opened t) \<and> \<not> linked ?V x" if x: "x \<in> set ?L" for x
  proof -
    have "linked W x" using x by (auto simp: linked_def)
    then show ?thesis
      using x linked_bounded [OF w] linked_drop [OF w, of "cur_list t" x] by (simp add: opened_def)
  qed
  have "chain (sessions (opened t)) (slots t ! wheel_slot (cur_tick t)) ?L"
    using dseg_chain wheel_repD(4) [OF w, of "cur_list t"] wheel_repD(1,2) [OF w]
    by (simp add: opened_def head_of_def)
  from drain_slot_rep [OF opened_rep [OF w] wheel_repD(5) [OF w] L this]
  obtain t' where t': "drain_slot (opened t) (slots t ! wheel_slot (cur_tick t)) = Some t'"
    "wheel_rep t' (?V(None := rev ?L @ ?V None))" "moved (opened t) t'"
    "\<forall>j. j \<notin> set ?L \<longrightarrow> \<not> linked ?V j \<longrightarrow> sess t' j = sess (opened t) j" by blast
  have "?V(None := rev ?L @ ?V None) = opened_lists t W" using p by (simp add: opened_lists_def fun_eq_iff)
  moreover have "sess t' j = sess t j" if "\<not> linked W j" for j
  proof -
    have "j \<notin> set ?L" using that linked_def by metis
    then show ?thesis using t'(4) that linked_drop [OF w, of "cur_list t" j] by (simp add: opened_def)
  qed
  ultimately show ?thesis using t'(1-3) by metis
qed

lemma open_slot_rep:
  assumes r: "st_rep ops t W {}" and p: "W None = []"
  shows "\<exists>t'. drain_slot (opened t) (slots t ! wheel_slot (cur_tick t)) = Some t' \<and>
    st_rep ops (t'\<lparr>cur_tick := cur_tick t' + 1\<rparr>) (opened_lists t W) {} \<and> moved (opened t) t' \<and>
    (\<forall>j. linked W j \<longrightarrow> (in_pending (sess t' j) \<longleftrightarrow> slot_tick (sess t j) = cur_tick t))"
proof -
  note w = st_repD(1) [OF r] and tm = st_repD(4) [OF r]
  let ?V = "opened_lists t W"
  obtain t' where t': "drain_slot (opened t) (slots t ! wheel_slot (cur_tick t)) = Some t'"
    "wheel_rep t' ?V" "moved (opened t) t'" and out: "\<And>j. \<not> linked W j \<Longrightarrow> sess t' j = sess t j"
    using drain_opened [OF w p] by blast
  note lk = linked_opened [OF w p]
  define u where "u = t'\<lparr>cur_tick := cur_tick t' + 1\<rparr>"
  have mv: "core (sess u j) = core (sess t j)" "slot_tick (sess u j) = slot_tick (sess t j)"
    "sess u j = sess t' j" for j
    using t'(3) by (auto simp: u_def moved_def opened_def)
  have fr: "hash u = hash t" "free_stack u = free_stack t" "free_top u = free_top t"
    "capacity u = capacity t" "cur_tick u = Suc (cur_tick t)"
    using t'(3) by (auto simp: u_def moved_def opened_def)
  have wu: "wheel_rep u ?V" by (rule wheel_rep_cong [OF t'(2)]) (simp_all add: u_def)
  have pend: "in_pending (sess u j) \<longleftrightarrow> j \<in> set (W (cur_list t))" if l: "linked W j" for j
  proof -
    have "j \<in> set (?V (home (sess u j)))" using linked_iff [OF wu] lk l by simp
    moreover have "j \<in> set (W (cur_list t)) \<Longrightarrow> home (sess u j) = None"
      using wheel_repD(6) [OF wu, of j None] by (simp add: opened_lists_def)
    ultimately show ?thesis
      by (cases "in_pending (sess u j)") (auto simp: home_def opened_lists_def)
  qed
  have ticks: "tick_ok (cur_tick u) (sess u j)" if l: "linked W j" for j
  proof -
    have "tick_ok (cur_tick t) (sess t j)" using tm l by (simp add: time_ok_def)
    then show ?thesis
      using cur_slot_tick [OF r p l] pend [OF l] mv(2) [of j] fr(5) core_sel(9) [OF mv(1) [of j]]
        none_pending [OF r p l]
      by (cases "j \<in> set (W (cur_list t))") (simp_all add: tick_ok_def)
  qed
  have "free_ok u ?V {}"
    using st_repD(2) [OF r] by (rule free_ok_cong) (use out lk fr mv(3) in auto)
  moreover have "hash_ok ops u ?V {}"
    using st_repD(3) [OF r] by (rule hash_ok_cong) (use mv(1) lk fr in auto)
  moreover have "time_ok u ?V {}"
    using tm ticks core_sel(9) [OF mv(1)] fr lk by (auto simp: time_ok_def intro: Suc_leD)
  ultimately have "st_rep ops u ?V {}" using wu by (simp add: st_rep_def)
  then show ?thesis
    using t'(1,3) pend mv(3) cur_slot_tick(1) [OF r p] unfolding u_def by (intro exI [of _ t']) simp
qed

section \<open>What a turn does\<close>

text \<open>The sessions \<^verbatim>\<open>expire\<close> looks at in one call.\<close>

definition due :: "'h session_table \<Rightarrow> nat \<Rightarrow> nat set" where
  "due t now_tick = {i. is_active t i \<and> (in_pending (sess t i) \<or> slot_tick (sess t i) \<le> now_tick)}"

definition swept :: "nat \<Rightarrow> 'h session_table \<Rightarrow> 'h session_table \<Rightarrow> bool" where
  "swept now_tick t t' \<longleftrightarrow> capacity t' = capacity t \<and>
     (\<forall>i. is_active t' i \<longrightarrow> is_active t i \<and> core (sess t' i) = core (sess t i)) \<and>
     (\<forall>i. is_active t i \<longrightarrow> now_tick < expire_tick (sess t i) \<longrightarrow> is_active t' i)"

lemma swept_refl: "swept now_tick t t"
  by (simp add: swept_def)

lemma sweptD:
  assumes "swept now_tick t t'"
  shows "capacity t' = capacity t" "is_active t' i \<Longrightarrow> is_active t i"
    "is_active t' i \<Longrightarrow> core (sess t' i) = core (sess t i)"
    "is_active t i \<Longrightarrow> now_tick < expire_tick (sess t i) \<Longrightarrow> is_active t' i"
  using assms by (simp_all add: swept_def)

lemma swept_trans:
  assumes tu: "swept now_tick t u" and uv: "swept now_tick u v"
  shows "swept now_tick t v"
  unfolding swept_def
proof (intro conjI allI impI)
  show "capacity v = capacity t" using sweptD(1) [OF tu] sweptD(1) [OF uv] by simp
  fix i
  show "is_active t i" "core (sess v i) = core (sess t i)" if "is_active v i"
    using sweptD(2,3) [OF uv that] sweptD(2,3) [OF tu] by simp_all
  show "is_active v i" if a: "is_active t i" "now_tick < expire_tick (sess t i)"
  proof (rule sweptD(4) [OF uv])
    show u: "is_active u i" by (rule sweptD(4) [OF tu a])
    show "now_tick < expire_tick (sess u i)" using a(2) core_sel(9) [OF sweptD(3) [OF tu u]] by simp
  qed
qed

lemma active_finite: "finite {i. is_active t i}"
  by (rule finite_subset [of _ "{..<capacity t}"]) (auto simp: is_active_def)

lemma due_finite: "finite (due t now_tick)"
  by (rule finite_subset [OF _ active_finite]) (auto simp: due_def)

lemma open_turn:
  assumes "st_inv ops t" "pending t = kNil" "cur_tick t \<le> now_tick"
  shows "\<exists>t'. drain_slot (opened t) (slots t ! wheel_slot (cur_tick t)) = Some t' \<and>
    (let u = t'\<lparr>cur_tick := cur_tick t' + 1\<rparr>
     in st_inv ops u \<and> cur_tick u = Suc (cur_tick t) \<and> swept now_tick t u \<and>
        is_active u = is_active t \<and> due u now_tick = due t now_tick)"
proof -
  obtain W where r: "st_rep ops t W {}" and a: "is_active t = linked W"
    using assms(1) by (rule st_invE)
  have p: "W None = []" using head_of_None_iff [OF st_repD(1) [OF r]] assms(2) by simp
  obtain t' where t': "drain_slot (opened t) (slots t ! wheel_slot (cur_tick t)) = Some t'"
    "st_rep ops (t'\<lparr>cur_tick := cur_tick t' + 1\<rparr>) (opened_lists t W) {}" "moved (opened t) t'"
    "\<forall>j. linked W j \<longrightarrow> (in_pending (sess t' j) \<longleftrightarrow> slot_tick (sess t j) = cur_tick t)"
    using open_slot_rep [OF r p] by blast
  define u where "u = t'\<lparr>cur_tick := cur_tick t' + 1\<rparr>"
  have au: "is_active u = is_active t"
    using active_iff_linked [OF t'(2)] linked_opened [OF st_repD(1) [OF r] p] a
    by (simp add: u_def fun_eq_iff)
  have mv: "core (sess u j) = core (sess t j)" "slot_tick (sess u j) = slot_tick (sess t j)"
    "cur_tick u = Suc (cur_tick t)" "capacity u = capacity t" for j
    using t'(3) by (simp_all add: u_def moved_def opened_def)
  have "swept now_tick t u" using au mv by (simp add: swept_def)
  moreover have "in_pending (sess u j) \<or> slot_tick (sess u j) \<le> now_tick \<longleftrightarrow>
      in_pending (sess t j) \<or> slot_tick (sess t j) \<le> now_tick" if "linked W j" for j
    using t'(4) none_pending [OF r p that] mv(2) that assms(3) by (auto simp: u_def)
  then have "due u now_tick = due t now_tick" using au a by (auto simp: due_def)
  moreover have "st_inv ops u" using t'(2) by (auto simp: st_inv_def u_def)
  ultimately show ?thesis
    using t'(1) au mv(3) by (intro exI [of _ t']) (simp only: Let_def u_def [symmetric] simp_thms)
qed

lemma popped_slot_empty:
  assumes r: "st_rep ops t W {i}" and s: "Suc (slot_tick (sess t i)) = cur_tick t"
  shows "W (Some (wheel_slot (slot_tick (sess t i)))) = []"
proof (rule ccontr)
  let ?k = "slot_tick (sess t i)"
  assume "W (Some (wheel_slot ?k)) \<noteq> []"
  then obtain j where j: "j \<in> set (W (Some (wheel_slot ?k)))" by (meson hd_in_set)
  have h: "home (sess t j) = Some (wheel_slot ?k)" using wheel_repD(6) [OF st_repD(1) [OF r] j] .
  have l: "linked W j" using j by (auto simp: linked_def)
  have np: "\<not> in_pending (sess t j)" and sl: "wheel_slot (slot_tick (sess t j)) = wheel_slot ?k"
    using h by (auto simp: home_def split: if_splits)
  have "tick_ok (cur_tick t) (sess t j)" "expire_tick (sess t j) + 2 \<le> cur_tick t + kWheelSlots"
    using st_repD(4) [OF r] l by (simp_all add: time_ok_def)
  then have b: "?k < slot_tick (sess t j)" "slot_tick (sess t j) < ?k + kWheelSlots"
    using np s by (simp_all add: tick_ok_def)
  have "kWheelSlots dvd slot_tick (sess t j) - ?k"
    using sl b(1) mod_eq_dvd_iff_nat [of ?k "slot_tick (sess t j)" kWheelSlots] by (simp add: wheel_slot_def)
  then show False using b dvd_imp_le [of kWheelSlots "slot_tick (sess t j) - ?k"] by simp
qed

lemma pop_turn_facts:
  assumes r: "st_rep ops t W {}" and W: "W None = i # xs" and t1: "t1 = fst (pending_pop t)"
  shows "st_rep ops t1 (W(None := xs)) {i}" "snd (pending_pop t) = i" "linked W i"
    "wheel_unlink t1 i = t1" "core (sess t1 j) = core (sess t j)"
    "j \<noteq> i \<Longrightarrow> home (sess t1 j) = home (sess t j) \<and> slot_tick (sess t1 j) = slot_tick (sess t j)"
    "linked (W(None := xs)) j \<longleftrightarrow> linked W j \<and> j \<noteq> i"
proof -
  note w = st_repD(1) [OF r]
  note p = pending_pop_rep [OF w W, folded t1]
  show l: "linked W i" using W linked_def by (metis list.set_intros(1))
  show r1: "st_rep ops t1 (W(None := xs)) {i}" unfolding t1 by (rule pop_rep [OF r W])
  show "snd (pending_pop t) = i" by (simp add: frame_simps p(1))
  have h: "None = home (sess t i)" using wheel_repD(6) [OF w, of i None] W by simp
  then have "in_pending (sess t i)" by (simp add: home_def split: if_splits)
  then have "Suc (slot_tick (sess t i)) = cur_tick t"
    using st_repD(4) [OF r] l by (auto simp: time_ok_def tick_ok_def split: if_splits)
  then have "Suc (slot_tick (sess t1 i)) = cur_tick t1" unfolding p(6) by (simp add: t1 frame_simps)
  then show "wheel_unlink t1 i = t1"
    by (intro unlink_popped [OF st_repD(1) [OF r1] st_repD(5) [OF r1] p(8-10)] popped_slot_empty [OF r1]) simp_all
  show "core (sess t1 j) = core (sess t j)" by (rule p(5))
  show "j \<noteq> i \<Longrightarrow> home (sess t1 j) = home (sess t j) \<and> slot_tick (sess t1 j) = slot_tick (sess t j)"
    by (simp add: t1 pending_pop_def Let_def sessions_modify sessions_wheel_unlink p(1))
  show "linked (W(None := xs)) j \<longleftrightarrow> linked W j \<and> j \<noteq> i"
    using linked_unlink_iff [OF w l h, of j] W by simp
qed

lemma home_due: "home a = home b \<Longrightarrow> slot_tick a = slot_tick b \<Longrightarrow> in_pending a = in_pending b"
  by (simp add: home_def split: if_splits)

lemma st_remove_keeps:
  "home (sess (st_remove ops t i) j) = home (sess t j)"
  "slot_tick (sess (st_remove ops t i) j) = slot_tick (sess t j)"
  by (simp_all add: st_remove_release release_def Let_def modify_def sessions_wheel_unlink update_keeps_part)

lemma remove_turn:
  assumes hash: "rte_hash ops" and "st_inv ops t" "pending t \<noteq> kNil"
    and t1: "t1 = fst (pending_pop t)" and i: "i = snd (pending_pop t)"
    and e: "expire_tick (sess t1 i) \<le> now_tick" and u: "u = st_remove ops t1 i"
  shows "st_inv ops u" "swept now_tick t u" "is_active u j \<longleftrightarrow> is_active t j \<and> j \<noteq> i" "is_active t i"
    "due u now_tick = due t now_tick - {i}" "i \<in> due t now_tick" "cur_tick u = cur_tick t"
proof -
  obtain W where r: "st_rep ops t W {}" and a: "is_active t = linked W"
    using assms(2) by (rule st_invE)
  obtain xs where W: "W None = i # xs"
    using head_of_None_iff [OF st_repD(1) [OF r]] assms(3) pending_pop_rep(1) [OF st_repD(1) [OF r]] i
    by (cases "W None") (auto simp: frame_simps)
  note f = pop_turn_facts [OF r W t1]
  have "u = release ops t1 i" unfolding u st_remove_release f(4) ..
  then have ru: "st_rep ops u (W(None := xs)) {}" using release_rep [OF hash f(1)] by simp
  then show "st_inv ops u" by (auto simp: st_inv_def)
  show act: "is_active u j \<longleftrightarrow> is_active t j \<and> j \<noteq> i" for j
    using active_iff_linked [OF ru] a f(7) by simp
  have core: "core (sess u j) = core (sess t j)" for j by (simp add: u core_st_remove f(5))
  have et: "expire_tick (sess t i) \<le> now_tick" using e core_sel(9) [OF f(5)] by simp
  show "is_active t i" using a f(3) by simp
  have "capacity u = capacity t" "cur_tick u = cur_tick t" by (simp_all add: u t1 frame_simps)
  then show "cur_tick u = cur_tick t" "swept now_tick t u"
    unfolding swept_def act core using et by auto
  have same: "in_pending (sess u j) = in_pending (sess t j) \<and> slot_tick (sess u j) = slot_tick (sess t j)" if "j \<noteq> i" for j
  proof -
    have "home (sess u j) = home (sess t1 j)" "slot_tick (sess u j) = slot_tick (sess t1 j)"
      by (simp_all add: u st_remove_keeps)
    then show ?thesis using f(6) [OF that] home_due [of "sess u j" "sess t j"] by simp
  qed
  show "due u now_tick = due t now_tick - {i}"
  proof (rule set_eqI)
    fix j
    show "j \<in> due u now_tick \<longleftrightarrow> j \<in> due t now_tick - {i}"
      using act [of j] same [of j] by (cases "j = i") (simp_all add: due_def)
  qed
  have "in_pending (sess t i)" using wheel_repD(6) [OF st_repD(1) [OF r], of i None] W
    by (simp add: home_def split: if_splits)
  then show "i \<in> due t now_tick" using a f(3) by (simp add: due_def)
qed

lemma relink_turn:
  assumes "st_inv ops t" "pending t \<noteq> kNil" and n: "cur_tick t \<le> Suc now_tick"
    and t1: "t1 = fst (pending_pop t)" and i: "i = snd (pending_pop t)"
    and e: "\<not> expire_tick (sess t1 i) \<le> now_tick" and u: "u = wheel_link t1 i (expire_tick (sess t1 i))"
  shows "st_inv ops u" "swept now_tick t u" "is_active u = is_active t"
    "due u now_tick = due t now_tick - {i}" "i \<in> due t now_tick" "cur_tick u = cur_tick t"
proof -
  obtain W where r: "st_rep ops t W {}" and a: "is_active t = linked W"
    using assms(1) by (rule st_invE)
  obtain xs where W: "W None = i # xs"
    using head_of_None_iff [OF st_repD(1) [OF r]] assms(2) pending_pop_rep(1) [OF st_repD(1) [OF r]] i
    by (cases "W None") (auto simp: frame_simps)
  note f = pop_turn_facts [OF r W t1]
  let ?e = "expire_tick (sess t1 i)"
  define c where "c = Some (wheel_slot (max ?e (cur_tick t1)))"
  let ?W = "(W(None := xs))(c := i # (W(None := xs)) c)"
  have cur: "cur_tick t1 = cur_tick t" by (simp add: t1 frame_simps)
  then have "cur_tick t1 \<le> ?e" using n e by simp
  then have ru: "st_rep ops u ?W {}" unfolding u by (intro link_rep [OF f(1) _ _ c_def]) simp_all
  then show "st_inv ops u" by (auto simp: st_inv_def)
  show act: "is_active u = is_active t"
  proof
    fix j
    have "is_active u j \<longleftrightarrow> j = i \<or> linked (W(None := xs)) j"
      unfolding active_iff_linked [OF ru] linked_push ..
    then show "is_active u j = is_active t j" using f(3,7) a by auto
  qed
  have "i < capacity t1" "\<not> linked (W(None := xs)) i" using st_repD(5,6) [OF f(1)] by auto
  note k = wheel_link_rep [OF st_repD(1) [OF f(1)] this c_def, folded u]
  have core: "core (sess u j) = core (sess t j)" for j
    using k(2,3) f(5) by (cases "j = i") simp_all
  show "cur_tick u = cur_tick t" by (simp add: u frame_simps cur)
  have "capacity u = capacity t" by (simp add: u t1 frame_simps)
  then show "swept now_tick t u" unfolding swept_def act core by simp
  have same: "in_pending (sess u j) = in_pending (sess t j) \<and> slot_tick (sess u j) = slot_tick (sess t j)" if "j \<noteq> i" for j
    using k(3) [OF that] f(6) [OF that] home_due [of "sess u j" "sess t j"] by simp
  have "\<not> in_pending (sess u i)" "\<not> slot_tick (sess u i) \<le> now_tick"
    using k(2) e by (simp_all add: link_cell_def Let_def)
  then show "due u now_tick = due t now_tick - {i}"
  proof (intro set_eqI)
    fix j
    assume "\<not> in_pending (sess u i)" "\<not> slot_tick (sess u i) \<le> now_tick"
    then show "j \<in> due u now_tick \<longleftrightarrow> j \<in> due t now_tick - {i}"
      using act same [of j] by (cases "j = i") (simp_all add: due_def)
  qed
  have "in_pending (sess t i)" using wheel_repD(6) [OF st_repD(1) [OF r], of i None] W
    by (simp add: home_def split: if_splits)
  then show "i \<in> due t now_tick" using a f(3) by (simp add: due_def)
qed

section \<open>The loop\<close>

definition active_set :: "'h session_table \<Rightarrow> nat set" where
  "active_set t = {i. is_active t i}"

definition sweep_done :: "'h session_table \<Rightarrow> nat \<Rightarrow> bool" where
  "sweep_done t now_tick \<longleftrightarrow> pending t = kNil \<and> now_tick < cur_tick t"

definition sweep_result :: "('h, five_tuple, nat) hash_ops \<Rightarrow> nat \<Rightarrow> 'h session_table \<Rightarrow> nat \<Rightarrow> nat
    \<Rightarrow> ('h session_table \<times> nat) option \<Rightarrow> bool" where
  "sweep_result ops now_tick t b r res \<longleftrightarrow>
     (\<exists>t' r'. res = Some (t', r') \<and> st_inv ops t' \<and> cur_tick t \<le> cur_tick t' \<and>
        cur_tick t' \<le> Suc now_tick \<and> swept now_tick t t' \<and>
        r' + card (active_set t') = r + card (active_set t) \<and>
        (card (due t now_tick) < b \<longrightarrow> sweep_done t' now_tick))"

lemma sweep_result_step:
  assumes "sweep_result ops now_tick u b' r' res" "swept now_tick t u" "cur_tick t \<le> cur_tick u"
    "r' + card (active_set u) = r + card (active_set t)"
    "card (due t now_tick) < b \<Longrightarrow> card (due u now_tick) < b'"
  shows "sweep_result ops now_tick t b r res"
proof -
  obtain v q where "res = Some (v, q)" "st_inv ops v" "cur_tick u \<le> cur_tick v"
    "cur_tick v \<le> Suc now_tick" "swept now_tick u v" "q + card (active_set v) = r' + card (active_set u)"
    "card (due u now_tick) < b' \<longrightarrow> sweep_done v now_tick"
    using assms(1) unfolding sweep_result_def by blast
  then show ?thesis
    unfolding sweep_result_def using assms(2-5) swept_trans [OF assms(2)]
    by (intro exI [of _ v] exI [of _ q]) simp
qed

lemma expire_loop_ok:
  assumes "rte_hash ops" "st_inv ops t" "cur_tick t \<le> Suc now_tick"
  shows "sweep_result ops now_tick t b r (expire_loop ops t now_tick b r)"
  using assms(2,3)
proof (induction "b + (Suc now_tick - cur_tick t)" arbitrary: t b r rule: less_induct)
  case less
  note step = expire_loop.simps [of ops t now_tick b r]
  consider (stop) "b = 0 \<or> (pending t = kNil \<and> now_tick < cur_tick t)"
    | (slot) "b \<noteq> 0" "pending t = kNil" "cur_tick t \<le> now_tick" | (pop) "b \<noteq> 0" "pending t \<noteq> kNil"
    by fastforce
  then show ?case
  proof cases
    case stop
    then show ?thesis
      using less.prems by (auto simp: step swept_refl sweep_done_def sweep_result_def)
  next
    case slot
    obtain t' where d: "drain_slot (opened t) (slots t ! wheel_slot (cur_tick t)) = Some t'"
      and u: "let u = t'\<lparr>cur_tick := cur_tick t' + 1\<rparr>
         in st_inv ops u \<and> cur_tick u = Suc (cur_tick t) \<and> swept now_tick t u \<and>
            is_active u = is_active t \<and> due u now_tick = due t now_tick"
      using open_turn [OF less.prems(1) slot(2,3)] by blast
    define u where "u = t'\<lparr>cur_tick := cur_tick t' + 1\<rparr>"
    have o: "st_inv ops u" "cur_tick u = Suc (cur_tick t)" "swept now_tick t u"
      "is_active u = is_active t" "due u now_tick = due t now_tick"
      using u by (simp_all only: Let_def u_def)
    have "expire_loop ops t now_tick b r = expire_loop ops u now_tick b r"
      using slot d by (simp add: step Let_def opened_def u_def)
    moreover have "sweep_result ops now_tick u b r (expire_loop ops u now_tick b r)"
      by (rule less.hyps) (use o slot in auto)
    ultimately show ?thesis
      using o by (auto intro: sweep_result_step simp: active_set_def)
  next
    case pop
    define t1 where "t1 = fst (pending_pop t)"
    define i where "i = snd (pending_pop t)"
    show ?thesis
    proof (cases "expire_tick (sess t1 i) \<le> now_tick")
      case True
      define u where "u = st_remove ops t1 i"
      note rt = remove_turn [OF assms(1) less.prems(1) pop(2) t1_def i_def True u_def]
      have "expire_loop ops t now_tick b r = expire_loop ops u now_tick (b - 1) (r + 1)"
        using pop True by (simp add: step Let_def t1_def i_def u_def)
      moreover have "sweep_result ops now_tick u (b - 1) (r + 1) (expire_loop ops u now_tick (b - 1) (r + 1))"
        by (rule less.hyps) (use rt(1,7) less.prems(2) pop(1) in auto)
      moreover have "active_set u = active_set t - {i}" "i \<in> active_set t" "finite (active_set t)"
        using rt(3,4) active_finite [of t] by (auto simp: active_set_def)
      then have "r + 1 + card (active_set u) = r + card (active_set t)"
        using card_Suc_Diff1 [of "active_set t" i] by simp
      moreover have "Suc (card (due u now_tick)) = card (due t now_tick)"
        using rt(5,6) card_Suc_Diff1 [OF due_finite, of i t now_tick] by simp
      ultimately show ?thesis
        using rt(2,7) by (auto intro: sweep_result_step)
    next
      case False
      define u where "u = wheel_link t1 i (expire_tick (sess t1 i))"
      note rt = relink_turn [OF less.prems(1) pop(2) less.prems(2) t1_def i_def False u_def]
      have "expire_loop ops t now_tick b r = expire_loop ops u now_tick (b - 1) r"
        using pop False by (simp add: step Let_def t1_def i_def u_def)
      moreover have "sweep_result ops now_tick u (b - 1) r (expire_loop ops u now_tick (b - 1) r)"
        by (rule less.hyps) (use rt(1,6) less.prems(2) pop(1) in auto)
      moreover have "Suc (card (due u now_tick)) = card (due t now_tick)"
        using rt(4,5) card_Suc_Diff1 [OF due_finite, of i t now_tick] by simp
      ultimately show ?thesis
        using rt(2,3,6) by (auto intro: sweep_result_step simp: active_set_def)
    qed
  qed
qed

end
