(* ===== verification/Session_Props.thy ===== *)
theory Session_Props
  imports Session_Expire
begin

text \<open>
  The session table as its clients see it: the tables a run of the operations can reach, and the
  properties of \<^verbatim>\<open>lookup\<close>, \<^verbatim>\<open>create\<close>, \<^verbatim>\<open>remove\<close>, \<^verbatim>\<open>touch\<close> and \<^verbatim>\<open>expire\<close> on them.
\<close>

section \<open>Reachable tables\<close>

text \<open>The fields the packet path may change in place: everything but the keys, the deadline and the
  wheel links.\<close>

definition wheel_view :: "session \<Rightarrow> five_tuple \<times> five_tuple \<times> bool \<times> nat \<times> nat \<times> nat \<times> nat \<times> bool" where
  "wheel_view s = (client s, server s, is_fullnat s, expire_tick s, slot_tick s, wheel_prev s,
     wheel_next s, in_pending s)"

inductive st_run :: "('h, five_tuple, nat) hash_ops \<Rightarrow> nat \<Rightarrow> 'h session_table \<Rightarrow> bool" for ops where
  run_init: "st_init ops cap n mem_ok = Some t \<Longrightarrow> cap \<le> kFree \<Longrightarrow> st_run ops n t"
| run_tick: "st_run ops n t \<Longrightarrow> n \<le> n' \<Longrightarrow> st_run ops n' t"
| run_create: "st_run ops n t \<Longrightarrow> st_lookup ops t cli = None \<Longrightarrow>
    (\<And>k. srv = Some k \<Longrightarrow> st_lookup ops t k = None) \<Longrightarrow> in_horizon t n timeout \<Longrightarrow>
    st_run ops n (fst (st_create ops t cli srv n timeout))"
| run_remove: "st_run ops n t \<Longrightarrow> is_active t i \<Longrightarrow> st_run ops n (st_remove ops t i)"
| run_touch: "st_run ops n t \<Longrightarrow> is_active t i \<Longrightarrow> in_horizon t n timeout \<Longrightarrow>
    st_run ops n (st_touch t i n timeout)"
| run_update: "st_run ops n t \<Longrightarrow> is_active t i \<Longrightarrow> wheel_view (f (sess t i)) = wheel_view (sess t i) \<Longrightarrow>
    st_run ops n (modify i f t)"
| run_expire: "st_run ops n t \<Longrightarrow> st_expire ops t n = Some (t', r) \<Longrightarrow> st_run ops n t'"

lemma st_touch_inv:
  assumes "st_inv ops t" "is_active t i" "cur_tick t \<le> Suc n" "in_horizon t n timeout"
  shows "st_inv ops (st_touch t i n timeout)" "is_active (st_touch t i n timeout) = is_active t"
proof -
  obtain W where r: "st_rep ops t W {}" and a: "is_active t = linked W" using assms(1) by (rule st_invE)
  obtain W' where r': "st_rep ops (st_touch t i n timeout) W' {}" "linked W' = linked W"
    using st_touch_rep [OF r _ assms(3,4), of i] assms(2) a by auto
  then show "st_inv ops (st_touch t i n timeout)" by (auto simp: st_inv_def)
  show "is_active (st_touch t i n timeout) = is_active t"
    using active_iff_linked [OF r'(1)] r'(2) a by (simp add: fun_eq_iff)
qed

lemma st_touch_frame:
  "cur_tick (st_touch t i n o') = cur_tick t" "capacity (st_touch t i n o') = capacity t"
  "hash (st_touch t i n o') = hash t"
  by (simp_all add: st_touch_def Let_def frame_simps)

lemma st_touch_expire:
  assumes "st_inv ops t" "is_active t i"
  shows "expire_tick (sess (st_touch t i n o') i) = deadline n o'"
proof -
  obtain W where r: "st_rep ops t W {}" using assms(1) by (rule st_invE)
  have "i < length (sessions t)"
    using assms(2) wheel_repD(1) [OF st_repD(1) [OF r]] by (simp add: is_active_def)
  then show ?thesis by (simp add: st_touch_def Let_def sessions_modify frame_simps)
qed

lemma modify_inv:
  assumes "st_inv ops t" "is_active t i" "wheel_view (f (sess t i)) = wheel_view (sess t i)"
  shows "st_inv ops (modify i f t)" "is_active (modify i f t) = is_active t"
proof -
  obtain W where r: "st_rep ops t W {}" and a: "is_active t = linked W" using assms(1) by (rule st_invE)
  have l: "linked W i" using assms(2) a by simp
  have "expire_tick (sess t i) + 2 \<le> cur_tick t + kWheelSlots" "tick_ok (cur_tick t) (sess t i)"
    using st_repD(4) [OF r] l by (simp_all add: time_ok_def)
  then have m: "st_rep ops (modify i f t) W {}"
    using assms(3) by (intro modify_rep [OF r l])
      (auto simp: wheel_view_def home_def same_links_def has_key_def [abs_def] tick_ok_def)
  then show "st_inv ops (modify i f t)" by (auto simp: st_inv_def)
  show "is_active (modify i f t) = is_active t"
    using active_iff_linked [OF m] a by (simp add: fun_eq_iff)
qed

lemma st_create_inv:
  assumes "rte_hash ops" "st_inv ops t" "cur_tick t \<le> Suc n" "st_lookup ops t cli = None"
    "\<And>k. srv = Some k \<Longrightarrow> st_lookup ops t k = None" "in_horizon t n o'"
  shows "st_inv ops (fst (st_create ops t cli srv n o'))"
    and "cur_tick (fst (st_create ops t cli srv n o')) = cur_tick t"
proof -
  obtain W where r: "st_rep ops t W {}" using assms(2) by (rule st_invE)
  show "st_inv ops (fst (st_create ops t cli srv n o'))"
  proof (cases rule: st_create_cases [of t ops cli srv n o'])
    case (undo h1)
    then show ?thesis using st_create_undo(1) [OF assms(1,2,4)] by simp
  next
    case (ok h1 h2 i)
    show ?thesis
      using create_ok_rep(1) [OF assms(1) r ok(1-4) assms(4,5,6,3) refl] ok(5)
      by (auto simp: st_inv_def)
  qed (use assms(2) in simp_all)
  show "cur_tick (fst (st_create ops t cli srv n o')) = cur_tick t"
    by (cases rule: st_create_cases [of t ops cli srv n o'])
      (simp_all add: new_session_at_def Let_def frame_simps)
qed

lemma st_run_inv:
  assumes "rte_hash ops" "st_run ops n t"
  shows "st_inv ops t \<and> cur_tick t \<le> Suc n"
  using assms(2)
proof induction
  case (run_init cap n mem_ok t)
  then show ?case using st_init_inv(1,2) [OF assms(1)] by simp
next
  case (run_create n t cli srv timeout)
  then show ?case using st_create_inv [OF assms(1), of t n cli srv timeout] by simp
next
  case (run_remove n t i)
  then show ?case using st_remove_inv(1) [OF assms(1)] by (simp add: frame_simps)
next
  case (run_touch n t i timeout)
  then show ?case using st_touch_inv(1) [of ops t i n timeout] by (simp add: st_touch_frame)
next
  case (run_update n t i f)
  then show ?case using modify_inv(1) [of ops t i f] by (simp add: frame_simps)
next
  case (run_expire n t t' r)
  then show ?case
    using expire_loop_ok [OF assms(1), of t n kExpireBudget 0]
    by (auto simp: st_expire_def sweep_result_def)
qed auto

lemma st_inv_lookup:
  assumes "st_inv ops t"
  shows "st_lookup ops t k = Some i \<longleftrightarrow> is_active t i \<and> has_key (sess t i) k"
proof -
  obtain W where "st_rep ops t W {}" "is_active t = linked W" using assms by (rule st_invE)
  then show ?thesis using st_repD(3) [of ops t W "{}"] by (simp add: st_lookup_def hash_ok_def)
qed

lemma st_inv_count:
  assumes "st_inv ops t"
  shows "active_count t = card (active_set t)" "free_top t + card (active_set t) = capacity t"
proof -
  obtain W where r: "st_rep ops t W {}" and a: "is_active t = linked W" using assms by (rule st_invE)
  note f = st_repD(2) [OF r]
  have "card (set (free_list t)) = free_top t"
    using f distinct_card [of "free_list t"] by (simp add: free_ok_def) (simp add: free_list_def)
  moreover have "set (free_list t) = {..<capacity t} - active_set t" "active_set t \<subseteq> {..<capacity t}"
    using f a linked_bounded [OF st_repD(1) [OF r]] by (auto simp: free_ok_def active_set_def)
  ultimately have "free_top t = capacity t - card (active_set t)" "card (active_set t) \<le> capacity t"
    using card_Diff_subset [of "active_set t" "{..<capacity t}"] card_mono [of "{..<capacity t}" "active_set t"]
      finite_subset [of "active_set t" "{..<capacity t}"] by simp_all
  then show "active_count t = card (active_set t)" "free_top t + card (active_set t) = capacity t"
    by (simp_all add: active_count_def)
qed

section \<open>Expiry over time\<close>

lemma sweep_done_fresh:
  assumes "st_inv ops t" "sweep_done t n" "is_active t i"
  shows "n < expire_tick (sess t i)"
proof -
  obtain W where r: "st_rep ops t W {}" and a: "is_active t = linked W" using assms(1) by (rule st_invE)
  have p: "W None = []" using head_of_None_iff [OF st_repD(1) [OF r]] assms(2) by (simp add: sweep_done_def)
  have l: "linked W i" using assms(3) a by simp
  have "tick_ok (cur_tick t) (sess t i)" using st_repD(4) [OF r] l by (simp add: time_ok_def)
  then show ?thesis
    using none_pending [OF r p l] assms(2) by (simp add: tick_ok_def sweep_done_def)
qed

lemma st_expire_ok:
  assumes "rte_hash ops" "st_run ops n t"
  obtains t' r where "st_expire ops t n = Some (t', r)" "st_run ops n t'" "swept n t t'"
    "active_count t = active_count t' + r"
    "active_count t < kExpireBudget \<longrightarrow> (\<forall>i. is_active t' i \<longrightarrow> n < expire_tick (sess t' i))"
proof -
  have inv: "st_inv ops t" "cur_tick t \<le> Suc n" using st_run_inv [OF assms] by auto
  obtain t' r where e: "st_expire ops t n = Some (t', r)" and i': "st_inv ops t'" and sw: "swept n t t'"
    and c: "r + card (active_set t') = card (active_set t)"
    and d: "card (due t n) < kExpireBudget \<longrightarrow> sweep_done t' n"
    using expire_loop_ok [OF assms(1) inv, of kExpireBudget 0]
    unfolding sweep_result_def st_expire_def by auto
  have "card (due t n) \<le> active_count t"
    unfolding st_inv_count(1) [OF inv(1)] by (rule card_mono) (auto simp: active_set_def due_def active_finite)
  then have "active_count t < kExpireBudget \<longrightarrow> (\<forall>i. is_active t' i \<longrightarrow> n < expire_tick (sess t' i))"
    using d sweep_done_fresh [OF i'] by simp
  then show thesis
    using that e run_expire [OF assms(2) e] sw c st_inv_count(1) [OF inv(1)] st_inv_count(1) [OF i'] by simp
qed

text \<open>A sequence of calls of \<^verbatim>\<open>expire\<close>, one per tick the worker sees.\<close>

fun expire_all :: "('h, five_tuple, nat) hash_ops \<Rightarrow> 'h session_table \<Rightarrow> nat list \<Rightarrow> 'h session_table option" where
  "expire_all ops t [] = Some t"
| "expire_all ops t (n # ns) =
     (case st_expire ops t n of None \<Rightarrow> None | Some (t', _) \<Rightarrow> expire_all ops t' ns)"

lemma expire_all_swept:
  assumes "rte_hash ops" "st_run ops n t" "sorted (n # ns)"
  obtains t' where "expire_all ops t ns = Some t'" "st_run ops (last (n # ns)) t'"
    "swept (last (n # ns)) t t'" "active_count t' \<le> active_count t"
  using assms(2,3)
proof (induction ns arbitrary: n t thesis)
  case Nil
  then show ?case by (simp add: swept_refl)
next
  case (Cons m ns)
  have "st_run ops m t" using Cons.prems(2,3) by (auto intro: run_tick)
  then obtain t1 r where t1: "st_expire ops t m = Some (t1, r)" "st_run ops m t1" "swept m t t1"
    "active_count t = active_count t1 + r"
    using st_expire_ok [OF assms(1), of m t] by metis
  have srt: "sorted (m # ns)" using Cons.prems(3) by simp
  obtain t' where t': "expire_all ops t1 ns = Some t'" "st_run ops (last (m # ns)) t'"
    "swept (last (m # ns)) t1 t'" "active_count t' \<le> active_count t1"
    by (rule Cons.IH [OF _ t1(2) srt])
  have le: "m \<le> last (m # ns)" using srt by (cases ns) (auto simp: last_in_set)
  have "swept (last (m # ns)) t t1"
    using t1(3) le unfolding swept_def by (meson le_less_trans)
  then have "swept (last (m # ns)) t t'" using t'(3) swept_trans by blast
  then show ?case using Cons.prems(1) [of t'] t1 t' by simp
qed

section \<open>Room in the hash\<close>

lemma expire_loop_hash:
  assumes "expire_loop ops t n b r = Some (t', r')" "P (hash t)" "\<forall>h k. P h \<longrightarrow> P (hash_del ops h k)"
  shows "P (hash t') \<and> capacity t' = capacity t"
  using assms
proof (induction ops t n b r rule: expire_loop.induct)
  case (1 ops t n b r)
  note step = expire_loop.simps [of ops t n b r]
  consider (stop) "b = 0 \<or> (pending t = kNil \<and> n < cur_tick t)"
    | (slot) "b \<noteq> 0" "pending t = kNil" "\<not> n < cur_tick t" | (pop) "b \<noteq> 0" "pending t \<noteq> kNil"
    by fastforce
  then show ?case
  proof cases
    case stop
    then have "expire_loop ops t n b r = Some (t, r)" by (auto simp: step)
    then show ?thesis using 1(4,5) by simp
  next
    case slot
    then obtain u where u: "drain_slot (t\<lparr>slots := (slots t)[wheel_slot (cur_tick t) := kNil]\<rparr>)
        (slots t ! wheel_slot (cur_tick t)) = Some u"
      "expire_loop ops (u\<lparr>cur_tick := cur_tick u + 1\<rparr>) n b r = Some (t', r')"
      using 1(4) by (auto simp: step Let_def split: option.splits)
    show ?thesis
      using 1(1) [OF slot(1,2,3) refl refl u(1) u(2)] drain_slot_frame [OF u(1)] 1(5,6) by simp
  next
    case pop
    define t1 where "t1 = fst (pending_pop t)"
    define i where "i = snd (pending_pop t)"
    have fr: "hash t1 = hash t" "capacity t1 = capacity t" "pending t = i"
      by (simp_all add: t1_def i_def frame_simps)
    have "P (hash (st_remove ops t1 i))" using 1(5,6) fr by (simp add: st_remove_def Let_def frame_simps)
    then show ?thesis
      using 1(2) [OF pop i_def t1_def] 1(3) [OF pop i_def t1_def] 1(4-6) fr pop
      by (cases "expire_tick (sess t1 i) \<le> n") (simp_all add: step Let_def frame_simps flip: t1_def i_def)
  qed
qed

lemma st_run_entries:
  assumes "rte_hash_ext ops entries" "st_run ops n t"
  shows "entries (hash t) = (capacity t * 2 + capacity t div 2) mod 2 ^ 32"
  using assms(2)
proof induction
  case (run_init cap n mem_ok t)
  then show ?case
    using rte_hash_ext.create_entries [OF assms(1)]
    by (auto simp: st_init_def split: option.splits if_splits)
next
  case (run_create n t cli srv timeout)
  note add = rte_hash_ext.add_entries [OF assms(1)] and del = rte_hash_ext.del_entries [OF assms(1)]
  show ?case
  proof (cases rule: st_create_cases [of t ops cli srv n timeout])
    case (undo h1)
    then show ?thesis using run_create.IH add [OF undo(1)] del by simp
  next
    case (ok h1 h2 i)
    then have "entries h2 = entries (hash t)" using add [OF ok(3)] by (auto split: option.splits dest: add)
    then show ?thesis using ok(5) run_create.IH by (simp add: new_session_at_def Let_def frame_simps)
  qed (use run_create.IH in simp_all)
next
  case (run_remove n t i)
  then show ?case
    using rte_hash_ext.del_entries [OF assms(1)]
    by (simp add: st_remove_def Let_def frame_simps)
next
  case (run_touch n t i timeout)
  then show ?case by (simp add: st_touch_frame)
next
  case (run_update n t i f)
  then show ?case by (simp add: frame_simps)
next
  case (run_expire n t t' r)
  then show ?case
    using expire_loop_hash [where P = "\<lambda>h. entries h = entries (hash t)", of ops t n kExpireBudget 0 t' r]
      rte_hash_ext.del_entries [OF assms(1)]
    by (simp add: st_expire_def)
qed

lemma st_inv_keys:
  assumes "st_inv ops t"
  shows "finite (dom (st_lookup ops t))" "card (dom (st_lookup ops t)) \<le> 2 * card (active_set t)"
proof -
  let ?K = "(\<lambda>i. client (sess t i)) ` active_set t \<union> (\<lambda>i. server (sess t i)) ` active_set t"
  have fin: "finite (active_set t)" by (simp add: active_set_def active_finite)
  have sub: "dom (st_lookup ops t) \<subseteq> ?K"
    using st_inv_lookup [OF assms] by (auto simp: active_set_def has_key_def)
  then show "finite (dom (st_lookup ops t))" using fin finite_subset by blast
  have "card (dom (st_lookup ops t)) \<le> card ?K" by (rule card_mono [OF _ sub]) (simp add: fin)
  also have "\<dots> \<le> card (active_set t) + card (active_set t)"
    by (intro card_Un_le [THEN order_trans] add_mono card_image_le fin)
  finally show "card (dom (st_lookup ops t)) \<le> 2 * card (active_set t)" by simp
qed

lemma st_create_room:
  assumes e: "rte_hash_ext ops entries" and r: "st_run ops n t"
    and c: "capacity t \<le> 2 ^ 26" "active_count t < capacity t"
  shows "\<exists>i. snd (st_create ops t cli srv n timeout) = Some i"
proof -
  have h: "rte_hash ops" using e by (simp add: rte_hash_ext_def)
  have inv: "st_inv ops t" using st_run_inv [OF h r] by simp
  have act: "card (active_set t) < capacity t" "free_top t \<noteq> 0"
    using c(2) st_inv_count [OF inv] by simp_all
  have "entries (hash t) = capacity t * 2 + capacity t div 2"
    using st_run_entries [OF e r] c(1) by simp
  then have room: "card (dom (hash_lookup ops (hash t))) + 1 < entries (hash t)"
    using st_inv_keys(2) [OF inv] act(1) by (simp add: st_lookup_def [abs_def])
  have fin: "finite (dom (hash_lookup ops (hash t)))"
    using st_inv_keys(1) [OF inv] by (simp add: st_lookup_def [abs_def])
  define i where "i = free_stack t ! (free_top t - 1)"
  obtain h1 where h1: "hash_add ops (hash t) cli i = Some h1"
    using rte_hash_ext.add_room [OF e fin] room by (metis add_lessD1)
  have l1: "hash_lookup ops h1 = (hash_lookup ops (hash t))(cli \<mapsto> i)" "entries h1 = entries (hash t)"
    using rte_hash.add_lookup [OF h h1] rte_hash_ext.add_entries [OF e h1] by simp_all
  have "card (dom (hash_lookup ops h1)) < entries h1"
    using room fin card_insert_le_m1 card_insert_if [OF fin, of cli] by (simp add: l1)
  then have "hash_add ops h1 k i \<noteq> None" for k
    using rte_hash_ext.add_room [OF e, of h1 k i] fin l1 by auto
  then show ?thesis
    using h1 act(2) unfolding i_def
    by (cases srv) (auto simp: st_create_def Let_def split: option.splits simp del: One_nat_def)
qed

section \<open>A deadline one turn of the wheel ahead\<close>

text \<open>Two sessions share slot 2: one that expires at tick 2, and one whose timeout of 4097 seconds
  puts its deadline at tick 4098, one turn of the wheel later.\<close>

definition demo_key :: "u32 \<Rightarrow> five_tuple" where
  "demo_key ip = FiveTuple ip 0x0100000A 0x3930 0x5000 6"

definition demo_init :: "(five_tuple, nat) bounded_hash session_table" where
  "demo_init = the (st_init bounded_ops 2 0 True)"

definition leak_table :: "(five_tuple, nat) bounded_hash session_table" where
  "leak_table =
     fst (st_create bounded_ops (fst (st_create bounded_ops demo_init (demo_key 1) None 0 4097))
       (demo_key 2) None 0 1)"

lemma demo_key_neq: "demo_key 1 \<noteq> demo_key 2"
  by (simp add: demo_key_def FiveTuple_def)

lemma demo_init_eq:
  "demo_init = \<lparr>hash = (5, []), sessions = replicate 2 (session_zero\<lparr>wheel_prev := kFree\<rparr>),
     free_stack = [1, 0], free_top = 2, capacity = 2, slots = replicate kWheelSlots kNil,
     pending = kNil, cur_tick = 0\<rparr>"
proof -
  have "[0..<2] = [0, 1::nat]" by (simp add: upt_rec)
  then show ?thesis by (simp add: demo_init_def st_init_def)
qed

lemma wheel_slot_small: "k < kWheelSlots \<Longrightarrow> wheel_slot k = k"
  by (simp add: wheel_slot_def)

lemma wheel_slot_demo:
  "wheel_slot 0 = 0" "wheel_slot (Suc 0) = Suc 0" "wheel_slot 2 = 2" "wheel_slot 4098 = 2"
  by (simp_all add: wheel_slot_def kWheelSlots_def)

lemma kWheelSlots_gt: "2 < kWheelSlots" "0 < kWheelSlots" "Suc 0 < kWheelSlots"
  by (simp_all add: kWheelSlots_def)

definition leak_sess :: "u32 \<Rightarrow> nat \<Rightarrow> session" where
  "leak_sess ip e = session_zero\<lparr>client := demo_key ip, expire_tick := e, slot_tick := e\<rparr>"

lemma leak_table_eq:
  "leak_table = \<lparr>hash = (5, [(demo_key 2, 1), (demo_key 1, 0)]),
     sessions = [(leak_sess 1 4098)\<lparr>wheel_prev := 1, wheel_next := kNil\<rparr>,
                 (leak_sess 2 2)\<lparr>wheel_prev := kNil, wheel_next := 0\<rparr>],
     free_stack = [1, 0], free_top = 0, capacity = 2, slots = (replicate kWheelSlots kNil)[2 := 1],
     pending = kNil, cur_tick = 0\<rparr>"
  using demo_key_neq
  by (simp add: leak_table_def demo_init_eq st_create_def new_session_at_def bh_add_def wheel_link_def
      modify_def deadline_def wheel_slot_demo [unfolded numeral_2_eq_2] kWheelSlots_gt [unfolded numeral_2_eq_2]
      leak_sess_def session_zero_def kNil_def numeral_2_eq_2 Let_def)

text \<open>A wheel whose lists are all empty only advances its tick.\<close>

lemma drain_nil: "drain_slot t kNil = Some t"
  by (simp add: drain_slot.simps)

lemma expire_loop_empty:
  assumes "slots t = replicate kWheelSlots kNil" "pending t = kNil" "b \<noteq> 0"
  shows "\<exists>c. expire_loop ops t n b r = Some (t\<lparr>cur_tick := c\<rparr>, r)"
  using assms(1,2)
proof (induction "Suc n - cur_tick t" arbitrary: t)
  case 0
  then have "expire_loop ops t n b r = Some (t\<lparr>cur_tick := cur_tick t\<rparr>, r)"
    using assms(3) by (simp add: expire_loop.simps [of ops t])
  then show ?case by blast
next
  case (Suc k)
  let ?u = "t\<lparr>cur_tick := cur_tick t + 1\<rparr>"
  have same: "t\<lparr>slots := (slots t)[wheel_slot (cur_tick t) := kNil]\<rparr> = t"
    using Suc.prems(1) list_update_id [of "slots t" "wheel_slot (cur_tick t)"] by simp
  have "expire_loop ops t n b r = expire_loop ops ?u n b r"
    using Suc.hyps(2) Suc.prems assms(3) same
    by (auto simp: expire_loop.simps [of ops t] Let_def drain_nil)
  moreover have "\<exists>c. expire_loop ops ?u n b r = Some (?u\<lparr>cur_tick := c\<rparr>, r)"
    using Suc.prems Suc.hyps(2) by (intro Suc.hyps(1)) auto
  ultimately show ?case by simp
qed

definition leaked :: "(five_tuple, nat) bounded_hash session_table" where
  "leaked = \<lparr>hash = (5, [(demo_key 1, 0)]),
     sessions = [(leak_sess 1 4098)\<lparr>wheel_prev := kNil, wheel_next := kNil\<rparr>,
                 (leak_sess 2 2)\<lparr>wheel_prev := kFree, wheel_next := kNil\<rparr>],
     free_stack = [1, 0], free_top = 1, capacity = 2, slots = replicate kWheelSlots kNil,
     pending = kNil, cur_tick = 3\<rparr>"

lemma replicate_update_same: "(replicate n x)[i := x] = replicate n x"
  by (cases "i < n") (simp_all add: list_update_beyond, metis list_update_id nth_replicate)

lemma expire_loop_slot:
  assumes "b \<noteq> 0" "pending t = kNil" "cur_tick t \<le> n"
    "drain_slot (opened t) (slots t ! wheel_slot (cur_tick t)) = Some t'" "u = t'\<lparr>cur_tick := cur_tick t' + 1\<rparr>"
  shows "expire_loop ops t n b r = expire_loop ops u n b r"
  using assms by (simp add: expire_loop.simps [of ops t] opened_def Let_def)

lemma expire_loop_pop:
  assumes "b \<noteq> 0" "pending t \<noteq> kNil" "t1 = fst (pending_pop t)" "i = pending t"
  shows "expire_tick (sess t1 i) \<le> n \<Longrightarrow>
      expire_loop ops t n b r = expire_loop ops (st_remove ops t1 i) n (b - 1) (r + 1)"
    and "n < expire_tick (sess t1 i) \<Longrightarrow>
      expire_loop ops t n b r = expire_loop ops (wheel_link t1 i (expire_tick (sess t1 i))) n (b - 1) r"
  using assms by (simp_all add: expire_loop.simps [of ops t] Let_def frame_simps)

text \<open>The states of the two-session table during \<^verbatim>\<open>expire\<close>.\<close>

abbreviation leak_state :: "session list \<Rightarrow> nat list \<Rightarrow> nat \<Rightarrow> nat \<Rightarrow> (five_tuple, nat) bounded_hash session_table" where
  "leak_state ss sl p c \<equiv> \<lparr>hash = (5, [(demo_key 2, 1), (demo_key 1, 0)]), sessions = ss,
     free_stack = [1, 0], free_top = 0, capacity = 2, slots = sl, pending = p, cur_tick = c\<rparr>"

lemmas leak_eval = wheel_slot_demo kWheelSlots_gt drain_nil Let_def list_update_swap replicate_update_same
  opened_def modify_def leak_sess_def session_zero_def kNil_def kFree_def

lemma leak_expire: "st_expire bounded_ops leak_table 2 = Some (leaked, 1)"
proof -
  let ?s = "[(leak_sess 1 4098)\<lparr>wheel_prev := 1, wheel_next := kNil\<rparr>,
             (leak_sess 2 2)\<lparr>wheel_prev := kNil, wheel_next := 0\<rparr>]"
  let ?q = "[(leak_sess 1 4098)\<lparr>wheel_prev := kNil, wheel_next := 1, in_pending := True\<rparr>,
             (leak_sess 2 2)\<lparr>wheel_prev := 0, wheel_next := kNil, in_pending := True\<rparr>]"
  let ?w = "(replicate kWheelSlots kNil)[2 := 1]" and ?e = "replicate kWheelSlots kNil"
  have 0: "expire_loop bounded_ops (leak_state ?s ?w kNil 0) 2 4096 0 =
      expire_loop bounded_ops (leak_state ?s ?w kNil 1) 2 4096 0"
    by (rule expire_loop_slot [where t' = "leak_state ?s ?w kNil 0"])
      (simp_all add: wheel_slot_demo kWheelSlots_gt opened_def drain_nil list_update_swap replicate_update_same)
  have 1: "\<dots> = expire_loop bounded_ops (leak_state ?s ?w kNil 2) 2 4096 0"
    by (rule expire_loop_slot [where t' = "leak_state ?s ?w kNil 1"])
      (simp_all add: wheel_slot_demo kWheelSlots_gt opened_def drain_nil list_update_swap replicate_update_same)
  have "drain_slot (leak_state ?s ?e kNil 2) 1 = Some (leak_state ?q ?e 0 2)"
    by (simp add: drain_slot.simps pending_push_def leak_eval)
  then have 2: "expire_loop bounded_ops (leak_state ?s ?w kNil 2) 2 4096 0 =
      expire_loop bounded_ops (leak_state ?q ?e 0 3) 2 4096 0"
    by (intro expire_loop_slot [where t' = "leak_state ?q ?e 0 2"])
      (simp_all add: wheel_slot_demo kWheelSlots_gt opened_def replicate_update_same)
  let ?p = "[(leak_sess 1 4098)\<lparr>wheel_prev := kNil, wheel_next := kNil\<rparr>,
             (leak_sess 2 2)\<lparr>wheel_prev := kNil, wheel_next := kNil, in_pending := True\<rparr>]"
  let ?u = "leak_state ?p (?e[2 := 0]) 1 3"
  have pop: "fst (pending_pop (leak_state ?q ?e 0 3)) = leak_state ?p ?e 1 3"
    by (simp add: pending_pop_def wheel_unlink_def set_head_def leak_eval)
  have "wheel_link (leak_state ?p ?e 1 3) 0 4098 = ?u"
    by (simp add: wheel_link_def leak_eval)
  then have 3: "expire_loop bounded_ops (leak_state ?q ?e 0 3) 2 4096 0 =
      expire_loop bounded_ops ?u 2 4095 0"
    using expire_loop_pop(2) [of 4096 "leak_state ?q ?e 0 3" "leak_state ?p ?e 1 3" 0 2] pop
    by (simp add: leak_sess_def kNil_def)
  let ?r = "leak_state [(leak_sess 1 4098)\<lparr>wheel_prev := kNil, wheel_next := kNil\<rparr>,
             (leak_sess 2 2)\<lparr>wheel_prev := kNil, wheel_next := kNil\<rparr>] (?e[2 := 0]) kNil 3"
  have pop': "fst (pending_pop ?u) = ?r"
    by (simp add: pending_pop_def wheel_unlink_def set_head_def leak_eval)
  have "st_remove bounded_ops ?r 1 = leaked"
    using demo_key_neq
    by (simp add: st_remove_def wheel_unlink_def set_head_def leak_eval is_fullnat_def bh_del_def leaked_def)
  then have 4: "expire_loop bounded_ops ?u 2 4095 0 = expire_loop bounded_ops leaked 2 4094 1"
    using expire_loop_pop(1) [of 4095 ?u ?r 1 2] pop' by (simp add: leak_sess_def kNil_def)
  have "pending leaked = kNil" "cur_tick leaked = 3" by (simp_all add: leaked_def)
  then have "expire_loop bounded_ops leaked 2 4094 1 = Some (leaked, 1)"
    by (simp add: expire_loop.simps [of _ leaked])
  then show ?thesis
    unfolding st_expire_def kExpireBudget_def leak_table_eq using 0 1 2 3 4 by simp
qed

section \<open>Properties\<close>

text \<open>A concrete table for the witnesses: one session, created at tick 0 with a timeout of 4.\<close>

definition demo_table :: "(five_tuple, nat) bounded_hash session_table" where
  "demo_table = fst (st_create bounded_ops demo_init (demo_key 1) None 0 4)"

lemma demo_init_run: "st_run bounded_ops 0 demo_init"
  by (rule run_init [of _ 2 0 True]) (simp_all add: demo_init_def st_init_def kFree_def)

lemma demo_fresh: "st_lookup bounded_ops demo_init k = None"
  by (simp add: demo_init_eq st_lookup_def bh_lookup_def)

lemma demo_horizon: "in_horizon demo_init 0 4"
  by (simp add: in_horizon_def deadline_def demo_init_eq kWheelSlots_def)

lemma demo_table_run: "st_run bounded_ops 0 demo_table"
  unfolding demo_table_def by (rule run_create [OF demo_init_run demo_fresh _ demo_horizon]) simp

lemma demo_table_eq:
  "demo_table = \<lparr>hash = (5, [(demo_key 1, 0)]),
     sessions = [(leak_sess 1 5)\<lparr>wheel_prev := kNil, wheel_next := kNil\<rparr>,
                 session_zero\<lparr>wheel_prev := kFree\<rparr>],
     free_stack = [1, 0], free_top = 1, capacity = 2, slots = (replicate kWheelSlots kNil)[5 := 0],
     pending = kNil, cur_tick = 0\<rparr>"
proof -
  have "wheel_slot 5 = 5" "5 < kWheelSlots" by (simp_all add: wheel_slot_def kWheelSlots_def)
  then show ?thesis
    by (simp add: demo_table_def demo_init_eq st_create_def new_session_at_def bh_add_def wheel_link_def
        modify_def deadline_def leak_sess_def session_zero_def kNil_def numeral_2_eq_2 Let_def)
qed

lemma demo_active: "is_active demo_table 0" "active_count demo_table = 1"
  by (simp_all add: demo_table_eq is_active_def kNil_def kFree_def active_count_def)





text \<open>C15: A deadline more than one turn of the wheel ahead loses its session. Two sessions share a
  slot, one due and one due a turn later; expiring the first clears the slot the second was just
  linked into, because \<^verbatim>\<open>remove\<close> unlinks a session that \<^verbatim>\<open>pending_pop\<close> has unlinked already. From
  then on no call of \<^verbatim>\<open>expire\<close>, however late, removes the second session.\<close>

theorem session_leak_beyond_turn:
  "\<exists>u. st_expire bounded_ops leak_table 2 = Some (u, 1) \<and>
     (\<forall>n. \<exists>v. st_expire bounded_ops u n = Some (v, 0) \<and> is_active v 0 \<and> expire_tick (sess v 0) = 4098)"
proof -
  have "\<exists>v. st_expire bounded_ops leaked n = Some (v, 0) \<and> is_active v 0 \<and> expire_tick (sess v 0) = 4098" for n
  proof -
    obtain c where "expire_loop bounded_ops leaked n 4096 0 = Some (leaked\<lparr>cur_tick := c\<rparr>, 0)"
      using expire_loop_empty [of leaked 4096 bounded_ops n 0] by (auto simp: leaked_def)
    then show ?thesis
      by (simp add: st_expire_def kExpireBudget_def) (simp add: is_active_def leaked_def leak_sess_def kNil_def kFree_def)
  qed
  then show ?thesis using leak_expire by blast
qed

text \<open>C13: With the keys of the new session not in use, \<^verbatim>\<open>create\<close> either refuses and leaves every
  session and every lookup as they were, or returns a session that was free, linked with the given
  keys and deadline, and leaves all other sessions alone.\<close>

theorem session_create_effect:
  assumes "rte_hash ops" "st_run ops n t" "st_lookup ops t cli = None"
    "\<And>k. srv = Some k \<Longrightarrow> st_lookup ops t k = None" "in_horizon t n timeout"
  shows "case st_create ops t cli srv n timeout of
     (t', None) \<Rightarrow> is_active t' = is_active t \<and> sessions t' = sessions t \<and> st_lookup ops t' = st_lookup ops t
   | (t', Some i) \<Rightarrow> \<not> is_active t i \<and> (\<forall>j. is_active t' j \<longleftrightarrow> j = i \<or> is_active t j) \<and>
       (\<forall>k. has_key (sess t' i) k \<longleftrightarrow> k = cli \<or> srv = Some k) \<and>
       expire_tick (sess t' i) = deadline n timeout \<and> sstate (sess t' i) = NONE \<and>
       (\<forall>j. j \<noteq> i \<longrightarrow> core (sess t' j) = core (sess t j))"
proof -
  have inv: "st_inv ops t" "cur_tick t \<le> Suc n" using st_run_inv [OF assms(1,2)] by auto
  obtain W where r: "st_rep ops t W {}" and a: "is_active t = linked W" using inv(1) by (rule st_invE)
  show ?thesis
  proof (cases rule: st_create_cases [of t ops cli srv n timeout])
    case (undo h1)
    then show ?thesis
      using st_create_undo(2) [OF assms(1) inv(1) assms(3) undo(1)]
      by (simp add: is_active_def [abs_def] st_lookup_def [abs_def])
  next
    case (ok h1 h2 i)
    define t' where "t' = new_session_at (t\<lparr>hash := h2, free_top := free_top t - 1\<rparr>) i cli srv n timeout"
    note c = create_ok_rep [OF assms(1) r ok(1-4) assms(3,4,5) inv(2) t'_def]
    obtain d where d: "st_rep ops t' (W(d := i # W d)) {}" using c(1) by blast
    have "is_active t' j \<longleftrightarrow> j = i \<or> is_active t j" for j
      unfolding active_iff_linked [OF d] linked_push a ..
    then show ?thesis
      using c(3-5) a has_key_core [OF c(2)] core_sel(5,9) [OF c(2)] ok(5) [folded t'_def]
      by (simp add: fresh_session_sel)
  qed simp_all
qed

theorem session_create_effect_witness:
  "\<exists>t' i. st_create bounded_ops demo_init (demo_key 1) None 0 4 = (t', Some i) \<and>
     is_active t' i \<and> has_key (sess t' i) (demo_key 1) \<and> expire_tick (sess t' i) = 5"
  using session_create_effect [OF bounded.rte_hash_axioms demo_init_run demo_fresh _ demo_horizon,
      of None "demo_key 1"]
  by (auto simp: st_create_def demo_init_eq bh_add_def deadline_def Let_def)

text \<open>While a session is free, \<^verbatim>\<open>create\<close> succeeds: the hash is created with room for two and a
  half keys per session, and a session has at most two.\<close>

lemma session_create_succeeds:
  assumes "rte_hash_ext ops entries" "st_run ops n t" "capacity t \<le> 2 ^ 26" "active_count t < capacity t"
  shows "\<exists>t' i. st_create ops t cli srv n timeout = (t', Some i)"
  using st_create_room [OF assms] by (metis prod.collapse)



text \<open>\<^verbatim>\<open>for_each\<close> visits every session in use exactly once, and \<^verbatim>\<open>active\<close> is their number.\<close>

lemma session_accounting:
  assumes "rte_hash ops" "st_run ops n t"
  shows "distinct (for_each t) \<and> set (for_each t) = {i. is_active t i} \<and> length (for_each t) = active_count t"
proof -
  have inv: "st_inv ops t" using st_run_inv [OF assms] by simp
  have "distinct (for_each t)" "set (for_each t) = active_set t"
    by (auto simp: for_each_def active_set_def is_active_def)
  then show ?thesis
    using st_inv_count(1) [OF inv] distinct_card [of "for_each t"] by (simp add: active_set_def)
qed

end
