(* ===== verification/Session_Map.thy ===== *)
theory Session_Map
  imports Session_Props
begin

text \<open>
  The session table as a map from session numbers to sessions. The operations of the table are
  refinements of updates of this map; the timing wheel, the free list and the hash do not show any more.
\<close>

definition conn :: "'h session_table \<Rightarrow> nat \<Rightarrow> session option" where
  "conn t i = (if is_active t i then Some (core (sess t i)) else None)"

definition st_good :: "('h, five_tuple, nat) hash_ops \<Rightarrow> nat \<Rightarrow> 'h session_table \<Rightarrow> bool" where
  "st_good ops n t \<longleftrightarrow> st_inv ops t \<and> cur_tick t \<le> Suc n"

lemma st_goodD: "st_good ops n t \<Longrightarrow> st_inv ops t" "st_good ops n t \<Longrightarrow> cur_tick t \<le> Suc n"
  by (simp_all add: st_good_def)

lemma conn_active: "conn t i = Some s \<Longrightarrow> is_active t i \<and> core (sess t i) = s"
  by (simp add: conn_def split: if_splits)

lemma dom_conn: "dom (conn t) = active_set t"
  by (auto simp: conn_def active_set_def split: if_splits)

lemma core_idem [simp]: "core (core s) = core s"
  by (simp add: core_def)

lemma lookup_conn:
  assumes "st_good ops n t"
  shows "st_lookup ops t k = Some i \<longleftrightarrow> (\<exists>s. conn t i = Some s \<and> has_key s k)"
  using st_inv_lookup [OF st_goodD(1) [OF assms], of k i] has_key_core [OF core_idem, of "sess t i" k]
  by (auto simp: conn_def)

lemma remove_conn:
  assumes "rte_hash ops" "st_good ops n t" "conn t i = Some s"
  shows "st_good ops n (st_remove ops t i)" "conn (st_remove ops t i) = (conn t)(i := None)"
    "cur_tick (st_remove ops t i) = cur_tick t" "capacity (st_remove ops t i) = capacity t"
proof -
  have a: "is_active t i" using conn_active [OF assms(3)] by simp
  note inv = st_remove_inv [OF assms(1) st_goodD(1) [OF assms(2)] a]
  show "st_good ops n (st_remove ops t i)" using inv(1) assms(2) by (simp add: st_good_def frame_simps)
  show "conn (st_remove ops t i) = (conn t)(i := None)" by (rule ext) (simp add: conn_def inv(2) core_st_remove)
qed (simp_all add: frame_simps)

lemma modify_conn:
  assumes "st_good ops n t" "conn t i = Some s" "\<And>x. wheel_view (f x) = wheel_view x" "\<And>x. core (f x) = f (core x)"
  shows "st_good ops n (modify i f t)" "conn (modify i f t) = (conn t)(i \<mapsto> f s)"
    "cur_tick (modify i f t) = cur_tick t" "capacity (modify i f t) = capacity t"
proof -
  have a: "is_active t i" "core (sess t i) = s" using conn_active [OF assms(2)] by simp_all
  note inv = modify_inv [OF st_goodD(1) [OF assms(1)] a(1), of f, OF assms(3)]
  show "st_good ops n (modify i f t)" using inv(1) assms(1) by (simp add: st_good_def frame_simps)
  obtain W where r: "st_rep ops t W {}" using st_goodD(1) [OF assms(1)] by (rule st_invE)
  have "i < length (sessions t)"
    using a(1) wheel_repD(1) [OF st_repD(1) [OF r]] by (simp add: is_active_def)
  then show "conn (modify i f t) = (conn t)(i \<mapsto> f s)"
    using a by (intro ext) (auto simp: conn_def inv(2) sessions_modify assms(4))
qed (simp_all add: frame_simps)

lemma wheel_link_core: "core (sess (wheel_link t i k) j) = core (sess t j)"
  by (simp add: wheel_link_def Let_def modify_def nth_list_update update_keeps_part)

lemma core_expire: "core (s\<lparr>expire_tick := e\<rparr>) = (core s)\<lparr>expire_tick := e\<rparr>"
  by (simp add: core_def)

lemma touch_conn:
  assumes "st_good ops n t" "conn t i = Some s" "in_horizon t n o'"
  shows "st_good ops n (st_touch t i n o')" "conn (st_touch t i n o') = (conn t)(i \<mapsto> s\<lparr>expire_tick := deadline n o'\<rparr>)"
    "cur_tick (st_touch t i n o') = cur_tick t" "capacity (st_touch t i n o') = capacity t"
proof -
  have a: "is_active t i" "core (sess t i) = s" using conn_active [OF assms(2)] by simp_all
  note inv = st_touch_inv [OF st_goodD(1) [OF assms(1)] a(1) st_goodD(2) [OF assms(1)] assms(3)]
  show "st_good ops n (st_touch t i n o')" using inv(1) assms(1) by (simp add: st_good_def st_touch_frame)
  obtain W where r: "st_rep ops t W {}" using st_goodD(1) [OF assms(1)] by (rule st_invE)
  have len: "i < length (sessions t)"
    using a(1) wheel_repD(1) [OF st_repD(1) [OF r]] by (simp add: is_active_def)
  define u where "u = (if deadline n o' < slot_tick (sess t i) \<and> \<not> in_pending (sess t i)
    then wheel_link (wheel_unlink t i) i (deadline n o') else t)"
  have u: "core (sess u j) = core (sess t j)" "length (sessions u) = length (sessions t)" for j
    by (simp_all add: u_def wheel_link_core sessions_wheel_unlink frame_simps)
  have "st_touch t i n o' = modify i (\<lambda>s. s\<lparr>expire_tick := deadline n o'\<rparr>) u" by (simp add: st_touch_def u_def Let_def)
  then have c: "core (sess (st_touch t i n o') j) = (if j = i then s\<lparr>expire_tick := deadline n o'\<rparr> else core (sess t j))" for j
    using len u(2) a(2) u(1) [of i] u(1) [of j] by (simp add: sessions_modify core_expire)
  show "conn (st_touch t i n o') = (conn t)(i \<mapsto> s\<lparr>expire_tick := deadline n o'\<rparr>)"
    using a(1) by (intro ext) (simp add: conn_def inv(2) c)
qed (simp_all add: st_touch_frame)

lemma core_fresh [simp]: "core (fresh_session cli srv n o') = fresh_session cli srv n o'"
  by (cases srv) (simp_all add: core_def fresh_session_def session_zero_def)

lemma create_conn:
  assumes "rte_hash ops" "st_good ops n t" "in_horizon t n o'" "st_lookup ops t cli = None"
    "\<And>k. srv = Some k \<Longrightarrow> st_lookup ops t k = None" "st_create ops t cli srv n o' = (t', r)"
  shows "st_good ops n t'" "cur_tick t' = cur_tick t" "capacity t' = capacity t"
    "case r of None \<Rightarrow> conn t' = conn t | Some i \<Rightarrow> conn t i = None \<and> conn t' = (conn t)(i \<mapsto> fresh_session cli srv n o')"
proof -
  have inv: "st_inv ops (fst (st_create ops t cli srv n o'))" "cur_tick (fst (st_create ops t cli srv n o')) = cur_tick t"
    by (rule st_create_inv [OF assms(1) st_goodD [OF assms(2)] assms(4,5,3)], assumption)+
  show "st_good ops n t'" "cur_tick t' = cur_tick t" using inv assms(2,6) by (simp_all add: st_good_def)
  obtain W where rep: "st_rep ops t W {}" "is_active t = linked W" using st_goodD(1) [OF assms(2)] by (rule st_invE)
  show "capacity t' = capacity t"
    using assms(6) by (cases rule: st_create_cases [of t ops cli srv n o']) (auto simp: new_session_at_def Let_def frame_simps)
  show "case r of None \<Rightarrow> conn t' = conn t | Some i \<Rightarrow> conn t i = None \<and> conn t' = (conn t)(i \<mapsto> fresh_session cli srv n o')"
  proof (cases rule: st_create_cases [of t ops cli srv n o'])
    case (ok h1 h2 i)
    then have t': "t' = new_session_at (t\<lparr>hash := h2, free_top := free_top t - 1\<rparr>) i cli srv n o'" "r = Some i"
      using assms(6) by simp_all
    note c = create_ok_rep [OF assms(1) rep(1) ok(1-4) assms(4,5,3) st_goodD(2) [OF assms(2)] t'(1)]
    obtain k where k: "st_rep ops t' (W(k := i # W k)) {}" using c(1) by blast
    have "is_active t' j \<longleftrightarrow> j = i \<or> is_active t j" for j
      using active_iff_linked [OF k, of j] rep(2) by (simp add: linked_push)
    then have "conn t' = (conn t)(i \<mapsto> fresh_session cli srv n o')"
      using c(2,3) by (intro ext) (simp add: conn_def)
    then show ?thesis using c(4) rep(2) t'(2) by (simp add: conn_def)
  qed (use assms(6) in \<open>auto simp: conn_def is_active_def fun_eq_iff\<close>)
qed

section \<open>The contract of the table\<close>

text \<open>What the packet path relies on when it looks up and closes sessions.\<close>

locale session_store =
  fixes good :: "'t \<Rightarrow> bool" and view :: "'t \<Rightarrow> nat \<Rightarrow> session option"
    and find :: "'t \<Rightarrow> five_tuple \<Rightarrow> nat option" and release :: "'t \<Rightarrow> nat \<Rightarrow> 't"
  assumes find_view: "good t \<Longrightarrow> find t k = Some i \<longleftrightarrow> (\<exists>s. view t i = Some s \<and> has_key s k)"
    and release_good: "good t \<Longrightarrow> view t i = Some s \<Longrightarrow> good (release t i)"
    and release_view: "good t \<Longrightarrow> view t i = Some s \<Longrightarrow> view (release t i) = (view t)(i := None)"
begin

lemma same_key: "good t \<Longrightarrow> view t i = Some a \<Longrightarrow> view t j = Some b \<Longrightarrow> has_key a k \<Longrightarrow> has_key b k \<Longrightarrow> i = j"
  by (metis find_view option.inject)

lemma find_release:
  assumes "good t" "view t i = Some s"
  shows "find (release t i) k = (if find t k = Some i then None else find t k)"
proof -
  have r: "find (release t i) k = Some j \<longleftrightarrow> j \<noteq> i \<and> find t k = Some j" for j
    unfolding find_view [OF release_good [OF assms]] find_view [OF assms(1)] release_view [OF assms] by simp
  show ?thesis
  proof (cases "find (release t i) k")
    case None
    then have "find t k = None \<or> find t k = Some i" using r by (metis option.exhaust)
    then show ?thesis using None by auto
  next
    case (Some j)
    then show ?thesis using r [of j] by simp
  qed
qed

end

locale sess_hash = rte_hash ops for ops :: "('h, five_tuple, nat) hash_ops"

sublocale sess_hash \<subseteq> store: session_store "st_good ops n" conn "st_lookup ops" "st_remove ops" for n
  by unfold_locales (erule lookup_conn, (erule (1) remove_conn [OF rte_hash_axioms])+)

interpretation bounded_sess: sess_hash "bounded_ops :: ((five_tuple, nat) bounded_hash, five_tuple, nat) hash_ops"
  by unfold_locales

end
