(* ===== verification/Neigh_Props.thy ===== *)
theory Neigh_Props
  imports Neigh
begin

text \<open>
  Correctness of the neighbour table: the hash and the records of the master agree, static entries
  stay, and ageing removes exactly the entries that were not confirmed for too long.
\<close>

section \<open>Records\<close>

lemma meta_at_set_meta:
  "meta_at (nb_meta (set_meta ip f s)) q = (if q = ip then f (meta_at (nb_meta s) ip) else meta_at (nb_meta s) q)"
  by (auto simp: set_meta_def meta_at_def update_conv' split: option.splits)

lemma distinct_set_meta: "distinct (map fst (nb_meta s)) \<Longrightarrow> distinct (map fst (nb_meta (set_meta ip f s)))"
  by (simp add: set_meta_def distinct_update)

lemma in_filtered:
  assumes "distinct (map fst ms)" "\<not> P neigh_meta_zero"
  shows "ip \<in> set (map fst (filter (\<lambda>(ip, m). P m) ms)) \<longleftrightarrow> P (meta_at ms ip)"
proof -
  have "ip \<in> set (map fst (filter (\<lambda>(ip, m). P m) ms)) \<longleftrightarrow> (\<exists>m. map_of ms ip = Some m \<and> P m)"
    by (force simp: map_of_eq_Some_iff [OF assms(1)])
  then show ?thesis using assms(2) by (cases "map_of ms ip") (simp_all add: meta_at_def)
qed

definition valid_count :: "(ipv4_addr \<times> neigh_meta) list \<Rightarrow> nat" where
  "valid_count ms = length (filter (\<lambda>(ip, m). nm_valid m) ms)"

lemma valid_count_Cons: "valid_count ((q, m) # ms) = (if nm_valid m then 1 else 0) + valid_count ms"
  by (simp add: valid_count_def)

lemma meta_at_Cons: "meta_at ((q, m) # ms) ip = (if ip = q then m else meta_at ms ip)"
  by (simp add: meta_at_def)

lemma valid_count_update:
  assumes "distinct (map fst ms)"
  shows "valid_count (AList.update ip m ms) + (if nm_valid (meta_at ms ip) then 1 else 0) =
    valid_count ms + (if nm_valid m then 1 else 0)"
  using assms
proof (induction ms)
  case Nil
  then show ?case by (simp add: valid_count_def meta_at_def neigh_meta_zero_def)
next
  case (Cons p ms)
  obtain q x where p: "p = (q, x)" by (cases p)
  then show ?case using Cons by (auto simp: valid_count_Cons meta_at_Cons)
qed

lemma valid_count_delete:
  assumes "distinct (map fst ms)"
  shows "valid_count (AList.delete ip ms) + (if nm_valid (meta_at ms ip) then 1 else 0) = valid_count ms"
  using assms
proof (induction ms)
  case Nil
  then show ?case by (simp add: valid_count_def meta_at_def neigh_meta_zero_def)
next
  case (Cons p ms)
  obtain q x where p: "p = (q, x)" by (cases p)
  show ?case
  proof (cases "q = ip")
    case True
    then have "AList.delete ip ms = ms" using Cons.prems p by (simp add: delete_idem)
    then show ?thesis using True p by (simp add: valid_count_Cons meta_at_Cons)
  next
    case False
    then show ?thesis using Cons p by (simp add: valid_count_Cons meta_at_Cons)
  qed
qed

section \<open>The invariant\<close>

definition neigh_ok :: "'h neigh_ops \<Rightarrow> 'h neigh \<Rightarrow> bool" where
  "neigh_ok ops s \<longleftrightarrow> distinct (map fst (nb_meta s)) \<and>
     (\<forall>ip. hash_lookup ops (nb_hash s) ip \<noteq> None \<longleftrightarrow> nm_valid (meta_at (nb_meta s) ip)) \<and>
     (\<forall>ip v. hash_lookup ops (nb_hash s) ip = Some v \<longrightarrow> (\<exists>mac. length mac = 6 \<and> v = pack mac)) \<and>
     nb_count s = word_of_nat (valid_count (nb_meta s))"

lemma neigh_okD:
  assumes "neigh_ok ops s"
  shows "distinct (map fst (nb_meta s))" "hash_lookup ops (nb_hash s) ip \<noteq> None \<longleftrightarrow> nm_valid (meta_at (nb_meta s) ip)"
    "hash_lookup ops (nb_hash s) ip = Some v \<Longrightarrow> \<exists>mac. length mac = 6 \<and> v = pack mac"
    "nb_count s = word_of_nat (valid_count (nb_meta s))"
  using assms by (auto simp: neigh_ok_def)

lemma lookup_valid: "neigh_ok ops s \<Longrightarrow> neigh_lookup ops s ip \<noteq> None \<longleftrightarrow> nm_valid (meta_at (nb_meta s) ip)"
  using neigh_okD(2,3) [of ops s ip] pack_valid by (force simp: neigh_lookup_def split: option.splits)

lemma lookup_length: "neigh_ok ops s \<Longrightarrow> neigh_lookup ops s ip = Some mac \<Longrightarrow> length mac = 6"
  by (auto simp: neigh_lookup_def unpack_def split: option.splits if_splits)

lemma set_meta_ok:
  assumes "neigh_ok ops s" "\<And>m. nm_valid (f m) = nm_valid m"
  shows "neigh_ok ops (set_meta ip f s)"
proof -
  have "valid_count (nb_meta (set_meta ip f s)) = valid_count (nb_meta s)"
    using valid_count_update [OF neigh_okD(1) [OF assms(1)], of ip "f (meta_at (nb_meta s) ip)"] assms(2)
    by (simp add: set_meta_def)
  then show ?thesis using assms by (simp add: neigh_ok_def distinct_set_meta meta_at_set_meta)
qed

lemma set_meta_lookup [simp]: "neigh_lookup ops (set_meta ip f s) = neigh_lookup ops s"
  by (simp add: neigh_lookup_def fun_eq_iff)

lemma fold_set_meta_ok:
  assumes "neigh_ok ops s" "\<And>m. nm_valid (f m) = nm_valid m"
  shows "neigh_ok ops (fold (\<lambda>ip. set_meta ip f) ips s)"
  using assms(1) by (induction ips arbitrary: s) (simp_all add: set_meta_ok [OF _ assms(2)])

lemma erase_fields:
  "nb_hash (neigh_erase ops ip s) = hash_del ops (nb_hash s) ip"
  "nb_meta (neigh_erase ops ip s) = AList.delete ip (nb_meta s)"
  "nb_count (neigh_erase ops ip s) = (if nm_valid (meta_at (nb_meta s) ip) then nb_count s - 1 else nb_count s)"
proof -
  have "AList.delete ip (nb_meta s) = nb_meta s" if "map_of (nb_meta s) ip = None"
    using that by (simp add: delete_idem map_of_eq_None_iff)
  then show "nb_hash (neigh_erase ops ip s) = hash_del ops (nb_hash s) ip"
    "nb_meta (neigh_erase ops ip s) = AList.delete ip (nb_meta s)"
    "nb_count (neigh_erase ops ip s) = (if nm_valid (meta_at (nb_meta s) ip) then nb_count s - 1 else nb_count s)"
    by (cases "map_of (nb_meta s) ip"; simp add: neigh_erase_def Let_def meta_at_def neigh_meta_zero_def)+
qed

text \<open>The hash of the neighbour table is an \<^verbatim>\<open>rte_hash\<close> without the extendable-bucket feature, so an
  insertion may fail at any time.\<close>

locale neigh_hash = rte_hash ops for ops :: "'h neigh_ops"
begin

lemma store_ok:
  assumes "neigh_ok ops s" "length mac = 6"
  shows "neigh_ok ops (neigh_store ops ip mac s)"
proof (cases "hash_add ops (nb_hash s) ip (pack mac)")
  case None
  then show ?thesis using assms(1) by (simp add: neigh_store_def)
next
  case (Some h)
  let ?s = "neigh_store ops ip mac s"
  let ?m = "AList.update ip ((meta_at (nb_meta s) ip)\<lparr>nm_valid := True\<rparr>) (nb_meta s)"
  have s: "nb_hash ?s = h" "nb_meta ?s = ?m"
      "nb_count ?s = (if nm_valid (meta_at (nb_meta s) ip) then nb_count s else nb_count s + 1)"
    using Some by (simp_all add: neigh_store_def Let_def set_meta_def)
  note d = neigh_okD(1) [OF assms(1)]
  have m: "meta_at ?m q = (if q = ip then (meta_at (nb_meta s) ip)\<lparr>nm_valid := True\<rparr> else meta_at (nb_meta s) q)" for q
    by (auto simp: meta_at_def update_conv' split: option.splits)
  have "valid_count ?m = (if nm_valid (meta_at (nb_meta s) ip) then valid_count (nb_meta s) else Suc (valid_count (nb_meta s)))"
    using valid_count_update [OF d, of ip "(meta_at (nb_meta s) ip)\<lparr>nm_valid := True\<rparr>"] by (simp split: if_splits)
  then have "nb_count ?s = word_of_nat (valid_count ?m)" using s(3) neigh_okD(4) [OF assms(1)] by simp
  moreover have "(hash_lookup ops h q \<noteq> None) = nm_valid (meta_at ?m q)" for q
    using neigh_okD(2) [OF assms(1), of q] by (simp add: m lookup_add_iff [OF Some])
  moreover have "\<exists>mac. length mac = 6 \<and> v = pack mac" if "hash_lookup ops h q = Some v" for q v
    using that neigh_okD(3) [OF assms(1), of q v] assms(2) by (auto simp: lookup_add_iff [OF Some] split: if_splits)
  ultimately show ?thesis unfolding neigh_ok_def s(1,2) using distinct_update [OF d] s(3) by simp
qed

lemma erase_ok:
  assumes "neigh_ok ops s"
  shows "neigh_ok ops (neigh_erase ops ip s)"
    and "meta_at (nb_meta (neigh_erase ops ip s)) q = (if q = ip then neigh_meta_zero else meta_at (nb_meta s) q)"
    and "neigh_lookup ops (neigh_erase ops ip s) q = (if q = ip then None else neigh_lookup ops s q)"
proof -
  let ?s = "neigh_erase ops ip s"
  note s = erase_fields [of ops ip s]
  note d = neigh_okD(1) [OF assms]
  have m: "meta_at (AList.delete ip (nb_meta s)) q = (if q = ip then neigh_meta_zero else meta_at (nb_meta s) q)" for q
    by (simp add: meta_at_def delete_conv')
  have "nb_count ?s = word_of_nat (valid_count (AList.delete ip (nb_meta s)))"
    unfolding s(3) neigh_okD(4) [OF assms] valid_count_delete [OF d, of ip, symmetric] by simp
  moreover have "(hash_lookup ops (nb_hash ?s) q \<noteq> None) = nm_valid (meta_at (nb_meta ?s) q)" for q
    using neigh_okD(2) [OF assms, of q] by (simp add: s m lookup_del_iff neigh_meta_zero_def)
  moreover have "\<exists>mac. length mac = 6 \<and> v = pack mac" if "hash_lookup ops (nb_hash ?s) q = Some v" for q v
    using that neigh_okD(3) [OF assms, of q v] by (simp add: s lookup_del_iff split: if_splits)
  moreover have "distinct (map fst (nb_meta ?s))" unfolding s(2) by (rule distinct_delete [OF d])
  ultimately show "neigh_ok ops ?s" unfolding neigh_ok_def s(2) by blast
  show "meta_at (nb_meta ?s) q = (if q = ip then neigh_meta_zero else meta_at (nb_meta s) q)" by (simp add: s m)
  show "neigh_lookup ops ?s q = (if q = ip then None else neigh_lookup ops s q)"
    by (simp add: neigh_lookup_def s lookup_del_iff)
qed

lemma store_lookup:
  assumes "length mac = 6"
  shows "neigh_lookup ops (neigh_store ops ip mac s) q =
    (if q = ip \<and> hash_add ops (nb_hash s) ip (pack mac) \<noteq> None then Some mac else neigh_lookup ops s q)"
proof (cases "hash_add ops (nb_hash s) ip (pack mac)")
  case (Some h)
  then have "nb_hash (neigh_store ops ip mac s) = h" by (simp add: neigh_store_def Let_def)
  then show ?thesis using Some by (simp add: neigh_lookup_def lookup_add_iff [OF Some] pack_valid unpack_pack [OF assms])
qed (simp add: neigh_store_def)

lemma erase_all_ok:
  assumes "neigh_ok ops s"
  shows "neigh_ok ops (fold (neigh_erase ops) ips s)"
    and "meta_at (nb_meta (fold (neigh_erase ops) ips s)) q = (if q \<in> set ips then neigh_meta_zero else meta_at (nb_meta s) q)"
    and "neigh_lookup ops (fold (neigh_erase ops) ips s) q = (if q \<in> set ips then None else neigh_lookup ops s q)"
  using assms by (induction ips arbitrary: s) (simp_all add: erase_ok)

text \<open>Dropping records that are not valid changes nothing for the readers.\<close>

lemma drop_stale_ok:
  assumes "neigh_ok ops s" "\<And>m. P m \<Longrightarrow> \<not> nm_valid m"
  shows "neigh_ok ops (s\<lparr>nb_meta := filter (\<lambda>(ip, m). \<not> P m) (nb_meta s)\<rparr>)"
proof -
  let ?ms = "filter (\<lambda>(ip, m). \<not> P m) (nb_meta s)"
  note d = neigh_okD(1) [OF assms(1)]
  have v: "nm_valid (meta_at ?ms ip) = nm_valid (meta_at (nb_meta s) ip)" for ip
  proof (cases "map_of (nb_meta s) ip")
    case None
    then have "map_of ?ms ip = None" by (auto simp: map_of_eq_None_iff)
    then show ?thesis using None by (simp add: meta_at_def)
  next
    case (Some m)
    have "distinct (map fst ?ms)" using d by (rule distinct_map_filter)
    then have "map_of ?ms ip = (if P m then None else Some m)"
      using Some d by (auto simp: map_of_eq_None_iff dest: map_of_SomeD eq_key_imp_eq_value)
    then show ?thesis using Some assms(2) by (auto simp: meta_at_def neigh_meta_zero_def)
  qed
  have "filter (\<lambda>(ip, m). nm_valid m) ?ms = filter (\<lambda>(ip, m). nm_valid m) (nb_meta s)"
    using assms(2) by (auto intro: filter_cong)
  then have "valid_count ?ms = valid_count (nb_meta s)" by (simp add: valid_count_def)
  then show ?thesis using assms(1) distinct_map_filter [OF d] v by (simp add: neigh_ok_def)
qed

lemma age_ok:
  assumes "neigh_ok ops s"
  shows "neigh_ok ops (fst (neigh_age ops now refresh s))"
    and "neigh_lookup ops (fst (neigh_age ops now refresh s)) ip =
      (if age_dead now (meta_at (nb_meta s) ip) then None else neigh_lookup ops s ip)"
proof -
  let ?dead = "map fst (filter (\<lambda>(ip, m). age_dead now m) (nb_meta s))"
  have "ip \<in> set ?dead \<longleftrightarrow> age_dead now (meta_at (nb_meta s) ip)"
    using neigh_okD(1) [OF assms] by (rule in_filtered) (simp add: age_dead_def neigh_meta_zero_def)
  then show "neigh_lookup ops (fst (neigh_age ops now refresh s)) ip =
      (if age_dead now (meta_at (nb_meta s) ip) then None else neigh_lookup ops s ip)"
    using erase_all_ok(3) [OF assms, of ?dead ip] by (simp add: neigh_age_def Let_def neigh_lookup_def)
  show "neigh_ok ops (fst (neigh_age ops now refresh s))"
    unfolding neigh_age_def Let_def fst_conv
    by (intro drop_stale_ok fold_set_meta_ok erase_all_ok(1) assms) (auto simp: age_stale_def)
qed

lemma step_ok: "neigh_step ops k s s' \<Longrightarrow> neigh_ok ops s \<Longrightarrow> neigh_ok ops s'"
proof (induction rule: neigh_step.induct)
  case (step_static mac s ip)
  then show ?case unfolding add_static_def by (intro set_meta_ok store_ok) simp_all
next
  case (step_learn mac s ip sol now)
  then have "neigh_ok ops (set_meta ip (\<lambda>m. m\<lparr>nm_confirmed := now\<rparr>) s)"
      "neigh_ok ops (set_meta ip (\<lambda>m. m\<lparr>nm_confirmed := now\<rparr>) (neigh_store ops ip mac s))"
    by (auto intro!: set_meta_ok store_ok)
  then show ?case using step_learn by (simp add: neigh_learn_def Let_def)
next
  case (step_hint mac s ip now)
  then have "neigh_ok ops (set_meta ip (\<lambda>m. m\<lparr>nm_confirmed := now\<rparr>) (neigh_store ops ip mac s))"
    by (auto intro!: set_meta_ok store_ok)
  then show ?case using step_hint by (simp add: neigh_hint_def Let_def)
next
  case (step_want s ip now)
  then show ?case by (auto simp: want_request_def Let_def intro!: set_meta_ok)
next
  case (step_age s now refresh)
  then show ?case by (simp add: age_ok)
qed

lemma run_ok: "neigh_run ops n s s' \<Longrightarrow> neigh_ok ops s \<Longrightarrow> neigh_ok ops s'"
  by (induction rule: neigh_run.induct) (auto intro: step_ok)

lemma init_ok: "neigh_init ops rcu = Some s \<Longrightarrow> neigh_ok ops s"
  by (auto simp: neigh_init_def neigh_ok_def meta_at_def neigh_meta_zero_def valid_count_def create_empty
      split: option.splits if_splits)

end

interpretation bounded_neigh: neigh_hash "bounded_ops :: ((ipv4_addr, u64) bounded_hash) neigh_ops"
  by unfold_locales


section \<open>Properties\<close>

lemma card_valid:
  assumes "distinct (map fst ms)"
  shows "card {ip. nm_valid (meta_at ms ip)} = valid_count ms"
proof -
  let ?fs = "filter (\<lambda>(ip, m). nm_valid m) ms"
  have "{ip. nm_valid (meta_at ms ip)} = set (map fst ?fs)"
    using in_filtered [OF assms, of nm_valid] by (auto simp: neigh_meta_zero_def)
  then show ?thesis
    using distinct_card [OF distinct_map_filter [OF assms, of "\<lambda>(ip, m). nm_valid m"]] by (simp add: valid_count_def)
qed

lemma run_from_init:
  assumes "rte_hash ops" "neigh_init ops rcu = Some s0" "neigh_run ops n s0 s"
  shows "neigh_ok ops s"
  using neigh_hash.run_ok [OF neigh_hash.intro [OF assms(1)] assms(3)]
    neigh_hash.init_ok [OF neigh_hash.intro [OF assms(1)] assms(2)] by blast

text \<open>C35: In every state the master can bring the neighbour table to, a reader finds exactly the addresses whose
  record is valid, always with a complete MAC address, and the count is the number of these addresses.\<close>

theorem neigh_consistent:
  assumes "rte_hash ops" "neigh_init ops rcu = Some s0" "neigh_run ops n s0 s"
  shows "(neigh_lookup ops s ip \<noteq> None \<longleftrightarrow> nm_valid (meta_at (nb_meta s) ip)) \<and>
    (\<forall>mac. neigh_lookup ops s ip = Some mac \<longrightarrow> length mac = 6) \<and>
    nb_count s = word_of_nat (card {q. neigh_lookup ops s q \<noteq> None})"
proof -
  note ok = run_from_init [OF assms]
  show ?thesis
    unfolding lookup_valid [OF ok] neigh_okD(4) [OF ok] card_valid [OF neigh_okD(1) [OF ok]]
    using lookup_length [OF ok] by blast
qed

text \<open>C36: A static address that is in the table keeps its MAC address: nothing the balancer learns from the
  network and no ageing changes it.\<close>

theorem neigh_static_kept:
  assumes "rte_hash ops" "neigh_init ops rcu = Some s0" "neigh_run ops n s0 s"
    "nm_is_static (meta_at (nb_meta s) ip)" "neigh_lookup ops s ip \<noteq> None" "length mac = 6"
  shows "neigh_lookup ops (neigh_learn ops q mac sol now s) ip = neigh_lookup ops s ip \<and>
    neigh_lookup ops (neigh_hint ops q mac now s) ip = neigh_lookup ops s ip \<and>
    neigh_lookup ops (fst (want_request q now s)) ip = neigh_lookup ops s ip \<and>
    neigh_lookup ops (fst (neigh_age ops now refresh s)) ip = neigh_lookup ops s ip"
proof -
  note ok = run_from_init [OF assms(1-3)] and h = neigh_hash.intro [OF assms(1)]
  have v: "nm_valid (meta_at (nb_meta s) ip)" using assms(5) lookup_valid [OF ok] by blast
  then obtain m where m: "map_of (nb_meta s) ip = Some m" "nm_valid m" "nm_is_static m"
    using assms(4) by (auto simp: meta_at_def neigh_meta_zero_def split: option.splits)
  have store: "neigh_lookup ops (neigh_store ops q mac s) ip = neigh_lookup ops s ip" if "q \<noteq> ip"
    using neigh_hash.store_lookup [OF h assms(6), of q s ip] that by simp
  have "\<not> age_dead now (meta_at (nb_meta s) ip)" using assms(4) by (simp add: age_dead_def)
  then have "neigh_lookup ops (fst (neigh_age ops now refresh s)) ip = neigh_lookup ops s ip"
    using neigh_hash.age_ok(2) [OF h ok, of now refresh ip] by simp
  moreover have "neigh_lookup ops (neigh_learn ops q mac sol now s) ip = neigh_lookup ops s ip"
    "neigh_lookup ops (neigh_hint ops q mac now s) ip = neigh_lookup ops s ip"
    using m store by (cases "q = ip"; simp add: neigh_learn_def neigh_hint_def Let_def)+
  moreover have "neigh_lookup ops (fst (want_request q now s)) ip = neigh_lookup ops s ip"
    by (simp add: want_request_def Let_def)
  ultimately show ?thesis by blast
qed

text \<open>C37: Ageing leaves an address in the table exactly when it is static or was confirmed less than 300 seconds ago.\<close>

theorem neigh_age_exact:
  assumes "rte_hash ops" "neigh_init ops rcu = Some s0" "neigh_run ops n s0 s"
  shows "neigh_lookup ops (fst (neigh_age ops now refresh s)) ip =
    (let m = meta_at (nb_meta s) ip in
     if nm_is_static m \<or> now - nm_confirmed m < 300 then neigh_lookup ops s ip else None)"
proof -
  note ok = run_from_init [OF assms]
  show ?thesis
    using neigh_hash.age_ok(2) [OF neigh_hash.intro [OF assms(1)] ok, of now refresh ip] lookup_valid [OF ok, of ip]
    by (auto simp: age_dead_def Let_def kReachableSec_def not_le not_less)
qed

section \<open>Witnesses\<close>

definition demo_neigh :: "(ipv4_addr, u64) bounded_hash neigh" where
  "demo_neigh = \<lparr>nb_hash = (kCapacity, []), nb_meta = [], nb_gen = 1, nb_count = 0\<rparr>"

lemma demo_neigh_init: "neigh_init bounded_ops True = Some demo_neigh"
  by (simp add: neigh_init_def demo_neigh_def)

lemma demo_neigh_run: "neigh_run bounded_ops 1 demo_neigh (add_static bounded_ops 7 [1, 2, 3, 4, 5, 6] demo_neigh)"
  using run_step [OF run_none step_static, of "[1, 2, 3, 4, 5, 6]"] by simp

theorem neigh_consistent_witness:
  "nb_count (add_static bounded_ops 7 [1, 2, 3, 4, 5, 6] demo_neigh) =
    word_of_nat (card {q. neigh_lookup bounded_ops (add_static bounded_ops 7 [1, 2, 3, 4, 5, 6] demo_neigh) q \<noteq> None})"
  using neigh_consistent [OF bounded.rte_hash_axioms demo_neigh_init demo_neigh_run] by blast

lemma demo_static:
  "nm_is_static (meta_at (nb_meta (add_static bounded_ops 7 [1, 2, 3, 4, 5, 6] demo_neigh)) 7)"
  "neigh_lookup bounded_ops (add_static bounded_ops 7 [1, 2, 3, 4, 5, 6] demo_neigh) 7 = Some [1, 2, 3, 4, 5, 6]"
proof -
  show "nm_is_static (meta_at (nb_meta (add_static bounded_ops 7 [1, 2, 3, 4, 5, 6] demo_neigh)) 7)"
    by (simp add: add_static_def meta_at_set_meta)
  have "hash_add bounded_ops (nb_hash demo_neigh) 7 v \<noteq> None" for v :: u64
    by (simp add: demo_neigh_def bh_add_def kCapacity_def)
  then show "neigh_lookup bounded_ops (add_static bounded_ops 7 [1, 2, 3, 4, 5, 6] demo_neigh) 7 = Some [1, 2, 3, 4, 5, 6]"
    using bounded_neigh.store_lookup [of "[1, 2, 3, 4, 5, 6]" 7 demo_neigh 7] by (simp add: add_static_def)
qed

theorem neigh_static_kept_witness:
  "neigh_lookup bounded_ops (neigh_learn bounded_ops 7 [9, 9, 9, 9, 9, 9] True 1000
     (add_static bounded_ops 7 [1, 2, 3, 4, 5, 6] demo_neigh)) 7 = Some [1, 2, 3, 4, 5, 6]"
  using neigh_static_kept [OF bounded.rte_hash_axioms demo_neigh_init demo_neigh_run demo_static(1),
      of "[9, 9, 9, 9, 9, 9]" 7 True 1000] demo_static(2) by simp

theorem neigh_age_exact_witness:
  "neigh_lookup bounded_ops (fst (neigh_age bounded_ops 1000 []
     (add_static bounded_ops 7 [1, 2, 3, 4, 5, 6] demo_neigh))) 7 = Some [1, 2, 3, 4, 5, 6]"
  using neigh_age_exact [OF bounded.rte_hash_axioms demo_neigh_init demo_neigh_run, of 1000 "[]" 7] demo_static
  by (simp add: Let_def)

end
