(* ===== verification/Tcp_Options.thy ===== *)
theory Tcp_Options
  imports Nat_Forwarder
begin

text \<open>
  What the two TCP option edits of \<^verbatim>\<open>src/forward/nat_forwarder.cpp\<close> do: \<open>strip_timestamp\<close> removes the
  timestamp options and no others, \<open>insert_toa\<close> puts the client address behind the fixed header.
  \<open>options\<close> is the list of the options that a receiver walking the header sees.
\<close>

section \<open>Walking the options\<close>

function options :: "bytes \<Rightarrow> nat \<Rightarrow> nat \<Rightarrow> (nat \<times> u8 \<times> nat) list" where
  "options p opt stop =
     (if \<not> opt < stop \<or> p ! opt = TCPOPT_EOL then []
      else if p ! opt = TCPOPT_NOP then options p (opt + 1) stop
      else if opt + 1 \<ge> stop \<or> unat (p ! (opt + 1)) < 2 \<or> opt + unat (p ! (opt + 1)) > stop then []
      else (opt, p ! opt, unat (p ! (opt + 1))) # options p (opt + unat (p ! (opt + 1))) stop)"
  by pat_completeness auto
termination options
  by (relation "measure (\<lambda>(p, opt, stop). stop - opt)") auto

declare options.simps [simp del]

definition is_timestamp :: "nat \<times> u8 \<times> nat \<Rightarrow> bool" where
  "is_timestamp x \<longleftrightarrow> fst (snd x) = TCPOPT_TIMESTAMP"

lemma opt_kinds [simp]:
  "TCPOPT_NOP \<noteq> TCPOPT_EOL" "TCPOPT_TIMESTAMP \<noteq> TCPOPT_EOL" "TCPOPT_TIMESTAMP \<noteq> TCPOPT_NOP"
  by (simp_all add: TCPOPT_NOP_def TCPOPT_EOL_def TCPOPT_TIMESTAMP_def)

text \<open>One step of the walk and of the loop, case by case. An option is whole when its length byte is
  there, at least 2, and does not reach beyond the header.\<close>

definition whole :: "bytes \<Rightarrow> nat \<Rightarrow> nat \<Rightarrow> bool" where
  "whole p opt stop \<longleftrightarrow>
     p ! opt \<noteq> TCPOPT_EOL \<and> p ! opt \<noteq> TCPOPT_NOP \<and> opt + 1 < stop \<and> 2 \<le> unat (p ! (opt + 1)) \<and>
     opt + unat (p ! (opt + 1)) \<le> stop"

lemma options_end: "\<not> opt < stop \<or> p ! opt = TCPOPT_EOL \<Longrightarrow> options p opt stop = []"
  and options_nop: "opt < stop \<Longrightarrow> p ! opt = TCPOPT_NOP \<Longrightarrow> options p opt stop = options p (opt + 1) stop"
  and options_bad: "p ! opt \<noteq> TCPOPT_NOP \<Longrightarrow> \<not> whole p opt stop \<Longrightarrow> options p opt stop = []"
  and options_whole: "whole p opt stop \<Longrightarrow>
      options p opt stop = (opt, p ! opt, unat (p ! (opt + 1))) # options p (opt + unat (p ! (opt + 1))) stop"
  by (subst options.simps, auto simp: whole_def)+

lemma strip_end: "\<not> opt < stop \<or> p ! opt = TCPOPT_EOL \<Longrightarrow> strip_loop p opt stop ch = (p, ch)"
  and strip_nop: "opt < stop \<Longrightarrow> p ! opt = TCPOPT_NOP \<Longrightarrow> strip_loop p opt stop ch = strip_loop p (opt + 1) stop ch"
  and strip_bad: "p ! opt \<noteq> TCPOPT_NOP \<Longrightarrow> \<not> whole p opt stop \<Longrightarrow> strip_loop p opt stop ch = (p, ch)"
  and strip_other: "whole p opt stop \<Longrightarrow> p ! opt \<noteq> TCPOPT_TIMESTAMP \<Longrightarrow>
      strip_loop p opt stop ch = strip_loop p (opt + unat (p ! (opt + 1))) stop ch"
  by (subst strip_loop.simps, auto simp: whole_def)+

lemma strip_ts:
  assumes "whole p opt stop" "p ! opt = TCPOPT_TIMESTAMP" "stop \<le> length p"
  shows "strip_loop p opt stop ch = strip_loop (put_bytes p opt (replicate (unat (p ! (opt + 1))) TCPOPT_NOP)) (opt + 1) stop True"
proof -
  have "put_bytes p opt (replicate (unat (p ! (opt + 1))) TCPOPT_NOP) ! (opt + 1) = 1"
    using assms by (simp add: nth_put_bytes whole_def TCPOPT_NOP_def)
  then show ?thesis
    using assms by (subst strip_loop.simps) (auto simp: Let_def whole_def)
qed

lemma options_cong:
  "(\<And>i. opt \<le> i \<Longrightarrow> i < stop \<Longrightarrow> p ! i = q ! i) \<Longrightarrow> options p opt stop = options q opt stop"
proof (induction "stop - opt" arbitrary: opt rule: less_induct)
  case less
  have e: "opt < stop \<Longrightarrow> p ! opt = q ! opt" "opt + 1 < stop \<Longrightarrow> p ! (opt + 1) = q ! (opt + 1)"
    using less.prems by simp_all
  have w: "opt < stop \<Longrightarrow> whole p opt stop \<longleftrightarrow> whole q opt stop" using e by (auto simp: whole_def)
  consider "\<not> opt < stop \<or> p ! opt = TCPOPT_EOL" | "opt < stop" "p ! opt = TCPOPT_NOP"
    | "opt < stop" "p ! opt \<noteq> TCPOPT_NOP" "\<not> whole p opt stop" | "opt < stop" "whole p opt stop"
    by blast
  then show ?case
  proof cases
    case 1
    then show ?thesis using e(1) by (metis options_end)
  next
    case 2
    then show ?thesis using less.hyps [of "opt + 1"] less.prems e(1) by (simp add: options_nop)
  next
    case 3
    then show ?thesis using w e(1) by (simp add: options_bad)
  next
    case 4
    then have q: "whole q opt stop" using w by blast
    have "0 < unat (p ! (opt + 1))" using 4 by (simp add: whole_def)
    then have d: "stop - (opt + unat (p ! (opt + 1))) < stop - opt" using 4(1) by simp
    have "options p (opt + unat (p ! (opt + 1))) stop = options q (opt + unat (p ! (opt + 1))) stop"
      by (rule less.hyps [OF d less.prems]) linarith+
    moreover have "p ! opt = q ! opt" "p ! (opt + 1) = q ! (opt + 1)"
      using 4 e by (simp_all add: whole_def)
    ultimately show ?thesis by (simp only: options_whole [OF 4(2)] options_whole [OF q])
  qed
qed

lemma options_nops:
  "(\<And>i. opt \<le> i \<Longrightarrow> i < opt + k \<Longrightarrow> p ! i = TCPOPT_NOP) \<Longrightarrow> opt + k \<le> stop \<Longrightarrow>
   options p opt stop = options p (opt + k) stop"
proof (induction k arbitrary: opt)
  case (Suc k)
  have "options p opt stop = options p (opt + 1) stop"
    using Suc.prems by (subst options.simps) (simp add: TCPOPT_NOP_def TCPOPT_EOL_def)
  then show ?case using Suc.IH [of "opt + 1"] Suc.prems by simp
qed simp

section \<open>Removing timestamps\<close>

lemma strip_induct [consumes 1, case_names bad nop other ts]:
  fixes ch :: bool
  assumes "stop \<le> length p"
    and "\<And>p opt ch. stop \<le> length p \<Longrightarrow> \<not> opt < stop \<or> p ! opt = TCPOPT_EOL \<or> p ! opt \<noteq> TCPOPT_NOP \<and> \<not> whole p opt stop \<Longrightarrow> P p opt ch"
    and "\<And>p opt ch. stop \<le> length p \<Longrightarrow> opt < stop \<Longrightarrow> p ! opt = TCPOPT_NOP \<Longrightarrow> P p (opt + 1) ch \<Longrightarrow> P p opt ch"
    and "\<And>p opt ch. stop \<le> length p \<Longrightarrow> whole p opt stop \<Longrightarrow> p ! opt \<noteq> TCPOPT_TIMESTAMP \<Longrightarrow>
       P p (opt + unat (p ! (opt + 1))) ch \<Longrightarrow> P p opt ch"
    and "\<And>p opt ch. stop \<le> length p \<Longrightarrow> whole p opt stop \<Longrightarrow> p ! opt = TCPOPT_TIMESTAMP \<Longrightarrow>
       P (put_bytes p opt (replicate (unat (p ! (opt + 1))) TCPOPT_NOP)) (opt + 1) True \<Longrightarrow> P p opt ch"
  shows "P p opt ch"
  using assms(1)
proof (induction "stop - opt" arbitrary: p opt ch rule: less_induct)
  case (less opt p ch)
  have IH: "P p' opt' ch'" if "opt < stop" "opt < opt'" "stop \<le> length p'" for p' opt' ch'
    using that by (intro less.hyps) simp_all
  consider "\<not> opt < stop \<or> p ! opt = TCPOPT_EOL \<or> p ! opt \<noteq> TCPOPT_NOP \<and> \<not> whole p opt stop"
    | "opt < stop" "p ! opt = TCPOPT_NOP" | "whole p opt stop" "p ! opt \<noteq> TCPOPT_TIMESTAMP"
    | "whole p opt stop" "p ! opt = TCPOPT_TIMESTAMP"
    by blast
  then show ?case
  proof cases
    case 1
    then show ?thesis using less.prems assms(2) by blast
  next
    case 2
    then show ?thesis using less.prems assms(3) IH by simp
  next
    case 3
    then have "P p (opt + unat (p ! (opt + 1))) ch" using less.prems by (intro IH) (simp_all add: whole_def)
    then show ?thesis using 3 less.prems assms(4) by blast
  next
    case 4
    then have "P (put_bytes p opt (replicate (unat (p ! (opt + 1))) TCPOPT_NOP)) (opt + 1) True"
      using less.prems by (intro IH) (simp_all add: whole_def)
    then show ?thesis using 4 less.prems assms(5) by blast
  qed
qed

lemma strip_loop_frame:
  "stop \<le> length p \<Longrightarrow>
   length (fst (strip_loop p opt stop ch)) = length p \<and>
   (\<forall>i. (i < opt \<or> stop \<le> i \<longrightarrow> fst (strip_loop p opt stop ch) ! i = p ! i) \<and>
        (fst (strip_loop p opt stop ch) ! i = p ! i \<or> fst (strip_loop p opt stop ch) ! i = TCPOPT_NOP))"
proof (induction p opt ch rule: strip_induct)
  case (bad p opt ch)
  then have "strip_loop p opt stop ch = (p, ch)" using strip_end strip_bad by blast
  then show ?case by simp
next
  case (nop p opt ch)
  then show ?case by (simp add: strip_nop)
next
  case (other p opt ch)
  then show ?case by (simp add: strip_other)
next
  case (ts p opt ch)
  define n where "n = unat (p ! (opt + 1))"
  define p' where "p' = put_bytes p opt (replicate n TCPOPT_NOP)"
  have n: "opt + n \<le> stop" using ts(2) by (simp add: whole_def n_def)
  have p': "p' ! i = (if opt \<le> i \<and> i < opt + n then TCPOPT_NOP else p ! i)" for i
    using n ts(1) by (auto simp: p'_def nth_put_bytes)
  have "strip_loop p opt stop ch = strip_loop p' (opt + 1) stop True"
    using strip_ts [OF ts(2,3,1)] by (simp only: p'_def n_def)
  then have q: "fst (strip_loop p opt stop ch) = fst (strip_loop p' (opt + 1) stop True)" by simp
  have len: "length (fst (strip_loop p' (opt + 1) stop True)) = length p'"
    and out: "i < opt + 1 \<or> stop \<le> i \<Longrightarrow> fst (strip_loop p' (opt + 1) stop True) ! i = p' ! i"
    and all: "fst (strip_loop p' (opt + 1) stop True) ! i = p' ! i \<or> fst (strip_loop p' (opt + 1) stop True) ! i = TCPOPT_NOP" for i
    using ts(4) unfolding n_def [symmetric] p'_def [symmetric] by blast+
  have "i < opt \<or> stop \<le> i \<Longrightarrow> p' ! i = p ! i" for i using n p' [of i] by auto
  moreover have "p' ! i = p ! i \<or> p' ! i = TCPOPT_NOP" for i using p' [of i] by simp
  moreover have "length p' = length p" by (simp add: p'_def)
  ultimately show ?case
    unfolding q using len out all by (metis less_Suc_eq Suc_eq_plus1)
qed

lemma strip_loop_outside: "stop \<le> length p \<Longrightarrow> i < opt \<or> stop \<le> i \<Longrightarrow> fst (strip_loop p opt stop ch) ! i = p ! i"
  using strip_loop_frame by blast

lemma strip_loop_options:
  "stop \<le> length p \<Longrightarrow>
   options (fst (strip_loop p opt stop ch)) opt stop = filter (\<lambda>x. \<not> is_timestamp x) (options p opt stop) \<and>
   (snd (strip_loop p opt stop ch) \<longleftrightarrow> ch \<or> (\<exists>x\<in>set (options p opt stop). is_timestamp x))"
proof (induction p opt ch rule: strip_induct)
  case (bad p opt ch)
  then have "strip_loop p opt stop ch = (p, ch)" "options p opt stop = []"
    using strip_end [of opt stop p ch] strip_bad [of p opt stop ch] options_end [of opt stop p] options_bad [of p opt stop]
    by blast+
  then show ?case by simp
next
  case (nop p opt ch)
  have "fst (strip_loop p (opt + 1) stop ch) ! opt = p ! opt" using nop by (intro strip_loop_outside) simp_all
  then have "options (fst (strip_loop p (opt + 1) stop ch)) opt stop = options (fst (strip_loop p (opt + 1) stop ch)) (opt + 1) stop"
    using nop by (intro options_nop) simp_all
  then show ?case
    using nop(4) unfolding strip_nop [OF nop(2,3)] options_nop [OF nop(2,3)] by simp
next
  case (other p opt ch)
  let ?q = "fst (strip_loop p (opt + unat (p ! (opt + 1))) stop ch)"
  have same: "?q ! i = p ! i" if "i < opt + unat (p ! (opt + 1))" for i
    using that other(1) by (intro strip_loop_outside) simp_all
  have e: "?q ! opt = p ! opt" "?q ! (opt + 1) = p ! (opt + 1)"
    using other(2) same [of opt] same [of "opt + 1"] by (simp_all add: whole_def del: One_nat_def add_Suc_right)
  have "whole ?q opt stop" using other(2) unfolding whole_def e .
  then have "options ?q opt stop = (opt, p ! opt, unat (p ! (opt + 1))) # options ?q (opt + unat (p ! (opt + 1))) stop"
    using options_whole [of ?q opt stop] by (simp only: e)
  then show ?case
    using other(3,4) unfolding strip_other [OF other(2,3)] options_whole [OF other(2)]
    by (simp add: is_timestamp_def)
next
  case (ts p opt ch)
  define n where "n = unat (p ! (opt + 1))"
  define p' where "p' = put_bytes p opt (replicate n TCPOPT_NOP)"
  let ?q = "fst (strip_loop p' (opt + 1) stop True)"
  have n: "2 \<le> n" "opt + n \<le> stop" "opt < stop" using ts(2) by (simp_all add: whole_def n_def)
  have nop: "p' ! i = TCPOPT_NOP" if "opt \<le> i" "i < opt + n" for i
    using that ts n by (simp add: p'_def nth_put_bytes)
  have "options p' (opt + 1) stop = options p' (opt + 1 + (n - 1)) stop"
    using n by (intro options_nops nop) simp_all
  also have "opt + 1 + (n - 1) = opt + n" using n by simp
  also have "options p' (opt + n) stop = options p (opt + n) stop"
    by (intro options_cong) (simp add: p'_def)
  finally have o: "options p' (opt + 1) stop = options p (opt + n) stop" .
  have "?q ! opt = TCPOPT_NOP"
    using strip_loop_outside [of stop p' opt "opt + 1" True] nop [of opt] n ts(1) by (simp add: p'_def)
  then have "options ?q opt stop = options ?q (opt + 1) stop" using n by (intro options_nop) simp_all
  moreover have "strip_loop p opt stop ch = strip_loop p' (opt + 1) stop True"
    using strip_ts [OF ts(2,3,1)] by (simp only: p'_def n_def)
  moreover have "options p opt stop = (opt, TCPOPT_TIMESTAMP, n) # options p (opt + n) stop"
    using options_whole [OF ts(2)] ts(3) by (simp only: n_def)
  ultimately show ?case
    using ts(4) unfolding n_def [symmetric] p'_def [symmetric] o by (simp add: is_timestamp_def)
qed

section \<open>Inserting the client address\<close>

lemma nibble_set:
  fixes x :: u8
  assumes "k < 16"
  shows "unat (drop_bit 4 (push_bit 4 (word_of_nat k) OR (x AND 0x0F)) AND 0x0F) = k"
proof -
  have z: "drop_bit 4 (x AND 0x0F) = 0"
  proof (rule bit_word_eqI)
    fix i
    have m: "(0x0F :: u8) = mask 4" by (simp add: mask_eq_exp_minus_1)
    show "bit (drop_bit 4 (x AND 0x0F)) i \<longleftrightarrow> bit 0 i"
      unfolding m by (simp add: bit_simps)
  qed
  have "k = 0 \<or> k = 1 \<or> k = 2 \<or> k = 3 \<or> k = 4 \<or> k = 5 \<or> k = 6 \<or> k = 7 \<or> k = 8 \<or> k = 9 \<or> k = 10 \<or>
      k = 11 \<or> k = 12 \<or> k = 13 \<or> k = 14 \<or> k = 15"
    using assms by presburger
  then have "unat (drop_bit 4 (push_bit 4 (word_of_nat k :: u8)) AND 0x0F) = k"
    by (elim disjE) simp_all
  then show ?thesis by (simp only: drop_bit_or z bit.disj_zero_right)
qed

lemma tcp_header_len_set:
  assumes "n \<le> 60" "4 dvd n" "b + 12 < length p"
  shows "tcp_header_len (tcp_set_header_len n p b) b = n"
proof -
  have "n div 4 < 16" using assms(1) by linarith
  then show ?thesis
    using assms nibble_set [of "n div 4" "p ! (b + 12)"]
    by (simp add: tcp_header_len_def tcp_set_header_len_def)
qed

lemma tcp_header_len_dvd: "4 dvd tcp_header_len p b"
  by (simp add: tcp_header_len_def)

lemma total_length_set:
  "b + 3 < length p \<Longrightarrow> n < 65536 \<Longrightarrow> ip_total_length (set_total_length n p b) b = n"
  by (simp add: ip_total_length_def set_total_length_def unsigned_of_nat take_bit_nat_eq_self)

definition toa_edit :: "bytes \<Rightarrow> nat \<Rightarrow> nat \<Rightarrow> nat \<Rightarrow> nat \<Rightarrow> nat \<Rightarrow> port_be \<Rightarrow> ipv4_addr \<Rightarrow> bytes" where
  "toa_edit p iph tcp doff ip_len frame_len port ip =
     set_total_length (ip_len + TCPOLEN_TOA)
       (tcp_set_header_len (doff + TCPOLEN_TOA)
         (put32 (put16 ((put_bytes p (tcp + 28) (sub p (tcp + 20) (frame_len - (tcp + 20))))
            [tcp + 20 := TCPOPT_TOA, tcp + 21 := word_of_nat TCPOLEN_TOA]) (tcp + 22) port) (tcp + 24) ip) tcp) iph"

lemma toa_edit:
  assumes "length p = f + 8" "34 \<le> tcp" "tcp + 20 \<le> f" "doff + 8 \<le> 60" "4 dvd doff" "ip_len + 8 < 65536"
    and q: "q = toa_edit p 14 tcp doff ip_len f port ip"
  shows "length q = f + 8"
    and "q ! (tcp + 20) = TCPOPT_TOA" "q ! (tcp + 21) = 8" "get16 q (tcp + 22) = port" "get32 q (tcp + 24) = ip"
    and "sub q (tcp + 28) (f - (tcp + 20)) = sub p (tcp + 20) (f - (tcp + 20))"
    and "i < tcp + 20 \<Longrightarrow> i \<noteq> 16 \<Longrightarrow> i \<noteq> 17 \<Longrightarrow> i \<noteq> tcp + 12 \<Longrightarrow> q ! i = p ! i"
    and "tcp_header_len q tcp = doff + 8" "ip_total_length q 14 = ip_len + 8"
proof -
  note d = q toa_edit_def TCPOLEN_TOA_def
  have tl: "set_total_length n x 14 ! i = x ! i" if "i \<noteq> 16" "i \<noteq> 17" for n x i
    using that by (simp add: set_total_length_def)
  have hl: "tcp_set_header_len n x tcp ! i = x ! i" if "i \<noteq> tcp + 12" for n x i
    using that by (simp add: tcp_set_header_len_def)
  show l: "length q = f + 8" using assms(1) by (simp add: d set_total_length_def tcp_set_header_len_def)
  have b: "q ! i = put_bytes p (tcp + 28) (sub p (tcp + 20) (f - (tcp + 20))) ! i" if "tcp + 28 \<le> i" for i
    using assms(1-3) that by (simp add: d tl hl)
  show "q ! (tcp + 20) = TCPOPT_TOA" "q ! (tcp + 21) = 8"
    using assms(1-3) by (simp_all add: d tl hl)
  show "get16 q (tcp + 22) = port" "get32 q (tcp + 24) = ip"
    using assms(1-3) by (simp_all add: d set_total_length_def tcp_set_header_len_def)
  show "sub q (tcp + 28) (f - (tcp + 20)) = sub p (tcp + 20) (f - (tcp + 20))"
  proof (rule nth_equalityI)
    show "length (sub q (tcp + 28) (f - (tcp + 20))) = length (sub p (tcp + 20) (f - (tcp + 20)))"
      using l assms(1,3) by simp
    fix i
    assume i: "i < length (sub q (tcp + 28) (f - (tcp + 20)))"
    then have "sub q (tcp + 28) (f - (tcp + 20)) ! i = q ! (tcp + 28 + i)" using l assms(1,3) by simp
    also have "\<dots> = sub p (tcp + 20) (f - (tcp + 20)) ! i"
      using i l assms(1,3) b [of "tcp + 28 + i"] by (auto simp: nth_put_bytes)
    finally show "sub q (tcp + 28) (f - (tcp + 20)) ! i = sub p (tcp + 20) (f - (tcp + 20)) ! i" .
  qed
  show "q ! i = p ! i" if "i < tcp + 20" "i \<noteq> 16" "i \<noteq> 17" "i \<noteq> tcp + 12"
    using assms(1-3) that by (simp add: d tl hl)
  show "ip_total_length q 14 = ip_len + 8"
    using assms by (simp add: d total_length_set tcp_set_header_len_def)
  have "tcp_header_len q tcp = tcp_header_len (tcp_set_header_len (doff + 8) x tcp) tcp" if "q = set_total_length n (tcp_set_header_len (doff + 8) x tcp) 14" for n x
    using that tl assms(2) by (simp add: tcp_header_len_def)
  then show "tcp_header_len q tcp = doff + 8"
    using assms by (simp add: d tcp_header_len_set)
qed


text \<open>\<open>insert_toa\<close> succeeds with the edited frame, or fails and at most cuts off the padding.\<close>

context pktmbuf
begin

lemma insert_toa_cases:
  assumes "insert_toa ops m meta ip port mtu = (r, m', meta')" "pm_l3_offset meta = 14"
    and "14 + ip_total_length (mb_data m) 14 \<le> length (mb_data m)"
  defines "f \<equiv> 14 + ip_total_length (mb_data m) 14"
    and "doff \<equiv> tcp_header_len (mb_data m) (pm_l4_offset meta)"
  shows "\<not> r \<and> meta' = meta \<and> mb_data m' \<in> {mb_data m, take f (mb_data m)} \<or>
    r \<and> doff + 8 \<le> 60 \<and> ip_total_length (mb_data m) 14 + 8 \<le> mtu \<and>
    (\<exists>xs. length xs = 8 \<and> mb_data m' = toa_edit (take f (mb_data m) @ xs) 14 (pm_l4_offset meta) doff
        (ip_total_length (mb_data m) 14) f port ip) \<and>
    meta' = meta\<lparr>pm_total_len := u16_of (pm_total_len meta + 8), pm_payload_offset := u16_of (pm_payload_offset meta + 8)\<rparr>"
proof -
  define m1 where "m1 = (if length (mb_data m) > f then pktmbuf_trim ops m (length (mb_data m) - f) else m)"
  have m1: "mb_data m1 = take f (mb_data m)"
    using assms(3) by (auto simp: m1_def f_def trim_take)
  have eq: "insert_toa ops m meta ip port mtu =
      (if doff + 8 > 60 \<or> ip_total_length (mb_data m) 14 + 8 > mtu \<or> \<not> mb_contiguous m then (False, m, meta)
       else case pktmbuf_append ops m1 8 of None \<Rightarrow> (False, m1, meta)
         | Some m2 \<Rightarrow> (True, m2\<lparr>mb_data := toa_edit (mb_data m2) 14 (pm_l4_offset meta) doff
              (ip_total_length (mb_data m) 14) f port ip\<rparr>,
              meta\<lparr>pm_total_len := u16_of (pm_total_len meta + 8), pm_payload_offset := u16_of (pm_payload_offset meta + 8)\<rparr>))"
    by (simp add: insert_toa_def Let_def toa_edit_def TCPOLEN_TOA_def m1_def f_def doff_def assms(2) add.assoc
        add.commute [of 21] add.commute [of 22] split: option.split)
  show ?thesis
  proof (cases "pktmbuf_append ops m1 8")
    case None
    then show ?thesis using assms(1) m1 eq by (auto split: if_splits)
  next
    case (Some m2)
    obtain xs where "length xs = 8" "mb_data m2 = take f (mb_data m) @ xs"
      using append_some [OF Some] m1 by auto
    then show ?thesis using assms(1) eq Some by (auto split: if_splits)
  qed
qed

end

section \<open>Metadata after the option edits\<close>

lemma get16_cong: "q ! n = p ! n \<Longrightarrow> q ! (n + 1) = p ! (n + 1) \<Longrightarrow> get16 q n = get16 p n"
  by (simp add: get16_def)

lemma get32_cong:
  "q ! n = p ! n \<Longrightarrow> q ! (n + 1) = p ! (n + 1) \<Longrightarrow> q ! (n + 2) = p ! (n + 2) \<Longrightarrow> q ! (n + 3) = p ! (n + 3) \<Longrightarrow> get32 q n = get32 p n"
  by (simp add: get32_def get16_def numeral_3_eq_3)

lemma ip_fields_cong:
  assumes a: "\<forall>i. b \<le> i \<and> i < b + 20 \<and> i \<noteq> b + 2 \<and> i \<noteq> b + 3 \<longrightarrow> q ! i = p ! i"
  shows "ip_version q b = ip_version p b" "ip_header_len q b = ip_header_len p b" "ip_ttl q b = ip_ttl p b"
    "ip_protocol q b = ip_protocol p b" "ip_src q b = ip_src p b" "ip_dst q b = ip_dst p b"
    "ip_is_tcp q b = ip_is_tcp p b" "ip_is_udp q b = ip_is_udp p b" "ip_is_icmp q b = ip_is_icmp p b"
proof -
  have e: "q ! b = p ! b" "q ! (b + 8) = p ! (b + 8)" "q ! (b + 9) = p ! (b + 9)" by (rule a [rule_format]; simp)+
  have "get32 q (b + 12) = get32 p (b + 12)" "get32 q (b + 16) = get32 p (b + 16)"
    by (rule get32_cong; rule a [rule_format]; simp)+
  then show "ip_version q b = ip_version p b" "ip_header_len q b = ip_header_len p b" "ip_ttl q b = ip_ttl p b"
    "ip_protocol q b = ip_protocol p b" "ip_src q b = ip_src p b" "ip_dst q b = ip_dst p b"
    "ip_is_tcp q b = ip_is_tcp p b" "ip_is_udp q b = ip_is_udp p b" "ip_is_icmp q b = ip_is_icmp p b"
    using e by (simp_all add: field_defs)
qed

lemma is_ipv4_cong: "q ! 12 = p ! 12 \<Longrightarrow> q ! 13 = p ! 13 \<Longrightarrow> is_ipv4 q = is_ipv4 p"
  by (simp add: is_ipv4_def eth_type_def get16_def)

lemma l4_ports_cong:
  "(\<And>i. b \<le> i \<Longrightarrow> i < b + 4 \<Longrightarrow> q ! i = p ! i) \<Longrightarrow> l4_src_port q b = l4_src_port p b \<and> l4_dst_port q b = l4_dst_port p b"
  by (simp add: field_defs get16_def)

lemma l4_fits_cong:
  assumes "l4_fits p m" "ip_is_tcp q 14 = ip_is_tcp p 14" "ip_is_udp q 14 = ip_is_udp p 14" "ip_is_icmp q 14 = ip_is_icmp p 14"
    and "\<And>i. pm_l4_offset m \<le> i \<Longrightarrow> i < pm_l4_offset m + 20 \<Longrightarrow> i < pm_total_len m \<Longrightarrow> q ! i = p ! i"
    and "pm_payload_offset m \<le> pm_total_len m"
  shows "l4_fits q m"
proof -
  let ?o = "pm_l4_offset m"
  have tcp: "tcp_header_len q ?o = tcp_header_len p ?o \<and> tcp_flags q ?o = tcp_flags p ?o" if "ip_is_tcp p 14"
    using that assms(1,6) assms(5) [of "?o + 12"] assms(5) [of "?o + 13"] by (simp add: l4_fits_def field_defs)
  have udp: "udp_length q ?o = udp_length p ?o" if "ip_is_udp p 14"
    using that assms(1,6) get16_cong [OF assms(5) assms(5), of "?o + 4"] by (simp add: l4_fits_def udp_length_def)
  have ports: "l4_src_port q ?o = l4_src_port p ?o \<and> l4_dst_port q ?o = l4_dst_port p ?o" if "ip_is_tcp p 14 \<or> ip_is_udp p 14"
    using that assms(1,5,6) by (intro l4_ports_cong) (auto simp: l4_fits_def)
  show ?thesis
    using assms(1) tcp udp ports unfolding l4_fits_def assms(2-4) by auto
qed

lemma meta_fits_cong:
  assumes "meta_fits p m" "pm_total_len m \<le> length q"
    and "\<And>i. 12 \<le> i \<Longrightarrow> i < pm_l4_offset m + 20 \<Longrightarrow> i < pm_total_len m \<Longrightarrow> q ! i = p ! i"
  shows "meta_fits q m"
proof -
  have b: "34 \<le> pm_l4_offset m" "pm_l4_offset m \<le> pm_total_len m" "pm_payload_offset m \<le> pm_total_len m"
    using assms(1) by (auto simp: meta_fits_def)
  have ip: "q ! i = p ! i" if "14 \<le> i" "i < 14 + 20" for i using that b by (intro assms(3)) simp_all
  have "get16 q (14 + 2) = get16 p (14 + 2)" by (rule get16_cong; rule ip; simp)
  then have tl: "ip_total_length q 14 = ip_total_length p 14" by (simp only: ip_total_length_def)
  have v4: "is_ipv4 q = is_ipv4 p" using b by (intro is_ipv4_cong assms(3)) simp_all
  have "\<forall>i. 14 \<le> i \<and> i < 14 + 20 \<and> i \<noteq> 14 + 2 \<and> i \<noteq> 14 + 3 \<longrightarrow> q ! i = p ! i" using ip by blast
  note fc = ip_fields_cong [OF this]
  have f: "l4_fits q m"
  proof (rule l4_fits_cong [of p])
    show "l4_fits p m" using assms(1) by (simp only: meta_fits_def)
    show "q ! i = p ! i" if "pm_l4_offset m \<le> i" "i < pm_l4_offset m + 20" "i < pm_total_len m" for i
      using that b by (intro assms(3)) linarith+
    show "ip_is_tcp q 14 = ip_is_tcp p 14" by (rule fc)
    show "ip_is_udp q 14 = ip_is_udp p 14" by (rule fc)
    show "ip_is_icmp q 14 = ip_is_icmp p 14" by (rule fc)
  qed (rule b)
  show ?thesis
    using assms(1,2) f unfolding meta_fits_def fc tl v4 by blast
qed

lemma meta_fits_toa:
  assumes "meta_fits p m" "ip_is_tcp p 14" "pm_total_len m + 8 < 65536"
    and "f = pm_total_len m" "doff = tcp_header_len p (pm_l4_offset m)" "doff + 8 \<le> 60" "length xs = 8"
    and q: "q = toa_edit (take f p @ xs) 14 (pm_l4_offset m) doff (ip_total_length p 14) f port ip"
    and m': "m' = m\<lparr>pm_total_len := u16_of (pm_total_len m + 8), pm_payload_offset := u16_of (pm_payload_offset m + 8)\<rparr>"
  shows "meta_fits q m'"
proof -
  let ?o = "pm_l4_offset m"
  have b: "34 \<le> ?o" "?o + 20 \<le> f" "f \<le> length p" "pm_payload_offset m \<le> f" "f = 14 + ip_total_length p 14"
    using assms(1,2,4,5) by (auto simp: meta_fits_def l4_fits_def)
  note e = toa_edit [OF _ b(1,2) assms(6) _ _ q]
  have len: "length (take f p @ xs) = f + 8" "4 dvd doff" "ip_total_length p 14 + 8 < 65536"
    using b assms(3-5,7) tcp_header_len_dvd by auto
  have same: "q ! i = p ! i" if "i < ?o + 20" "i \<noteq> 16" "i \<noteq> 17" "i \<noteq> ?o + 12" for i
    using e(7) [OF len that] that b by (simp add: nth_append)
  have ip: "\<forall>i. 14 \<le> i \<and> i < 14 + 20 \<and> i \<noteq> 14 + 2 \<and> i \<noteq> 14 + 3 \<longrightarrow> q ! i = p ! i"
    using b by (auto intro: same)
  have v4: "is_ipv4 q = is_ipv4 p" using b by (intro is_ipv4_cong same) simp_all
  have ports: "l4_src_port q ?o = l4_src_port p ?o \<and> l4_dst_port q ?o = l4_dst_port p ?o"
    using b by (intro l4_ports_cong same) simp_all
  have fl: "tcp_flags q ?o = tcp_flags p ?o" using b same [of "?o + 13"] by (simp add: tcp_flags_def)
  have "ip_protocol p 14 = 6" using assms(2) by (simp add: ip_is_tcp_def)
  then show ?thesis
    using assms(1-5) b e(1,8,9) [OF len] ports fl v4
    by (auto simp: meta_fits_def l4_fits_def m' ip_fields_cong [OF ip] ip_is_udp_def ip_is_icmp_def)
qed

section \<open>Properties\<close>

lemma strip_timestamp_frame:
  assumes "strip_timestamp p tcp = (q, ch)" "tcp + tcp_header_len p tcp \<le> length p"
  shows "length q = length p" "i < tcp + 20 \<or> tcp + tcp_header_len p tcp \<le> i \<Longrightarrow> q ! i = p ! i"
  using assms strip_loop_frame [of "tcp + tcp_header_len p tcp" p "tcp + 20" False]
  by (auto simp: strip_timestamp_def)

text \<open>C24: Stripping the timestamps leaves a receiver that walks the options of the segment with the
  options it would have seen before except the timestamps, in the same places, and reports a change
  exactly when there was a timestamp. Nothing outside the options changes.\<close>

theorem strip_timestamp_exact:
  assumes "strip_timestamp p tcp = (q, ch)" "stop = tcp + tcp_header_len p tcp" "stop \<le> length p"
  shows "options q (tcp + 20) stop = filter (\<lambda>x. \<not> is_timestamp x) (options p (tcp + 20) stop) \<and>
    (ch \<longleftrightarrow> (\<exists>x\<in>set (options p (tcp + 20) stop). is_timestamp x)) \<and> length q = length p \<and>
    (\<forall>i. i < tcp + 20 \<or> stop \<le> i \<longrightarrow> q ! i = p ! i)"
  using strip_loop_options [of stop p "tcp + 20" False] strip_timestamp_frame [OF assms(1)] assms
  by (simp add: strip_timestamp_def)

definition demo_options :: bytes where
  "demo_options = replicate 12 0 @ [0x90, 2, 0, 0, 0, 0, 0, 0, 2, 4, 5, 0xB4, 8, 10, 0, 0, 0, 0, 0, 0, 0, 0, 1, 0]"

theorem strip_timestamp_exact_witness:
  "\<exists>q ch. strip_timestamp demo_options 0 = (q, ch) \<and> length q = 36 \<and> q ! 0 = 0"
proof -
  obtain q ch where q: "strip_timestamp demo_options 0 = (q, ch)" by (meson surj_pair)
  have "tcp_header_len demo_options 0 = 36" "length demo_options = 36" "demo_options ! 0 = 0"
    by (simp_all add: demo_options_def tcp_header_len_def nth_append)
  then show ?thesis using strip_timestamp_exact [OF q refl] q by simp
qed

text \<open>C25: When the client address has been inserted, reading it back gives it: behind the fixed TCP
  header there is an option of kind 254 and length 8 with the port and the address, everything
  behind it is what was behind the fixed header before, the header length and the total length have
  grown by eight, and the metadata fits the new frame.\<close>

theorem insert_toa_roundtrip:
  assumes ops: "pktmbuf ops" and fits: "meta_fits (mb_data m) meta" "ip_is_tcp (mb_data m) 14"
    and ins: "insert_toa ops m meta ip port mtu = (True, m', meta')" and mtu: "mtu \<le> 65521"
  shows "let p = mb_data m; q = mb_data m'; opt = pm_l4_offset meta + 20 in
    q ! opt = TCPOPT_TOA \<and> q ! (opt + 1) = 8 \<and> get16 q (opt + 2) = port \<and> get32 q (opt + 4) = ip \<and>
    sub q (opt + 8) (pm_total_len meta - opt) = sub p opt (pm_total_len meta - opt) \<and>
    tcp_header_len q (pm_l4_offset meta) = tcp_header_len p (pm_l4_offset meta) + 8 \<and>
    ip_total_length q 14 = ip_total_length p 14 + 8 \<and> length q = pm_total_len meta + 8 \<and> meta_fits q meta'"
proof -
  let ?o = "pm_l4_offset meta"
  let ?p = "mb_data m"
  define f where "f = 14 + ip_total_length ?p 14"
  have b: "34 \<le> ?o" "?o + 20 \<le> f" "f \<le> length ?p" "pm_total_len meta = f" "pm_l3_offset meta = 14"
    using fits by (auto simp: meta_fits_def l4_fits_def f_def)
  obtain xs where c: "tcp_header_len ?p ?o + 8 \<le> 60" "ip_total_length ?p 14 + 8 \<le> mtu" "length xs = 8"
    and q: "mb_data m' = toa_edit (take f ?p @ xs) 14 ?o (tcp_header_len ?p ?o) (ip_total_length ?p 14) f port ip"
    and m': "meta' = meta\<lparr>pm_total_len := u16_of (pm_total_len meta + 8), pm_payload_offset := u16_of (pm_payload_offset meta + 8)\<rparr>"
    using pktmbuf.insert_toa_cases [OF ops ins] b unfolding f_def by blast
  have "length (take f ?p @ xs) = f + 8" "ip_total_length ?p 14 + 8 < 65536"
    using b c mtu by simp_all
  note e = toa_edit [OF this(1) b(1,2) c(1) tcp_header_len_dvd this(2) q]
  have "meta_fits (mb_data m') meta'"
    using b c mtu by (intro meta_fits_toa [OF fits _ _ _ _ _ q m']) (simp_all add: f_def)
  moreover have "sub (mb_data m') (?o + 28) (f - (?o + 20)) = sub ?p (?o + 20) (f - (?o + 20))"
    using e(6) b by (simp add: sub_def drop_take)
  ultimately show ?thesis
    using e(1-5,8,9) b by (simp add: Let_def add.commute [of 21] add.commute [of 22]
        add.commute [of 24] add.commute [of 28])
qed

definition demo_mbuf :: mbuf where
  "demo_mbuf = \<lparr>mb_data = demo_frame, mb_contiguous = True, mb_tailroom = 100, mb_ol_flags = 7,
     mb_l2_len = 0, mb_l3_len = 0, mb_l4_len = 0\<rparr>"

lemma demo_mbuf_fits: "meta_fits (mb_data demo_mbuf) demo_meta" "ip_is_tcp (mb_data demo_mbuf) 14"
  using meta_of_parse [OF demo_parse(1) demo_fields(2)] demo_fields by (simp_all add: demo_mbuf_def)

theorem insert_toa_roundtrip_witness:
  "\<exists>m' meta'. insert_toa tail_ops demo_mbuf demo_meta 0x0100000A 0x3930 1500 = (True, m', meta') \<and>
     mb_data m' ! 54 = TCPOPT_TOA"
proof -
  have o: "pm_l4_offset demo_meta = 34" "pm_l3_offset demo_meta = 14"
    using demo_mbuf_fits demo_fields by (simp_all add: meta_fits_def demo_mbuf_def)
  have "fst (insert_toa tail_ops demo_mbuf demo_meta 0x0100000A 0x3930 1500)"
    by (simp add: insert_toa_def Let_def o demo_mbuf_def demo_fields TCPOLEN_TOA_def tail_ops_def tail_append_def tail_trim_def)
  then obtain m' meta' where i: "insert_toa tail_ops demo_mbuf demo_meta 0x0100000A 0x3930 1500 = (True, m', meta')"
    by (metis prod.collapse)
  show ?thesis
    using insert_toa_roundtrip [OF tail.pktmbuf_axioms demo_mbuf_fits i] i o by (simp add: Let_def)
qed

end
