(* ===== verification/Nat_Props.thy ===== *)
theory Nat_Props
  imports Tcp_Options
begin

text \<open>
  Correctness of the packet rewriting of \<^verbatim>\<open>src/forward/nat_forwarder.cpp\<close>: the frame that leaves has the
  addresses and ports asked for, checksums that its receivers accept, and the payload it came with.
\<close>

section \<open>Checksum updates\<close>

lemma put16_put16 [simp]: "put16 (put16 p n v) n w = put16 p n w"
  by (simp add: put16_def list_update_swap [of "Suc n" n])

lemma update_tcp_ip:
  "b + 17 < length p \<Longrightarrow> update_tcp_checksum_ip p b x y =
     put16 p (b + 16) (iu (get16 p (b + 16)) [(hi16 x, hi16 y), (lo16 x, lo16 y)])"
  by (simp add: update_tcp_checksum_ip_def Let_def iu_Cons)

lemma update_tcp_port:
  "update_tcp_checksum_port p b x y = put16 p (b + 16) (iu (get16 p (b + 16)) [(x, y)])"
  by (simp add: update_tcp_checksum_port_def iu_Cons)

definition uz :: "u16 \<Rightarrow> u16" where
  "uz c = (if c = 0 then 0xFFFF else c)"

lemma uz_nonzero [simp]: "uz c \<noteq> 0"
  by (simp add: uz_def)

lemma valid_uz: "valid_sum (r + unat c) \<Longrightarrow> valid_sum (r + unat (uz c))"
  using valid_ffff [of r] by (auto simp: uz_def)

lemma update_udp_ip:
  "b + 7 < length p \<Longrightarrow> get16 p (b + 6) \<noteq> 0 \<Longrightarrow> update_udp_checksum_ip p b x y =
     put16 p (b + 6) (uz (iu (get16 p (b + 6)) [(hi16 x, hi16 y), (lo16 x, lo16 y)]))"
  by (simp add: update_udp_checksum_ip_def Let_def iu_Cons uz_def)

lemma update_udp_port:
  "b + 7 < length p \<Longrightarrow> get16 p (b + 6) \<noteq> 0 \<Longrightarrow> update_udp_checksum_port p b x y =
     put16 p (b + 6) (uz (iu (get16 p (b + 6)) [(x, y)]))"
  by (simp add: update_udp_checksum_port_def Let_def iu_Cons uz_def)

lemma iu_append: "iu (iu c xs) ys = iu c (xs @ ys)"
  by (simp add: iu_def)

text \<open>The pairs of old and new words that a rewrite exchanges.\<close>

definition exchanged :: "ipv4_addr \<Rightarrow> ipv4_addr \<Rightarrow> ipv4_addr \<Rightarrow> ipv4_addr \<Rightarrow> port_be \<Rightarrow> port_be \<Rightarrow> port_be \<Rightarrow> port_be \<Rightarrow> (u16 \<times> u16) list" where
  "exchanged s s' d d' sp sp' dp dp' =
     [(hi16 s, hi16 s'), (lo16 s, lo16 s'), (hi16 d, hi16 d'), (lo16 d, lo16 d'), (sp, sp'), (dp, dp')]"

definition old_sum :: "(u16 \<times> u16) list \<Rightarrow> nat" where "old_sum ms = sum_list (map (unat \<circ> fst) ms)"
definition new_sum :: "(u16 \<times> u16) list \<Rightarrow> nat" where "new_sum ms = sum_list (map (unat \<circ> snd) ms)"

lemma udp_chain_valid:
  assumes "valid_sum (r + old_sum (exchanged s s' d d' sp sp' dp dp') + unat c)" "0 < r"
  shows "valid_sum (r + new_sum (exchanged s s' d d' sp sp' dp dp') +
    unat (uz (iu (uz (iu (uz (iu (uz (iu c [(hi16 s, hi16 s'), (lo16 s, lo16 s')])) [(hi16 d, hi16 d'), (lo16 d, lo16 d')])) [(sp, sp')])) [(dp, dp')])))"
proof -
  define c1 where "c1 = uz (iu c [(hi16 s, hi16 s'), (lo16 s, lo16 s')])"
  define c2 where "c2 = uz (iu c1 [(hi16 d, hi16 d'), (lo16 d, lo16 d')])"
  define c3 where "c3 = uz (iu c2 [(sp, sp')])"
  let ?S = "unat (hi16 s) + unat (lo16 s)" and ?S' = "unat (hi16 s') + unat (lo16 s')"
  let ?D = "unat (hi16 d) + unat (lo16 d)" and ?D' = "unat (hi16 d') + unat (lo16 d')"
  have "valid_sum ((r + ?D + unat sp + unat dp) + ?S' + unat c1)"
    unfolding c1_def using assms valid_iu [of "r + ?D + unat sp + unat dp" "[(hi16 s, hi16 s'), (lo16 s, lo16 s')]" c]
    by (intro valid_uz) (simp add: old_sum_def exchanged_def ac_simps)
  then have "valid_sum ((r + ?S' + unat sp + unat dp) + ?D' + unat c2)"
    unfolding c2_def using assms(2) valid_iu [of "r + ?S' + unat sp + unat dp" "[(hi16 d, hi16 d'), (lo16 d, lo16 d')]" c1]
    by (intro valid_uz) (simp add: ac_simps)
  then have "valid_sum ((r + ?S' + ?D' + unat dp) + unat sp' + unat c3)"
    unfolding c3_def using assms(2) valid_iu [of "r + ?S' + ?D' + unat dp" "[(sp, sp')]" c2]
    by (intro valid_uz) (simp add: ac_simps)
  then have "valid_sum ((r + ?S' + ?D' + unat sp') + unat dp' + unat (uz (iu c3 [(dp, dp')])))"
    using assms(2) valid_iu [of "r + ?S' + ?D' + unat sp'" "[(dp, dp')]" c3]
    by (intro valid_uz) (simp add: ac_simps)
  then show ?thesis
    by (simp add: c1_def c2_def c3_def new_sum_def exchanged_def ac_simps)
qed

lemma l4_three:
  assumes "n + l \<le> length p" "4 \<le> k" "k + 2 \<le> l" "even k"
  obtains r where "nsum (sub p n l) = r + unat (get16 p n) + unat (get16 p (n + 2)) + unat (get16 p (n + k))"
    and "\<And>x y z. nsum (sub (put16 (put16 (put16 p n x) (n + 2) y) (n + k) z) n l) = r + unat x + unat y + unat z"
proof
  define r where "r = nsum (sub (put16 (put16 (put16 p n 0) (n + 2) 0) (n + k) 0) n l)"
  have 1: "nsum (sub (put16 q n x) n l) + unat (get16 q n) = nsum (sub q n l) + unat x"
    and 2: "nsum (sub (put16 q (n + 2) x) n l) + unat (get16 q (n + 2)) = nsum (sub q n l) + unat x"
    and 3: "nsum (sub (put16 q (n + k) x) n l) + unat (get16 q (n + k)) = nsum (sub q n l) + unat x"
    if "length q = length p" for q x
    using assms that nsum_put16 [of n l q 0 x] nsum_put16 [of n l q 2 x] nsum_put16 [of n l q k x] by simp_all
  have e: "nsum (sub (put16 (put16 (put16 p n x) (n + 2) y) (n + k) z) n l) + unat (get16 p n) + unat (get16 p (n + 2)) + unat (get16 p (n + k)) =
      nsum (sub p n l) + unat x + unat y + unat z" for x y z
    using 3 [of "put16 (put16 p n x) (n + 2) y" z] 2 [of "put16 p n x" y] 1 [of p x] assms by simp
  show "nsum (sub p n l) = r + unat (get16 p n) + unat (get16 p (n + 2)) + unat (get16 p (n + k))"
    using e [of 0 0 0] by (simp add: r_def)
  then show "nsum (sub (put16 (put16 (put16 p n x) (n + 2) y) (n + k) z) n l) = r + unat x + unat y + unat z" for x y z
    using e [of x y z] by simp
qed

lemma htons_byte: "htons (ucast (x :: u8)) = 0 \<longleftrightarrow> x = 0"
proof -
  have "htons 0 = 0" by (simp add: bswap16_def le16_def hi8_def lo8_def)
  then have "htons (ucast x) = 0 \<longleftrightarrow> (ucast x :: u16) = 0" by (metis bswap16_invol)
  also have "\<dots> \<longleftrightarrow> x = 0" using unat_up8_16 [of x] by (metis unsigned_eq_0_iff)
  finally show ?thesis .
qed

lemma pseudo_parts:
  "ip_protocol p 14 \<noteq> 0 \<Longrightarrow> \<exists>r > 0. \<forall>q. ip_protocol q 14 = ip_protocol p 14 \<longrightarrow>
     pseudo q 14 n = r + (unat (hi16 (ip_src q 14)) + unat (lo16 (ip_src q 14)) + (unat (hi16 (ip_dst q 14)) + unat (lo16 (ip_dst q 14))))"
  by (rule exI [of _ "unat (htons (ucast (ip_protocol p 14))) + unat (htons (word_of_nat n))"])
     (simp add: pseudo_def unat_pseudo unat_gt_0 htons_byte)

lemma accepts_exchange:
  assumes acc: "l4_accepts p 14 n l" and l: "l \<le> 65535" and proto: "ip_protocol p 14 \<noteq> 0" "ip_protocol q 14 = ip_protocol p 14"
    and r: "nsum (sub p n l) = r + unat sp + unat dp + unat c" "nsum (sub q n l) = r + unat sp' + unat dp' + unat c'"
    and ms: "ms = exchanged (ip_src p 14) (ip_src q 14) (ip_dst p 14) (ip_dst q 14) sp sp' dp dp'"
    and step: "\<And>r. valid_sum (r + old_sum ms + unat c) \<Longrightarrow> 0 < r \<Longrightarrow> valid_sum (r + new_sum ms + unat c')"
  shows "l4_accepts q 14 n l"
proof -
  obtain r0 where r0: "0 < r0" and ps: "\<forall>q. ip_protocol q 14 = ip_protocol p 14 \<longrightarrow>
     pseudo q 14 l = r0 + (unat (hi16 (ip_src q 14)) + unat (lo16 (ip_src q 14)) + (unat (hi16 (ip_dst q 14)) + unat (lo16 (ip_dst q 14))))"
    using pseudo_parts [OF proto(1)] by blast
  have "pseudo p 14 l + nsum (sub p n l) = (r0 + r) + old_sum ms + unat c"
    "pseudo q 14 l + nsum (sub q n l) = (r0 + r) + new_sum ms + unat c'"
    using ps proto(2) r by (simp_all add: ms exchanged_def old_sum_def new_sum_def)
  then show ?thesis
    using acc step [of "r0 + r"] r0 l by (simp add: l4_accepts_iff)
qed

section \<open>The IP header\<close>

lemma ip_checksum_eq: "ip_checksum = ip_update"
  by (simp add: fun_eq_iff ip_checksum_def ip_update_def)

lemma rewrite_ip_effect:
  assumes "20 \<le> ip_header_len p b" "b + ip_header_len p b \<le> length p" "rewrite_ip s d p b = q"
  shows "length q = length p" "ip_header_len q b = ip_header_len p b" "calculate (sub q b (ip_header_len p b)) = 0"
    "ip_src q b = s" "ip_dst q b = d" "ip_ttl q b = ip_ttl p b - 1"
    "i < b + 8 \<or> i = b + 9 \<or> b + 20 \<le> i \<Longrightarrow> q ! i = p ! i"
proof -
  define p1 where "p1 = (put32 (put32 p (b + 12) s) (b + 16) d)[b + 8 := p ! (b + 8) - 1]"
  have q: "ip_update p1 b = q" using assms(3) by (simp add: rewrite_ip_def Let_def p1_def ip_checksum_eq)
  have h: "ip_header_len p1 b = ip_header_len p b" "length p1 = length p" by (simp_all add: p1_def ip_header_len_def)
  have u: "calculate (sub q b (ip_header_len q b)) = 0" "length q = length p1"
      "i \<noteq> b + 10 \<Longrightarrow> i \<noteq> b + 11 \<Longrightarrow> q ! i = p1 ! i" for i
    using ip_update_accepted [OF _ _ q] h assms(1,2) by simp_all
  show "length q = length p" "ip_header_len q b = ip_header_len p b" using u h by (simp_all add: ip_header_len_def)
  then show "calculate (sub q b (ip_header_len p b)) = 0" using u by simp
  have "get32 q (b + 12) = get32 p1 (b + 12)" "get32 q (b + 16) = get32 p1 (b + 16)"
    by (rule get32_cong; rule u; simp)+
  then show "ip_src q b = s" "ip_dst q b = d" using assms(1,2) by (simp_all add: ip_src_def ip_dst_def p1_def)
  show "ip_ttl q b = ip_ttl p b - 1" using u(3) [of "b + 8"] assms(1,2) by (simp add: ip_ttl_def p1_def)
  show "q ! i = p ! i" if "i < b + 8 \<or> i = b + 9 \<or> b + 20 \<le> i"
    using u(3) [of i] that by (auto simp: p1_def)
qed

section \<open>The transport header\<close>

lemma rewrite_tcp_incremental:
  assumes "ip_is_tcp (mb_data m) (pm_l3_offset meta)" "\<not> full" "\<not> hw_offload ops (opt_tx_offloads opt) True"
    and "pm_l4_offset meta + 17 < length (mb_data m)"
  shows "rewrite_l4 ops rw opt m meta s d full =
    (let p = mb_data m; l4 = pm_l4_offset meta in
     m\<lparr>mb_data := put16 (put16 (put16 p l4 (rw_src_port rw)) (l4 + 2) (rw_dst_port rw)) (l4 + 16)
          (iu (get16 p (l4 + 16)) (exchanged s (rw_src_ip rw) d (rw_dst_ip rw) (l4_src_port p l4) (rw_src_port rw)
             (l4_dst_port p l4) (rw_dst_port rw))), mb_ol_flags := 0\<rparr>)"
  using assms
  by (simp add: rewrite_l4_def Let_def update_tcp_ip update_tcp_port iu_append exchanged_def)

lemma rewrite_udp_incremental:
  assumes "ip_is_udp (mb_data m) (pm_l3_offset meta)" "\<not> hw_offload ops (opt_tx_offloads opt) False"
    and "pm_l4_offset meta + 7 < length (mb_data m)" "get16 (mb_data m) (pm_l4_offset meta + 6) \<noteq> 0"
    and "c = get16 (mb_data m) (pm_l4_offset meta + 6)"
    and "sp = l4_src_port (mb_data m) (pm_l4_offset meta)" "dp = l4_dst_port (mb_data m) (pm_l4_offset meta)"
  shows "rewrite_l4 ops rw opt m meta s d full =
    (let p = mb_data m; l4 = pm_l4_offset meta in
     m\<lparr>mb_data := put16 (put16 (put16 p l4 (rw_src_port rw)) (l4 + 2) (rw_dst_port rw)) (l4 + 6)
          (uz (iu (uz (iu (uz (iu (uz (iu c [(hi16 s, hi16 (rw_src_ip rw)), (lo16 s, lo16 (rw_src_ip rw))]))
             [(hi16 d, hi16 (rw_dst_ip rw)), (lo16 d, lo16 (rw_dst_ip rw))])) [(sp, rw_src_port rw)])) [(dp, rw_dst_port rw)])),
       mb_ol_flags := 0\<rparr>)"
  using assms
  by (simp add: rewrite_l4_def Let_def update_udp_ip update_udp_port ip_is_tcp_def ip_is_udp_def)

lemma put16_same [simp]: "put16 p n (get16 p n) = p"
  by (simp add: put16_def get16_def byte_simps)

definition l4_put :: "nat_rewrite_to \<Rightarrow> bytes \<Rightarrow> nat \<Rightarrow> nat \<Rightarrow> u16 \<Rightarrow> bytes" where
  "l4_put rw p l4 k c = put16 (put16 (put16 p l4 (rw_src_port rw)) (l4 + 2) (rw_dst_port rw)) (l4 + k) c"

text \<open>The frame \<open>q\<close> is \<open>p\<close> with a new IP header.\<close>

definition same_l4 :: "bytes \<Rightarrow> bytes \<Rightarrow> bool" where
  "same_l4 p q \<longleftrightarrow> length q = length p \<and> (\<forall>i. i < 22 \<or> i = 23 \<or> 34 \<le> i \<longrightarrow> q ! i = p ! i)"

lemma same_l4_fields:
  assumes "same_l4 p q" "34 \<le> n"
  shows "get16 q n = get16 p n" "ip_protocol q 14 = ip_protocol p 14" "ip_header_len q 14 = ip_header_len p 14"
    "ip_total_length q 14 = ip_total_length p 14" "ip_is_tcp q 14 = ip_is_tcp p 14" "ip_is_udp q 14 = ip_is_udp p 14"
    "n + l \<le> length p \<Longrightarrow> sub q n l = sub p n l"
proof -
  have e: "i < 22 \<or> i = 23 \<or> 34 \<le> i \<Longrightarrow> q ! i = p ! i" for i using assms(1) unfolding same_l4_def by blast
  show "get16 q n = get16 p n" using assms(2) by (intro get16_cong e) simp_all
  show "ip_protocol q 14 = ip_protocol p 14" "ip_header_len q 14 = ip_header_len p 14"
    "ip_is_tcp q 14 = ip_is_tcp p 14" "ip_is_udp q 14 = ip_is_udp p 14"
    using e [of 23] e [of 14] by (simp_all add: field_defs)
  have "get16 q 16 = get16 p 16" by (intro get16_cong e) simp_all
  then show "ip_total_length q 14 = ip_total_length p 14" by (simp add: ip_total_length_def)
  show "n + l \<le> length p \<Longrightarrow> sub q n l = sub p n l"
    using assms by (intro sub_cong e) (simp_all add: same_l4_def)
qed

lemma l4_put_fields:
  assumes "34 \<le> l4"
  shows "ip_src (l4_put rw p l4 k c) 14 = ip_src p 14" "ip_dst (l4_put rw p l4 k c) 14 = ip_dst p 14"
    "ip_protocol (l4_put rw p l4 k c) 14 = ip_protocol p 14" "length (l4_put rw p l4 k c) = length p"
  using assms by (simp_all add: l4_put_def ip_src_def ip_dst_def ip_protocol_def)

lemma l4_put_accepts:
  assumes acc: "l4_accepts p 14 l4 n" and n: "n \<le> 65535" "l4 + n \<le> length p" "4 \<le> k" "k + 2 \<le> n" "even k" "34 \<le> l4"
    and q: "same_l4 p q" "ip_protocol p 14 \<noteq> 0"
    and ms: "ms = exchanged (ip_src p 14) (ip_src q 14) (ip_dst p 14) (ip_dst q 14) (get16 p l4) (rw_src_port rw) (get16 p (l4 + 2)) (rw_dst_port rw)"
    and step: "\<And>r. valid_sum (r + old_sum ms + unat (get16 p (l4 + k))) \<Longrightarrow> 0 < r \<Longrightarrow> valid_sum (r + new_sum ms + unat c')"
  shows "l4_accepts (l4_put rw q l4 k c') 14 l4 n"
proof -
  have len: "l4 + n \<le> length q" using n q(1) by (simp add: same_l4_def)
  obtain r where r: "nsum (sub q l4 n) = r + unat (get16 q l4) + unat (get16 q (l4 + 2)) + unat (get16 q (l4 + k))"
    "\<And>x y z. nsum (sub (put16 (put16 (put16 q l4 x) (l4 + 2) y) (l4 + k) z) l4 n) = r + unat x + unat y + unat z"
    using l4_three [OF len n(3-5)] by blast
  have g: "get16 q l4 = get16 p l4" "get16 q (l4 + 2) = get16 p (l4 + 2)" "get16 q (l4 + k) = get16 p (l4 + k)"
    "ip_protocol q 14 = ip_protocol p 14" "sub q l4 n = sub p l4 n"
    using same_l4_fields [OF q(1)] n by simp_all
  show ?thesis
  proof (rule accepts_exchange [OF acc n(1) q(2), where ms = ms])
    show "nsum (sub p l4 n) = r + unat (get16 p l4) + unat (get16 p (l4 + 2)) + unat (get16 p (l4 + k))"
      using r(1) g by simp
    show "nsum (sub (l4_put rw q l4 k c') l4 n) = r + unat (rw_src_port rw) + unat (rw_dst_port rw) + unat c'"
      unfolding l4_put_def by (rule r(2))
  qed (use step ms n g in \<open>simp_all add: l4_put_fields\<close>)
qed

lemma rewrite_tcp:
  assumes "ip_is_tcp p 14" "same_l4 p (mb_data m)" "pm_l3_offset meta = 14" "pm_l4_offset meta = l4"
    and n: "n = ip_total_length p 14 - ip_header_len p 14" "20 \<le> n" "l4 + n \<le> length p" "34 \<le> l4"
    and sw: "\<not> hw_offload ops (opt_tx_offloads opt) True"
    and ip: "ip_src (mb_data m) 14 = rw_src_ip rw" "ip_dst (mb_data m) 14 = rw_dst_ip rw"
    and m': "m' = rewrite_l4 ops rw opt m meta (ip_src p 14) (ip_dst p 14) full"
  shows "\<exists>c. mb_data m' = l4_put rw (mb_data m) l4 16 c \<and> mb_ol_flags m' = 0 \<and>
    (full \<or> l4_accepts p 14 l4 n \<longrightarrow> l4_accepts (mb_data m') 14 l4 n)"
proof -
  let ?q = "mb_data m"
  note f = same_l4_fields [OF assms(2)]
  have len: "length ?q = length p" using assms(2) by (simp add: same_l4_def)
  have n65: "n \<le> 65535" using n(1) unat_u16 [of "ntohs (get16 p 16)"] by (simp add: ip_total_length_def del: unat_u16)
  show ?thesis
  proof (cases full)
    case True
    define x where "x = put16 (put16 ?q l4 (rw_src_port rw)) (l4 + 2) (rw_dst_port rw)"
    have h: "ip_is_tcp x 14" "ip_total_length x 14 - ip_header_len x 14 = n"
      using assms(1) n f by (simp_all add: x_def field_defs)
    have d: "mb_data m' = recalculate_tcp_checksum x 14 l4 n" "mb_ol_flags m' = 0"
      using True assms(1,3,4) sw f(5) [of 34] h m'
      by (simp_all add: rewrite_l4_def Let_def l4_checksum_full_def x_def)
    have "l4_accepts (mb_data m') 14 l4 n"
      unfolding d(1) using n n65 len by (intro recalculate_tcp_accepted) (simp_all add: x_def)
    moreover have "\<exists>c. mb_data m' = l4_put rw ?q l4 16 c"
      unfolding d(1) recalculate_tcp_checksum_def Let_def put16_put16 l4_put_def x_def by blast
    ultimately show ?thesis using d(2) by blast
  next
    case False
    define ms where "ms = exchanged (ip_src p 14) (ip_src ?q 14) (ip_dst p 14) (ip_dst ?q 14) (get16 p l4) (rw_src_port rw) (get16 p (l4 + 2)) (rw_dst_port rw)"
    have d: "mb_data m' = l4_put rw ?q l4 16 (iu (get16 p (l4 + 16)) ms)" "mb_ol_flags m' = 0"
      using rewrite_tcp_incremental [of m meta full ops opt rw "ip_src p 14" "ip_dst p 14"] assms(1,3,4) False sw n len f
      by (simp_all add: m' Let_def l4_put_def ms_def ip l4_src_port_def l4_dst_port_def)
    have "l4_accepts p 14 l4 n \<Longrightarrow> l4_accepts (mb_data m') 14 l4 n"
      unfolding d(1) using n n65 assms(1,2) valid_iu
      by (intro l4_put_accepts [where ms = ms]) (simp_all add: ms_def ip_is_tcp_def old_sum_def new_sum_def)
    then show ?thesis using d False by blast
  qed
qed

lemma rewrite_udp:
  assumes "ip_is_udp p 14" "same_l4 p (mb_data m)" "pm_l3_offset meta = 14" "pm_l4_offset meta = l4"
    and n: "n \<le> 65535" "8 \<le> n" "l4 + n \<le> length p" "34 \<le> l4"
    and sw: "\<not> hw_offload ops (opt_tx_offloads opt) False"
    and ip: "ip_src (mb_data m) 14 = rw_src_ip rw" "ip_dst (mb_data m) 14 = rw_dst_ip rw"
    and m': "m' = rewrite_l4 ops rw opt m meta (ip_src p 14) (ip_dst p 14) full"
  shows "\<exists>c. mb_data m' = l4_put rw (mb_data m) l4 6 c \<and> mb_ol_flags m' = 0 \<and> (c = 0 \<longleftrightarrow> get16 p (l4 + 6) = 0) \<and>
    (l4_accepts p 14 l4 n \<and> c \<noteq> 0 \<longrightarrow> l4_accepts (mb_data m') 14 l4 n)"
proof -
  let ?q = "mb_data m"
  note f = same_l4_fields [OF assms(2)]
  have len: "length ?q = length p" using assms(2) by (simp add: same_l4_def)
  have u: "\<not> ip_is_tcp ?q 14" "ip_is_udp ?q 14" using assms(1) f(6) [of 34] by (simp_all add: ip_is_tcp_def ip_is_udp_def)
  have g: "get16 ?q (l4 + 6) = get16 p (l4 + 6)" using f(1) [of "l4 + 6"] n(4) by simp
  show ?thesis
  proof (cases "get16 p (l4 + 6) = 0")
    case True
    have "get16 (put16 (put16 ?q l4 (rw_src_port rw)) (l4 + 2) (rw_dst_port rw)) (l4 + 6) = 0"
      using True g by simp
    then have "put16 (put16 ?q l4 (rw_src_port rw)) (l4 + 2) (rw_dst_port rw) = l4_put rw ?q l4 6 0"
      using put16_same [of "put16 (put16 ?q l4 (rw_src_port rw)) (l4 + 2) (rw_dst_port rw)" "l4 + 6"] by (simp add: l4_put_def)
    moreover have "m' = m\<lparr>mb_data := put16 (put16 ?q l4 (rw_src_port rw)) (l4 + 2) (rw_dst_port rw), mb_ol_flags := 0\<rparr>"
      using u sw g True unfolding m' rewrite_l4_def Let_def assms(3,4) by simp
    ultimately have "mb_data m' = l4_put rw ?q l4 6 0 \<and> mb_ol_flags m' = 0" by simp
    then show ?thesis using True by blast
  next
    case False
    let ?s = "ip_src p 14" and ?d = "ip_dst p 14"
    define c where "c = uz (iu (uz (iu (uz (iu (uz (iu (get16 p (l4 + 6)) [(hi16 ?s, hi16 (rw_src_ip rw)), (lo16 ?s, lo16 (rw_src_ip rw))]))
             [(hi16 ?d, hi16 (rw_dst_ip rw)), (lo16 ?d, lo16 (rw_dst_ip rw))])) [(get16 p l4, rw_src_port rw)])) [(get16 p (l4 + 2), rw_dst_port rw)])"
    define ms where "ms = exchanged ?s (ip_src ?q 14) ?d (ip_dst ?q 14) (get16 p l4) (rw_src_port rw) (get16 p (l4 + 2)) (rw_dst_port rw)"
    note e = rewrite_udp_incremental [of m meta ops opt "get16 p (l4 + 6)" "get16 p l4" "get16 p (l4 + 2)" rw ?s ?d full,
        unfolded Let_def assms(3,4)]
    have pt: "get16 p l4 = l4_src_port ?q l4" "get16 p (l4 + 2) = l4_dst_port ?q l4"
      using f(1) [of l4] f(1) [of "l4 + 2"] n(4) by (simp_all add: l4_src_port_def l4_dst_port_def)
    have "l4 + 7 < length ?q" "get16 ?q (l4 + 6) \<noteq> 0" using n len g False by simp_all
    note e [OF u(2) sw this g [symmetric] pt]
    then have "m' = m\<lparr>mb_data := l4_put rw ?q l4 6 c, mb_ol_flags := 0\<rparr>"
      unfolding m' c_def l4_put_def .
    then have d: "mb_data m' = l4_put rw ?q l4 6 c" "mb_ol_flags m' = 0" by simp_all
    have step: "valid_sum (r + new_sum ms + unat c)" if "valid_sum (r + old_sum ms + unat (get16 p (l4 + 6)))" "0 < r" for r
      using udp_chain_valid that unfolding ms_def ip c_def by blast
    have "l4_accepts p 14 l4 n \<Longrightarrow> l4_accepts (mb_data m') 14 l4 n"
      unfolding d(1) using n assms(1,2) step
      by (intro l4_put_accepts [where ms = ms]) (simp_all add: ms_def ip_is_udp_def)
    moreover have "c \<noteq> 0" by (simp add: c_def)
    ultimately show ?thesis using d False by blast
  qed
qed

section \<open>The whole rewrite\<close>

text \<open>What the option edits keep of an IPv4 packet: everything before the options but the two
  lengths, and the payload.\<close>

definition keeps :: "bytes \<Rightarrow> packet_meta \<Rightarrow> bytes \<Rightarrow> packet_meta \<Rightarrow> bool" where
  "keeps p meta q meta' \<longleftrightarrow>
     meta_fits q meta' \<and> pm_l4_offset meta' = pm_l4_offset meta \<and> pm_payload_len meta' = pm_payload_len meta \<and>
     (\<forall>i < pm_l4_offset meta + 4. i < pm_total_len meta \<and> i \<noteq> 16 \<and> i \<noteq> 17 \<longrightarrow> q ! i = p ! i) \<and>
     sub q (pm_payload_offset meta') (pm_payload_len meta) = sub p (pm_payload_offset meta) (pm_payload_len meta)"

lemma keeps_same:
  assumes "meta_fits p meta" "pm_total_len meta \<le> length q" "\<forall>i < pm_total_len meta. q ! i = p ! i"
  shows "keeps p meta q meta"
proof -
  have "meta_fits q meta" using assms(3) by (intro meta_fits_cong [OF assms(1,2)]) blast
  moreover have "pm_payload_offset meta + pm_payload_len meta \<le> pm_total_len meta" "pm_total_len meta \<le> length p"
    using assms(1) by (simp_all add: meta_fits_def)
  then have "sub q (pm_payload_offset meta) (pm_payload_len meta) = sub p (pm_payload_offset meta) (pm_payload_len meta)"
    using assms(2,3) by (intro nth_equalityI) simp_all
  ultimately show ?thesis using assms(3) by (simp add: keeps_def)
qed

lemma strip_loop_unchanged:
  "stop \<le> length p \<Longrightarrow> \<not> snd (strip_loop p opt stop ch) \<Longrightarrow> fst (strip_loop p opt stop ch) = p"
proof (induction p opt ch rule: strip_induct)
  case (bad p opt ch)
  then have "strip_loop p opt stop ch = (p, ch)" using strip_end strip_bad by blast
  then show ?case by simp
next
  case (nop p opt ch)
  then show ?case by (simp add: strip_nop)
next
  case (other p opt ch)
  then show ?case by (simp add: strip_other)
next
  case (ts p opt ch)
  let ?p = "put_bytes p opt (replicate (unat (p ! (opt + 1))) TCPOPT_NOP)"
  have "snd (strip_loop ?p (opt + 1) stop True)"
    using strip_loop_options [of stop ?p "opt + 1" True] ts(1) by simp
  then show ?case using ts(5) strip_ts [OF ts(2,3,1)] by simp
qed

lemma strip_keeps:
  assumes fits: "meta_fits p meta" "ip_is_tcp p 14" and q: "strip_timestamp p (pm_l4_offset meta) = (q, ch)"
  shows "keeps p meta q meta" "length q = length p" "\<not> ch \<Longrightarrow> q = p" "ip_is_tcp q 14"
proof -
  let ?o = "pm_l4_offset meta"
  have b: "?o + tcp_header_len p ?o \<le> length p" "pm_payload_offset meta = ?o + tcp_header_len p ?o" "34 \<le> ?o"
      "pm_payload_offset meta + pm_payload_len meta \<le> length p" "pm_total_len meta \<le> length p" "20 \<le> tcp_header_len p ?o"
    using fits by (auto simp: meta_fits_def l4_fits_def)
  note fr = strip_timestamp_frame [OF q b(1)]
  show len: "length q = length p" by (rule fr(1))
  have "meta_fits q meta" using fr b by (intro meta_fits_cong [OF fits(1)]) simp_all
  moreover have "sub q (pm_payload_offset meta) (pm_payload_len meta) = sub p (pm_payload_offset meta) (pm_payload_len meta)"
    using len b by (intro sub_cong fr(2)) simp_all
  ultimately show "keeps p meta q meta" using fr(2) by (simp add: keeps_def)
  show "ip_is_tcp q 14" using fits(2) fr(2) [of 23] b by (simp add: ip_is_tcp_def ip_protocol_def)
  show "\<not> ch \<Longrightarrow> q = p"
    using strip_loop_unchanged [OF b(1), of "?o + 20" False] q by (simp add: strip_timestamp_def)
qed

lemma toa_keeps:
  assumes ops: "pktmbuf ops" and fits: "meta_fits (mb_data m) meta" "ip_is_tcp (mb_data m) 14"
    and mtu: "mtu \<le> 65521" and ins: "insert_toa ops m meta ip port mtu = (r, m', meta')"
  shows "keeps (mb_data m) meta (mb_data m') meta' \<and>
    (\<not> r \<longrightarrow> meta' = meta \<and> (\<forall>i < pm_total_len meta. mb_data m' ! i = mb_data m ! i))"
proof -
  let ?o = "pm_l4_offset meta"
  let ?p = "mb_data m"
  define f where "f = 14 + ip_total_length ?p 14"
  have b: "34 \<le> ?o" "?o + 20 \<le> f" "f \<le> length ?p" "pm_total_len meta = f" "pm_l3_offset meta = 14"
      "pm_payload_offset meta + pm_payload_len meta = f" "?o + 20 \<le> pm_payload_offset meta"
    using fits by (auto simp: meta_fits_def l4_fits_def f_def)
  consider (no) "\<not> r" "meta' = meta" "mb_data m' \<in> {?p, take f ?p}"
    | (yes) xs where "r" "tcp_header_len ?p ?o + 8 \<le> 60" "ip_total_length ?p 14 + 8 \<le> mtu" "length xs = 8"
        "mb_data m' = toa_edit (take f ?p @ xs) 14 ?o (tcp_header_len ?p ?o) (ip_total_length ?p 14) f port ip"
        "meta' = meta\<lparr>pm_total_len := u16_of (pm_total_len meta + 8), pm_payload_offset := u16_of (pm_payload_offset meta + 8)\<rparr>"
    using pktmbuf.insert_toa_cases [OF ops ins] b unfolding f_def by blast
  then show ?thesis
  proof cases
    case no
    then have "\<forall>i < pm_total_len meta. mb_data m' ! i = ?p ! i" "pm_total_len meta \<le> length (mb_data m')"
      using b by auto
    then show ?thesis using no keeps_same [OF fits(1)] by blast
  next
    case yes
    let ?q = "mb_data m'"
    have l: "length (take f ?p @ xs) = f + 8" "ip_total_length ?p 14 + 8 < 65536" using b yes mtu by simp_all
    note e = toa_edit [OF l(1) b(1,2) yes(2) tcp_header_len_dvd l(2) yes(5)]
    have fit: "meta_fits ?q meta'"
      using b yes mtu by (intro meta_fits_toa [OF fits _ _ _ _ _ yes(5,6)]) (simp_all add: f_def)
    have tail: "?q ! (j + 8) = ?p ! j" if "?o + 20 \<le> j" "j < f" for j
    proof -
      have "sub ?q (?o + 28) (f - (?o + 20)) ! (j - (?o + 20)) = sub (take f ?p @ xs) (?o + 20) (f - (?o + 20)) ! (j - (?o + 20))"
        using e(6) by simp
      then show ?thesis using that e(1) l(1) b by (simp add: nth_append add.commute [of 8])
    qed
    have "sub ?q (pm_payload_offset meta + 8) (pm_payload_len meta) = sub ?p (pm_payload_offset meta) (pm_payload_len meta)"
    proof (rule nth_equalityI)
      show "length (sub ?q (pm_payload_offset meta + 8) (pm_payload_len meta)) = length (sub ?p (pm_payload_offset meta) (pm_payload_len meta))"
        using e(1) b by simp
      show "sub ?q (pm_payload_offset meta + 8) (pm_payload_len meta) ! i = sub ?p (pm_payload_offset meta) (pm_payload_len meta) ! i"
        if "i < length (sub ?q (pm_payload_offset meta + 8) (pm_payload_len meta))" for i
        using that e(1) b tail [of "pm_payload_offset meta + i"] by (simp add: ac_simps)
    qed
    moreover have "?q ! i = ?p ! i" if "i < ?o + 4" "i \<noteq> 16" "i \<noteq> 17" for i
      using e(7) [of i] that b by (simp add: nth_append)
    moreover have "pm_payload_offset meta' = pm_payload_offset meta + 8"
      using b yes mtu by (simp add: f_def)
    ultimately show ?thesis using fit yes(1,6) by (simp add: keeps_def)
  qed
qed

lemma rewrite_options_keeps:
  assumes ops: "pktmbuf ops" and fits: "meta_fits (mb_data m) meta" and mtu: "opt_mtu opt \<le> 65521"
    and o: "rewrite_options ops opt m meta out = (m', meta', out', full)"
  shows "keeps (mb_data m) meta (mb_data m') meta' \<and>
    (\<not> full \<longrightarrow> meta' = meta \<and> (\<forall>i < pm_total_len meta. mb_data m' ! i = mb_data m ! i))"
proof (cases "ip_is_tcp (mb_data m) 14")
  case False
  then have "m' = m" "meta' = meta" "\<not> full" using o fits by (auto simp: rewrite_options_def meta_fits_def)
  then show ?thesis using keeps_same [OF fits, of "mb_data m"] fits by (simp add: meta_fits_def)
next
  case True
  let ?o = "pm_l4_offset meta"
  have l3: "pm_l3_offset meta = 14" using fits by (simp add: meta_fits_def)
  obtain p ch where p: "(if opt_strip_ts opt \<and> has_flag (tcp_flags (mb_data m) ?o) TCP_SYN
      then strip_timestamp (mb_data m) ?o else (mb_data m, False)) = (p, ch)"
    by (meson surj_pair)
  have k: "keeps (mb_data m) meta p meta" "\<not> ch \<Longrightarrow> p = mb_data m" "ip_is_tcp p 14"
    using strip_keeps [OF fits True, of p ch] keeps_same [OF fits, of "mb_data m"] fits True p
    by (auto simp: meta_fits_def split: if_splits)
  define m1 where "m1 = m\<lparr>mb_data := p\<rparr>"
  have fits1: "meta_fits (mb_data m1) meta" "ip_is_tcp (mb_data m1) 14" using k by (simp_all add: m1_def keeps_def)
  show ?thesis
  proof (cases "opt_add_toa opt")
    case no: False
    then have "m' = m1" "meta' = meta" "full = ch"
      using o p True by (auto simp: rewrite_options_def l3 Let_def m1_def)
    then show ?thesis using k by (simp add: m1_def)
  next
    case toa: True
    obtain r m2 meta2 where i: "insert_toa ops m1 meta (opt_toa_ip opt) (opt_toa_port opt) (opt_mtu opt) = (r, m2, meta2)"
      by (metis prod_cases3)
    have e: "m' = m2" "meta' = meta2" "full = (r \<or> ch)"
      using o p True toa i by (cases r; auto simp: rewrite_options_def l3 Let_def m1_def)+
    note t = toa_keeps [OF ops fits1 mtu i]
    have "keeps (mb_data m) meta (mb_data m2) meta2"
      using t k(1) by (auto simp: keeps_def m1_def)
    then show ?thesis using t k(2) by (auto simp: e m1_def)
  qed
qed

section \<open>The frame that leaves\<close>

definition l4_good :: "bytes \<Rightarrow> bool" where
  "l4_good p \<longleftrightarrow>
     (let l4 = 14 + ip_header_len p 14 in
      if ip_is_tcp p 14 then l4_accepts p 14 l4 (ip_total_length p 14 - ip_header_len p 14)
      else if ip_is_udp p 14 then get16 p (l4 + 6) = 0 \<or> l4_accepts p 14 l4 (udp_length p l4) else True)"

definition translated :: "nat_rewrite_to \<Rightarrow> bytes \<Rightarrow> packet_meta \<Rightarrow> bytes \<Rightarrow> packet_meta \<Rightarrow> bool" where
  "translated rw p meta q meta' \<longleftrightarrow>
     eth_src_mac q = rw_src_mac rw \<and> eth_dst_mac q = rw_dst_mac rw \<and> is_ipv4 q \<and>
     ip_src q 14 = rw_src_ip rw \<and> ip_dst q 14 = rw_dst_ip rw \<and> ip_ttl q 14 = ip_ttl p 14 - 1 \<and>
     ip_protocol q 14 = ip_protocol p 14 \<and> calculate (sub q 14 (ip_header_len q 14)) = 0 \<and>
     l4_src_port q (pm_l4_offset meta) = rw_src_port rw \<and> l4_dst_port q (pm_l4_offset meta) = rw_dst_port rw \<and>
     pm_payload_len meta' = pm_payload_len meta \<and>
     sub q (pm_payload_offset meta') (pm_payload_len meta') = sub p (pm_payload_offset meta) (pm_payload_len meta)"

lemma mac_keeps:
  assumes "length sm = 6" "length dm = 6" "y = set_src_mac sm (set_dst_mac dm x)"
  shows "length y = length x" "12 \<le> i \<Longrightarrow> y ! i = x ! i" "12 \<le> n \<Longrightarrow> get16 y n = get16 x n" "12 \<le> n \<Longrightarrow> get32 y n = get32 x n"
    "12 \<le> n \<Longrightarrow> sub y n l = sub x n l"
    "14 \<le> length x \<Longrightarrow> eth_src_mac y = sm" "14 \<le> length x \<Longrightarrow> eth_dst_mac y = dm"
proof -
  show "length y = length x" "12 \<le> i \<Longrightarrow> y ! i = x ! i" "12 \<le> n \<Longrightarrow> get16 y n = get16 x n" "12 \<le> n \<Longrightarrow> get32 y n = get32 x n"
    using assms by (simp_all add: set_src_mac_def set_dst_mac_def)
  show "14 \<le> length x \<Longrightarrow> eth_src_mac y = sm" "14 \<le> length x \<Longrightarrow> eth_dst_mac y = dm"
    using assms by (simp_all add: set_src_mac_def set_dst_mac_def eth_src_mac_def eth_dst_mac_def)
  show "12 \<le> n \<Longrightarrow> sub y n l = sub x n l"
    using assms by (intro nth_equalityI) (auto simp: sub_def set_src_mac_def set_dst_mac_def)
qed

lemma finished:
  assumes fits: "meta_fits p1 meta" and q: "rewrite_ip (rw_src_ip rw) (rw_dst_ip rw) p1 14 = q"
    and k: "4 \<le> k" "pm_l4_offset meta + k + 2 \<le> pm_payload_offset meta"
    and macs: "length (rw_src_mac rw) = 6" "length (rw_dst_mac rw) = 6"
    and y: "y = set_src_mac (rw_src_mac rw) (set_dst_mac (rw_dst_mac rw) (l4_put rw q (pm_l4_offset meta) k c))"
  shows "translated rw p1 meta y meta" "ip_total_length y 14 = ip_total_length p1 14" "ip_header_len y 14 = ip_header_len p1 14"
    "get16 y (pm_l4_offset meta + k) = c"
    "34 \<le> n \<Longrightarrow> n \<noteq> pm_l4_offset meta \<Longrightarrow> n + 1 \<noteq> pm_l4_offset meta \<Longrightarrow> n \<noteq> pm_l4_offset meta + 1 \<Longrightarrow> n \<noteq> pm_l4_offset meta + 2 \<Longrightarrow>
       n \<noteq> pm_l4_offset meta + 3 \<Longrightarrow> n + 1 < pm_l4_offset meta + k \<Longrightarrow> get16 y n = get16 p1 n"
    "l4_accepts y 14 (pm_l4_offset meta) n = l4_accepts (l4_put rw q (pm_l4_offset meta) k c) 14 (pm_l4_offset meta) n"
proof -
  let ?o = "pm_l4_offset meta"
  let ?x = "l4_put rw q ?o k c"
  have b: "34 \<le> ?o" "?o = 14 + ip_header_len p1 14" "20 \<le> ip_header_len p1 14" "?o + k + 2 \<le> length p1"
      "pm_payload_offset meta + pm_payload_len meta \<le> length p1" "is_ipv4 p1"
    using fits k by (auto simp: meta_fits_def)
  have re: "length q = length p1" "ip_header_len q 14 = ip_header_len p1 14" "calculate (sub q 14 (ip_header_len p1 14)) = 0"
      "ip_src q 14 = rw_src_ip rw" "ip_dst q 14 = rw_dst_ip rw" "ip_ttl q 14 = ip_ttl p1 14 - 1"
    and qi: "i < 22 \<or> i = 23 \<or> 34 \<le> i \<Longrightarrow> q ! i = p1 ! i" for i
    using rewrite_ip_effect [OF _ _ q] b by auto
  have x: "?x ! i = q ! i" if "i < ?o \<or> ?o + 4 \<le> i \<and> (i < ?o + k \<or> ?o + k + 2 \<le> i)" for i
    using that k(1) by (auto simp: l4_put_def)
  have xl: "length ?x = length p1" using re(1) by (simp add: l4_put_def)
  note mk = mac_keeps [OF macs y]
  have yi: "y ! i = p1 ! i" if "12 \<le> i" "i < 22 \<or> i = 23 \<or> 34 \<le> i" "i < ?o \<or> ?o + 4 \<le> i \<and> (i < ?o + k \<or> ?o + k + 2 \<le> i)" for i
    using that mk(2) [of i] x [of i] qi [of i] by simp
  have hdr: "y ! 14 = p1 ! 14" "y ! 23 = p1 ! 23" "y ! 12 = p1 ! 12" "y ! 13 = p1 ! 13"
    using b by (auto intro!: yi)
  have "get16 y 16 = get16 p1 16" using b by (intro get16_cong yi) auto
  then show "ip_total_length y 14 = ip_total_length p1 14" by (simp add: ip_total_length_def)
  show h: "ip_header_len y 14 = ip_header_len p1 14" using hdr by (simp add: ip_header_len_def)
  have ips: "ip_src y 14 = rw_src_ip rw" "ip_dst y 14 = rw_dst_ip rw"
    using mk(4) [of 26] mk(4) [of 30] l4_put_fields(1,2) [OF b(1), of rw q k c] re(4,5) by (simp_all add: ip_src_def ip_dst_def)
  have ttl: "ip_ttl y 14 = ip_ttl p1 14 - 1" using mk(2) [of 22] x [of 22] b re(6) by (simp add: ip_ttl_def)
  have "sub y 14 (ip_header_len p1 14) = sub ?x 14 (ip_header_len p1 14)" by (rule mk(5)) simp
  also have "\<dots> = sub q 14 (ip_header_len p1 14)" using b xl re(1) by (intro sub_cong x) auto
  finally have ck: "calculate (sub y 14 (ip_header_len y 14)) = 0" using re(3) h by simp
  have ports: "get16 y ?o = rw_src_port rw" "get16 y (?o + 2) = rw_dst_port rw"
    using mk(3) [of ?o] mk(3) [of "?o + 2"] b k re(1) by (simp_all add: l4_put_def)
  have pay: "sub y (pm_payload_offset meta) (pm_payload_len meta) = sub p1 (pm_payload_offset meta) (pm_payload_len meta)"
    using b k mk(1) xl by (intro sub_cong yi) auto
  show "translated rw p1 meta y meta"
    unfolding translated_def using mk(6,7) xl b hdr ips ttl ck ports pay is_ipv4_cong [of y p1]
    by (simp add: l4_src_port_def l4_dst_port_def ip_protocol_def)
  show "get16 y (?o + k) = c" using mk(3) [of "?o + k"] b re(1) by (simp add: l4_put_def)
  show "34 \<le> n \<Longrightarrow> n \<noteq> ?o \<Longrightarrow> n + 1 \<noteq> ?o \<Longrightarrow> n \<noteq> ?o + 1 \<Longrightarrow> n \<noteq> ?o + 2 \<Longrightarrow> n \<noteq> ?o + 3 \<Longrightarrow> n + 1 < ?o + k \<Longrightarrow> get16 y n = get16 p1 n"
    by (intro get16_cong yi) auto
  have "pseudo y 14 n = pseudo ?x 14 n" "sub y ?o n = sub ?x ?o n"
    using mk(2) [of 23] mk(4) [of 26] mk(4) [of 30] mk(5) [of ?o n] b by (simp_all add: pseudo_def ip_src_def ip_dst_def ip_protocol_def)
  then show "l4_accepts y 14 ?o n = l4_accepts ?x 14 ?o n"
    using mk(2) [of 23] mk(4) [of 26] mk(4) [of 30] by (simp add: l4_accepts_def l4_sum_def ip_src_def ip_dst_def ip_protocol_def)
qed

lemma accepts_cong:
  assumes "\<forall>i < t. q ! i = p ! i" "t \<le> length p" "t \<le> length q" "34 \<le> l4" "l4 + n \<le> t"
  shows "l4_accepts q 14 l4 n = l4_accepts p 14 l4 n"
proof -
  have e: "q ! i = p ! i" if "i < t" for i using assms(1) that by blast
  have "sub q l4 n = sub p l4 n" using assms by (intro nth_equalityI) auto
  moreover have "get32 q 26 = get32 p 26" "get32 q 30 = get32 p 30" "q ! 23 = p ! 23"
    using assms(4,5) by (auto intro!: get32_cong e)
  ultimately show ?thesis by (simp add: l4_accepts_def l4_sum_def ip_src_def ip_dst_def ip_protocol_def)
qed

text \<open>Rewriting from the IP header on, in software: the checksum of the transport header stays good,
  and is made good when it is computed in full.\<close>

lemma rewrite_software:
  assumes fits: "meta_fits p meta" and tu: "ip_is_tcp p 14 \<or> ip_is_udp p 14"
    and sw: "\<not> hw_offload ops (opt_tx_offloads opt) (ip_is_tcp p 14)"
    and macs: "length (rw_src_mac rw) = 6" "length (rw_dst_mac rw) = 6"
    and full: "full \<longrightarrow> ip_is_tcp p 14"
    and m': "m' = rewrite_mac (rw_src_mac rw) (rw_dst_mac rw)
      (rewrite_l4 ops rw opt (m\<lparr>mb_data := rewrite_ip (rw_src_ip rw) (rw_dst_ip rw) p 14\<rparr>) meta (ip_src p 14) (ip_dst p 14) full)"
  shows "translated rw p meta (mb_data m') meta \<and> mb_ol_flags m' = 0 \<and> (full \<or> l4_good p \<longrightarrow> l4_good (mb_data m')) \<and>
    (ip_is_udp p 14 \<longrightarrow> get16 (mb_data m') (pm_l4_offset meta + 6) = 0 \<longleftrightarrow> get16 p (pm_l4_offset meta + 6) = 0)"
proof -
  let ?o = "pm_l4_offset meta"
  define q where "q = rewrite_ip (rw_src_ip rw) (rw_dst_ip rw) p 14"
  define m2 where "m2 = rewrite_l4 ops rw opt (m\<lparr>mb_data := q\<rparr>) meta (ip_src p 14) (ip_dst p 14) full"
  have b: "34 \<le> ?o" "?o = 14 + ip_header_len p 14" "20 \<le> ip_header_len p 14" "?o \<le> length p" "pm_total_len meta \<le> length p"
      "pm_total_len meta = 14 + ip_total_length p 14" "pm_l3_offset meta = 14" "pm_payload_offset meta \<le> pm_total_len meta"
    using fits by (auto simp: meta_fits_def)
  note re = rewrite_ip_effect [OF b(3) b(4) [unfolded b(2)] q_def [symmetric]]
  have same: "same_l4 p q" using re(1,7) by (simp add: same_l4_def)
  have q': "mb_data (m\<lparr>mb_data := q\<rparr>) = q" by simp
  have same': "same_l4 p (mb_data (m\<lparr>mb_data := q\<rparr>))"
    and ip': "ip_src (mb_data (m\<lparr>mb_data := q\<rparr>)) 14 = rw_src_ip rw" "ip_dst (mb_data (m\<lparr>mb_data := q\<rparr>)) 14 = rw_dst_ip rw"
    using same re(4,5) by (simp_all only: q')
  have y: "mb_data m' = set_src_mac (rw_src_mac rw) (set_dst_mac (rw_dst_mac rw) (mb_data m2))" "mb_ol_flags m' = mb_ol_flags m2"
    by (simp_all add: m' m2_def q_def rewrite_mac_def)
  show ?thesis
  proof (cases "ip_is_tcp p 14")
    case True
    have sw': "\<not> hw_offload ops (opt_tx_offloads opt) True" using sw True by simp
    define n where "n = ip_total_length p 14 - ip_header_len p 14"
    have k: "?o + 16 + 2 \<le> pm_payload_offset meta" "20 \<le> n" "?o + n \<le> length p"
      using fits True b by (auto simp: meta_fits_def l4_fits_def n_def)
    obtain c where c: "mb_data m2 = l4_put rw q ?o 16 c" "mb_ol_flags m2 = 0"
        "full \<or> l4_accepts p 14 ?o n \<longrightarrow> l4_accepts (mb_data m2) 14 ?o n"
      using rewrite_tcp [OF True same' b(7) refl n_def k(2,3) b(1) sw' ip' m2_def, unfolded q'] by blast
    note fin = finished [OF fits q_def [symmetric] _ k(1) macs y(1) [unfolded c(1)]]
    have "ip_is_tcp (mb_data m') 14" "\<not> ip_is_udp p 14"
      using fin(1) True by (auto simp: translated_def ip_is_tcp_def ip_is_udp_def)
    then show ?thesis
      using fin(1-3) fin(6) [of n] c y(2) True b(2) by (simp add: l4_good_def Let_def n_def)
  next
    case False
    then have udp: "ip_is_udp p 14" using tu by blast
    have sw': "\<not> hw_offload ops (opt_tx_offloads opt) False" using sw False by simp
    define n where "n = udp_length p ?o"
    have k: "?o + 6 + 2 \<le> pm_payload_offset meta" "8 \<le> n" "?o + n \<le> length p"
      using fits udp b by (auto simp: meta_fits_def l4_fits_def n_def)
    have n65: "n \<le> 65535" using unat_u16 [of "ntohs (get16 p (?o + 4))"] by (simp add: n_def udp_length_def del: unat_u16)
    obtain c where c: "mb_data m2 = l4_put rw q ?o 6 c" "mb_ol_flags m2 = 0" "c = 0 \<longleftrightarrow> get16 p (?o + 6) = 0"
        "l4_accepts p 14 ?o n \<and> c \<noteq> 0 \<longrightarrow> l4_accepts (mb_data m2) 14 ?o n"
      using rewrite_udp [OF udp same' b(7) refl n65 k(2,3) b(1) sw' ip' m2_def, unfolded q'] by blast
    note fin = finished [OF fits q_def [symmetric] _ k(1) macs y(1) [unfolded c(1)]]
    have "ip_is_udp (mb_data m') 14" "\<not> ip_is_tcp (mb_data m') 14"
      using fin(1) udp by (auto simp: translated_def ip_is_tcp_def ip_is_udp_def)
    moreover have "udp_length (mb_data m') ?o = n" using fin(5) [of "?o + 4"] b(1) by (simp add: udp_length_def n_def)
    ultimately show ?thesis
      using fin(1-4) fin(6) [of n] c y(2) False udp b(2) full by (auto simp: l4_good_def Let_def n_def)
  qed
qed

lemma translated_keeps:
  "keeps p meta p1 meta1 \<Longrightarrow> meta_fits p meta \<Longrightarrow> translated rw p1 meta1 y meta1 \<Longrightarrow> translated rw p meta y meta1"
  by (auto simp: keeps_def translated_def ip_ttl_def ip_protocol_def meta_fits_def)

lemma rewrite_options_outcome:
  assumes "rewrite_options ops opt m meta out = (m', meta', out', full)" "meta_fits (mb_data m) meta"
  shows "full \<Longrightarrow> ip_is_tcp (mb_data m) 14"
    "out = rewrite_outcome_zero \<Longrightarrow> full \<longleftrightarrow> ts_stripped out' \<or> toa_added out'"
  using assms by (auto simp: rewrite_options_def Let_def meta_fits_def rewrite_outcome_zero_def split: if_splits prod.splits bool.splits)

lemma l4_good_cong:
  assumes fits: "meta_fits p meta" "meta_fits q meta" and same: "\<forall>i < pm_total_len meta. q ! i = p ! i"
    and good: "l4_good p" and tu: "ip_is_tcp p 14 \<or> ip_is_udp p 14"
  shows "l4_good q"
proof -
  let ?o = "pm_l4_offset meta"
  have b: "?o = 14 + ip_header_len p 14" "34 \<le> ?o" "?o \<le> pm_total_len meta" "pm_total_len meta = 14 + ip_total_length p 14"
      "pm_total_len meta \<le> length p" "pm_total_len meta \<le> length q" "pm_total_len meta = 14 + ip_total_length q 14"
      "?o = 14 + ip_header_len q 14" "ip_header_len q 14 = ip_header_len p 14"
    using fits by (auto simp: meta_fits_def)
  have e: "q ! i = p ! i" if "i < pm_total_len meta" for i using same that by blast
  have pr: "ip_is_tcp q 14 = ip_is_tcp p 14" "ip_is_udp q 14 = ip_is_udp p 14"
    using fits by (simp_all add: meta_fits_def ip_is_tcp_def ip_is_udp_def)
  show ?thesis
  proof (cases "ip_is_tcp p 14")
    case True
    have "l4_accepts q 14 ?o (ip_total_length p 14 - ip_header_len p 14) = l4_accepts p 14 ?o (ip_total_length p 14 - ip_header_len p 14)"
      using b by (intro accepts_cong [OF same]) simp_all
    then show ?thesis using good True pr b by (simp add: l4_good_def Let_def)
  next
    case False
    then have u: "ip_is_udp p 14" using tu by blast
    then have l: "?o + udp_length p ?o \<le> pm_total_len meta" "8 \<le> udp_length p ?o" using fits(1) by (auto simp: meta_fits_def l4_fits_def)
    have g: "get16 q (?o + 4) = get16 p (?o + 4)" "get16 q (?o + 6) = get16 p (?o + 6)"
      using l by (auto intro!: get16_cong e)
    have "l4_accepts q 14 ?o (udp_length p ?o) = l4_accepts p 14 ?o (udp_length p ?o)"
      using b l by (intro accepts_cong [OF same]) simp_all
    then show ?thesis using good False u pr b g by (simp add: l4_good_def Let_def udp_length_def)
  qed
qed

lemma nat_rewrite_steps:
  assumes "nat_rewrite ops m meta rw opt out = (r, m', meta', out')" "\<not> ip_ttl (mb_data m) 14 \<le> 1" "meta_fits (mb_data m) meta"
  obtains m1 full where "rewrite_options ops opt m meta out = (m1, meta', out', full)" "r = REWRITE_OK"
    "pm_l3_offset meta' = 14 \<Longrightarrow> m' = rewrite_mac (rw_src_mac rw) (rw_dst_mac rw)
       (rewrite_l4 ops rw opt (m1\<lparr>mb_data := rewrite_ip (rw_src_ip rw) (rw_dst_ip rw) (mb_data m1) 14\<rparr>) meta'
         (ip_src (mb_data m1) 14) (ip_dst (mb_data m1) 14) full)"
proof -
  obtain m1 meta1 out1 full where o: "rewrite_options ops opt m meta out = (m1, meta1, out1, full)" by (metis prod_cases4)
  then show thesis
    using assms by (intro that [of m1 full]) (auto simp: nat_rewrite_def meta_fits_def Let_def)
qed

text \<open>With checksum offload the card is told where the headers are, and the checksum field holds the
  pseudo-header sum that it starts from.\<close>

definition offloaded :: "mbuf_ops \<Rightarrow> mbuf \<Rightarrow> nat \<Rightarrow> bool" where
  "offloaded ops m l4 \<longleftrightarrow>
     (let q = mb_data m; tcp = ip_is_tcp q 14;
          flags = F_TX_IPV4 ops OR (if tcp then F_TX_TCP_CKSUM ops else F_TX_UDP_CKSUM ops) in
      mb_ol_flags m = flags \<and> mb_l2_len m = 14 \<and> mb_l3_len m = ip_header_len q 14 \<and>
      mb_l4_len m = (if tcp then tcp_header_len q l4 else 8) \<and>
      (\<exists>x. sub x 14 (ip_header_len q 14) = sub q 14 (ip_header_len q 14) \<and>
           get16 q (l4 + (if tcp then 16 else 6)) = phdr_cksum ops x 14 flags))"

lemma rewrite_hardware:
  assumes fits: "meta_fits p meta" and tu: "ip_is_tcp p 14 \<or> ip_is_udp p 14"
    and hw: "hw_offload ops (opt_tx_offloads opt) (ip_is_tcp p 14)"
    and macs: "length (rw_src_mac rw) = 6" "length (rw_dst_mac rw) = 6"
    and m': "m' = rewrite_mac (rw_src_mac rw) (rw_dst_mac rw)
      (rewrite_l4 ops rw opt (m\<lparr>mb_data := rewrite_ip (rw_src_ip rw) (rw_dst_ip rw) p 14\<rparr>) meta (ip_src p 14) (ip_dst p 14) full)"
  shows "translated rw p meta (mb_data m') meta \<and> offloaded ops m' (pm_l4_offset meta)"
proof -
  let ?o = "pm_l4_offset meta"
  define k where "k = (if ip_is_tcp p 14 then 16 else 6 :: nat)"
  define q where "q = rewrite_ip (rw_src_ip rw) (rw_dst_ip rw) p 14"
  define x where "x = put16 (put16 q ?o (rw_src_port rw)) (?o + 2) (rw_dst_port rw)"
  define fl where "fl = F_TX_IPV4 ops OR (if ip_is_tcp p 14 then F_TX_TCP_CKSUM ops else F_TX_UDP_CKSUM ops)"
  define m2 where "m2 = rewrite_l4 ops rw opt (m\<lparr>mb_data := q\<rparr>) meta (ip_src p 14) (ip_dst p 14) full"
  have b: "34 \<le> ?o" "?o = 14 + ip_header_len p 14" "20 \<le> ip_header_len p 14" "?o \<le> length p" "pm_l3_offset meta = 14"
      "?o + k + 2 \<le> pm_payload_offset meta" "pm_payload_offset meta \<le> length p" "4 \<le> k"
    using fits tu by (auto simp: meta_fits_def l4_fits_def k_def)
  note re = rewrite_ip_effect [OF b(3) b(4) [unfolded b(2)] q_def [symmetric]]
  have qi: "i < 22 \<or> i = 23 \<or> 34 \<le> i \<Longrightarrow> q ! i = p ! i" for i using re(7) [of i] by simp
  have xf: "ip_is_tcp q 14 = ip_is_tcp p 14" "ip_is_udp q 14 = ip_is_udp p 14" "ip_is_tcp x 14 = ip_is_tcp p 14" "ip_header_len x 14 = ip_header_len p 14"
    using qi [of 23] re(2) b(1) by (simp_all add: x_def field_defs)
  have th: "tcp_header_len x ?o = tcp_header_len p ?o" using qi [of "?o + 12"] b(1) by (simp add: x_def tcp_header_len_def)
  have d: "mb_data m2 = l4_put rw q ?o k (phdr_cksum ops x 14 fl)" "mb_ol_flags m2 = fl" "mb_l2_len m2 = 14"
      "mb_l3_len m2 = ip_header_len p 14" "mb_l4_len m2 = (if ip_is_tcp p 14 then tcp_header_len p ?o else 8)"
  proof -
    have "m2 = l4_checksum_full ops (m\<lparr>mb_data := q, mb_data := x\<rparr>) 14 ?o meta (opt_tx_offloads opt)"
      using hw tu unfolding m2_def rewrite_l4_def Let_def b(5) x_def
      by (cases "ip_is_tcp p 14") (simp_all add: xf(1,2))
    then have m2: "m2 = (if ip_is_tcp p 14
        then m\<lparr>mb_data := put16 x (?o + 16) (phdr_cksum ops x 14 fl), mb_ol_flags := fl, mb_l2_len := 14,
          mb_l3_len := ip_header_len p 14, mb_l4_len := tcp_header_len p ?o\<rparr>
        else m\<lparr>mb_data := put16 x (?o + 6) (phdr_cksum ops x 14 fl), mb_ol_flags := fl, mb_l2_len := 14,
          mb_l3_len := ip_header_len p 14, mb_l4_len := 8\<rparr>)"
      using hw by (simp add: l4_checksum_full_def Let_def xf(3,4) th b(5) fl_def)
    show "mb_data m2 = l4_put rw q ?o k (phdr_cksum ops x 14 fl)" "mb_ol_flags m2 = fl" "mb_l2_len m2 = 14"
      "mb_l3_len m2 = ip_header_len p 14" "mb_l4_len m2 = (if ip_is_tcp p 14 then tcp_header_len p ?o else 8)"
      unfolding m2 k_def l4_put_def x_def by simp_all
  qed
  have y: "mb_data m' = set_src_mac (rw_src_mac rw) (set_dst_mac (rw_dst_mac rw) (mb_data m2))"
      "mb_ol_flags m' = fl" "mb_l2_len m' = 14" "mb_l3_len m' = ip_header_len p 14"
      "mb_l4_len m' = (if ip_is_tcp p 14 then tcp_header_len p ?o else 8)"
    using d by (simp_all add: m' m2_def q_def rewrite_mac_def)
  note fin = finished [OF fits q_def [symmetric] b(8,6) macs y(1) [unfolded d(1)]]
  note mk = mac_keeps [OF macs y(1) [unfolded d(1)]]
  have t: "ip_is_tcp (mb_data m') 14 = ip_is_tcp p 14" using fin(1) by (simp add: translated_def ip_is_tcp_def)
  have "sub (mb_data m') 14 (ip_header_len p 14) = sub (l4_put rw q ?o k (phdr_cksum ops x 14 fl)) 14 (ip_header_len p 14)"
    by (rule mk(5)) simp
  also have "\<dots> = sub x 14 (ip_header_len p 14)"
    using b re(1) by (simp add: l4_put_def x_def)
  finally have hdr: "sub x 14 (ip_header_len p 14) = sub (mb_data m') 14 (ip_header_len p 14)" by simp
  have "tcp_header_len (mb_data m') ?o = tcp_header_len p ?o" if "ip_is_tcp p 14"
    using mk(2) [of "?o + 12"] that b(1) qi [of "?o + 12"] by (simp add: tcp_header_len_def l4_put_def k_def)
  then have "offloaded ops m' ?o"
    unfolding offloaded_def Let_def using y(2-5) fin(3,4) hdr t by (auto simp: fl_def k_def)
  then show ?thesis using fin(1) by blast
qed

lemma icmp_inner:
  assumes "20 \<le> ip_header_len p b" "l4 = b + ip_header_len p b" "l4 + 4 \<le> length p"
    and q: "q = put16 (put16 (ip_update (put32 (put32 p (b + 12) s) (b + 16) d) b) l4 sp) (l4 + 2) dp"
  shows "length q = length p" "ip_src q b = s" "ip_dst q b = d" "get16 q l4 = sp" "get16 q (l4 + 2) = dp"
    "ip_header_len q b = ip_header_len p b" "calculate (sub q b (ip_header_len p b)) = 0" "i < b \<or> l4 + 4 \<le> i \<Longrightarrow> q ! i = p ! i"
proof -
  define p1 where "p1 = put32 (put32 p (b + 12) s) (b + 16) d"
  define p2 where "p2 = ip_update p1 b"
  have h1: "ip_header_len p1 b = ip_header_len p b" "length p1 = length p" by (simp_all add: p1_def ip_header_len_def)
  have u: "calculate (sub p2 b (ip_header_len p2 b)) = 0" "length p2 = length p1"
      "i \<noteq> b + 10 \<Longrightarrow> i \<noteq> b + 11 \<Longrightarrow> p2 ! i = p1 ! i" for i
    using ip_update_accepted [OF _ _ p2_def [symmetric]] h1 assms(1-3) by simp_all
  have q': "q = put16 (put16 p2 l4 sp) (l4 + 2) dp" by (simp add: q p1_def p2_def)
  show len: "length q = length p" using u(2) h1 by (simp add: q')
  have qi: "q ! i = p2 ! i" if "i < l4 \<or> l4 + 4 \<le> i" for i using that by (auto simp: q')
  have "get32 q (b + 12) = get32 p1 (b + 12)" "get32 q (b + 16) = get32 p1 (b + 16)"
    using assms(1,2) u(3) by (auto intro!: get32_cong simp: qi)
  then show "ip_src q b = s" "ip_dst q b = d" using assms(1-3) by (simp_all add: ip_src_def ip_dst_def p1_def)
  show "get16 q l4 = sp" "get16 q (l4 + 2) = dp" using assms(3) u(2) h1 by (simp_all add: q')
  have h2: "ip_header_len p2 b = ip_header_len p b" using u(3) [of b] h1 by (simp add: ip_header_len_def)
  then show "ip_header_len q b = ip_header_len p b" using qi [of b] assms(1,2) by (simp add: ip_header_len_def)
  have "sub q b (ip_header_len p b) = sub p2 b (ip_header_len p b)"
    using len u(2) h1 assms by (intro sub_cong qi) auto
  then show "calculate (sub q b (ip_header_len p b)) = 0" using u(1) h2 by simp
  show "i < b \<or> l4 + 4 \<le> i \<Longrightarrow> q ! i = p ! i" using qi [of i] u(3) [of i] assms(1,2) by (auto simp: p1_def)
qed

lemma icmp_outer:
  assumes "20 \<le> ip_header_len p 14" "l4 = 14 + ip_header_len p 14" "4 \<le> n" "n \<le> 65535" "l4 + n \<le> length p"
    and x: "x = put16 (rewrite_ip s d p 14) (l4 + 2) 0" and q: "q = put16 x (l4 + 2) (calculate (sub x l4 n))"
  shows "length q = length p" "ip_src q 14 = s" "ip_dst q 14 = d" "ip_ttl q 14 = ip_ttl p 14 - 1"
    "ip_header_len q 14 = ip_header_len p 14" "calculate (sub q 14 (ip_header_len p 14)) = 0" "calculate (sub q l4 n) = 0"
    "34 \<le> i \<Longrightarrow> i < l4 + 2 \<or> l4 + 4 \<le> i \<Longrightarrow> q ! i = p ! i"
proof -
  define p4 where "p4 = rewrite_ip s d p 14"
  have len: "14 + ip_header_len p 14 \<le> length p" using assms(2,5) by simp
  note re = rewrite_ip_effect [OF assms(1) len p4_def [symmetric]]
  have xl: "length x = length p" by (simp add: x re(1) flip: p4_def)
  then show ql: "length q = length p" by (simp add: q)
  have qi: "q ! i = p4 ! i" if "i < l4 + 2 \<or> l4 + 4 \<le> i" for i using that by (auto simp: q x p4_def)
  have "get32 q 26 = get32 p4 26" "get32 q 30 = get32 p4 30" using assms(1,2) by (auto intro!: get32_cong qi)
  then show "ip_src q 14 = s" "ip_dst q 14 = d" using re(4,5) by (simp_all add: ip_src_def ip_dst_def)
  show "ip_ttl q 14 = ip_ttl p 14 - 1" using qi [of 22] re(6) assms(1,2) by (simp add: ip_ttl_def)
  show "ip_header_len q 14 = ip_header_len p 14" using qi [of 14] re(2) assms(1,2) by (simp add: ip_header_len_def)
  have "sub q 14 (ip_header_len p 14) = sub p4 14 (ip_header_len p 14)"
    using ql re(1) len assms(2) by (intro sub_cong qi) auto
  then show "calculate (sub q 14 (ip_header_len p 14)) = 0" using re(3) by simp
  show "calculate (sub q l4 n) = 0"
    unfolding q using assms(3-5) xl re(1) by (intro icmp_sum_accepted) (simp_all add: x flip: p4_def)
  show "34 \<le> i \<Longrightarrow> i < l4 + 2 \<or> l4 + 4 \<le> i \<Longrightarrow> q ! i = p ! i" using qi [of i] re(7) [of i] by simp
qed

lemma rewrite_in_software:
  assumes ops: "pktmbuf ops" and fits: "meta_fits (mb_data m) meta"
    and tu: "ip_is_tcp (mb_data m) 14 \<or> ip_is_udp (mb_data m) 14" and mtu: "opt_mtu opt \<le> 65521"
    and sw: "\<not> hw_offload ops (opt_tx_offloads opt) (ip_is_tcp (mb_data m) 14)"
    and macs: "length (rw_src_mac rw) = 6" "length (rw_dst_mac rw) = 6"
    and rw: "nat_rewrite ops m meta rw opt rewrite_outcome_zero = (r, m', meta', out)"
  shows "if ip_ttl (mb_data m) 14 \<le> 1 then r = TTL_EXCEEDED \<and> m' = m \<and> meta' = meta
    else r = REWRITE_OK \<and> translated rw (mb_data m) meta (mb_data m') meta' \<and> mb_ol_flags m' = 0 \<and>
      (l4_good (mb_data m) \<or> ts_stripped out \<or> toa_added out \<longrightarrow> l4_good (mb_data m')) \<and>
      (ip_is_udp (mb_data m) 14 \<longrightarrow>
         get16 (mb_data m') (pm_l4_offset meta + 6) = 0 \<longleftrightarrow> get16 (mb_data m) (pm_l4_offset meta + 6) = 0)"
proof (cases "ip_ttl (mb_data m) 14 \<le> 1")
  case True
  then show ?thesis using rw fits by (auto simp: nat_rewrite_def meta_fits_def)
next
  case False
  obtain m1 full where o: "rewrite_options ops opt m meta rewrite_outcome_zero = (m1, meta', out, full)" and r: "r = REWRITE_OK"
    and m': "pm_l3_offset meta' = 14 \<Longrightarrow> m' = rewrite_mac (rw_src_mac rw) (rw_dst_mac rw)
       (rewrite_l4 ops rw opt (m1\<lparr>mb_data := rewrite_ip (rw_src_ip rw) (rw_dst_ip rw) (mb_data m1) 14\<rparr>) meta'
         (ip_src (mb_data m1) 14) (ip_dst (mb_data m1) 14) full)"
    using nat_rewrite_steps [OF rw False fits] by metis
  have k: "keeps (mb_data m) meta (mb_data m1) meta'"
    and same: "\<not> full \<Longrightarrow> meta' = meta \<and> (\<forall>i < pm_total_len meta. mb_data m1 ! i = mb_data m ! i)"
    using rewrite_options_keeps [OF ops fits mtu o] by blast+
  note oc = rewrite_options_outcome [OF o fits]
  have f1: "meta_fits (mb_data m1) meta'" "pm_l3_offset meta' = 14" "pm_l4_offset meta' = pm_l4_offset meta"
    using k by (auto simp: keeps_def meta_fits_def)
  have pr: "ip_protocol (mb_data m1) 14 = ip_protocol (mb_data m) 14"
    using k fits by (auto simp: keeps_def meta_fits_def ip_protocol_def)
  then have tu1: "ip_is_tcp (mb_data m1) 14 = ip_is_tcp (mb_data m) 14" "ip_is_udp (mb_data m1) 14 = ip_is_udp (mb_data m) 14"
    by (simp_all add: ip_is_tcp_def ip_is_udp_def)
  have core: "translated rw (mb_data m1) meta' (mb_data m') meta' \<and> mb_ol_flags m' = 0 \<and> (full \<or> l4_good (mb_data m1) \<longrightarrow> l4_good (mb_data m')) \<and>
      (ip_is_udp (mb_data m1) 14 \<longrightarrow> get16 (mb_data m') (pm_l4_offset meta' + 6) = 0 \<longleftrightarrow> get16 (mb_data m1) (pm_l4_offset meta' + 6) = 0)"
    using tu sw macs oc(1) f1 by (intro rewrite_software [OF _ _ _ _ _ _ m']) (simp_all add: tu1)
  have good: "l4_good (mb_data m) \<Longrightarrow> \<not> full \<Longrightarrow> l4_good (mb_data m1)"
    using l4_good_cong [OF fits _ _ _ tu] f1(1) same by metis
  have udp: "get16 (mb_data m1) (pm_l4_offset meta + 6) = get16 (mb_data m) (pm_l4_offset meta + 6)" if u: "ip_is_udp (mb_data m) 14"
  proof -
    have "\<not> full" using oc(1) u by (auto simp: ip_is_tcp_def ip_is_udp_def)
    moreover have "pm_l4_offset meta + 8 \<le> pm_total_len meta" using fits u by (auto simp: meta_fits_def l4_fits_def)
    ultimately show ?thesis using same by (intro get16_cong) auto
  qed
  show ?thesis
    using False r core good oc(2) udp translated_keeps [OF k fits] by (auto simp: tu1 f1(3))
qed

lemma rewrite_in_hardware:
  assumes ops: "pktmbuf ops" and fits: "meta_fits (mb_data m) meta"
    and tu: "ip_is_tcp (mb_data m) 14 \<or> ip_is_udp (mb_data m) 14" and mtu: "opt_mtu opt \<le> 65521"
    and hw: "hw_offload ops (opt_tx_offloads opt) (ip_is_tcp (mb_data m) 14)"
    and macs: "length (rw_src_mac rw) = 6" "length (rw_dst_mac rw) = 6" and ttl: "\<not> ip_ttl (mb_data m) 14 \<le> 1"
    and rw: "nat_rewrite ops m meta rw opt out = (r, m', meta', out')"
  shows "r = REWRITE_OK \<and> translated rw (mb_data m) meta (mb_data m') meta' \<and> offloaded ops m' (pm_l4_offset meta)"
proof -
  obtain m1 full where o: "rewrite_options ops opt m meta out = (m1, meta', out', full)" and r: "r = REWRITE_OK"
    and m': "pm_l3_offset meta' = 14 \<Longrightarrow> m' = rewrite_mac (rw_src_mac rw) (rw_dst_mac rw)
       (rewrite_l4 ops rw opt (m1\<lparr>mb_data := rewrite_ip (rw_src_ip rw) (rw_dst_ip rw) (mb_data m1) 14\<rparr>) meta'
         (ip_src (mb_data m1) 14) (ip_dst (mb_data m1) 14) full)"
    using nat_rewrite_steps [OF rw ttl fits] by metis
  have k: "keeps (mb_data m) meta (mb_data m1) meta'"
    using rewrite_options_keeps [OF ops fits mtu o] by blast
  have f1: "meta_fits (mb_data m1) meta'" "pm_l3_offset meta' = 14" "pm_l4_offset meta' = pm_l4_offset meta"
    using k by (auto simp: keeps_def meta_fits_def)
  have "ip_protocol (mb_data m1) 14 = ip_protocol (mb_data m) 14"
    using k fits by (auto simp: keeps_def meta_fits_def ip_protocol_def)
  then have tu1: "ip_is_tcp (mb_data m1) 14 = ip_is_tcp (mb_data m) 14" "ip_is_udp (mb_data m1) 14 = ip_is_udp (mb_data m) 14"
    by (simp_all add: ip_is_tcp_def ip_is_udp_def)
  have "translated rw (mb_data m1) meta' (mb_data m') meta' \<and> offloaded ops m' (pm_l4_offset meta')"
    using tu hw macs f1 by (intro rewrite_hardware [OF _ _ _ _ _ m']) (simp_all add: tu1)
  then show ?thesis using r f1(3) translated_keeps [OF k fits] by simp
qed

text \<open>Either way, a packet that is sent is translated.\<close>

lemma rewrite_translates:
  assumes "pktmbuf ops" "meta_fits (mb_data m) meta" "ip_is_tcp (mb_data m) 14 \<or> ip_is_udp (mb_data m) 14" "opt_mtu opt \<le> 65521"
    "length (rw_src_mac rw) = 6" "length (rw_dst_mac rw) = 6"
    "nat_rewrite ops m meta rw opt rewrite_outcome_zero = (REWRITE_OK, m', meta', out)"
  shows "translated rw (mb_data m) meta (mb_data m') meta'"
proof -
  have ttl: "\<not> ip_ttl (mb_data m) 14 \<le> 1"
    using assms(2,7) by (auto simp: nat_rewrite_def meta_fits_def)
  show ?thesis
    using rewrite_in_software [OF assms(1-4) _ assms(5-7)] rewrite_in_hardware [OF assms(1-4) _ assms(5,6) ttl assms(7)] ttl
    by (cases "hw_offload ops (opt_tx_offloads opt) (ip_is_tcp (mb_data m) 14)") auto
qed

section \<open>Properties\<close>

text \<open>C21: Rewriting a parsed TCP or UDP packet in software. A packet whose time to live is used up
  is refused unchanged. Any other packet leaves with the addresses, ports and hardware addresses
  asked for, its time to live one lower, an IP header checksum that receivers accept and the payload
  it came with; if its transport checksum was good it still is, it is good in any case when TCP
  options were changed, and a UDP packet has a checksum afterwards exactly when it had one before.\<close>

theorem nat_rewrite_correct:
  assumes ops: "pktmbuf ops" and fits: "meta_fits (mb_data m) meta"
    and tu: "ip_is_tcp (mb_data m) 14 \<or> ip_is_udp (mb_data m) 14" and mtu: "opt_mtu opt \<le> 65521"
    and sw: "\<not> hw_offload ops (opt_tx_offloads opt) (ip_is_tcp (mb_data m) 14)"
    and macs: "length (rw_src_mac rw) = 6" "length (rw_dst_mac rw) = 6"
    and rw: "nat_rewrite ops m meta rw opt rewrite_outcome_zero = (r, m', meta', out)"
  shows "if ip_ttl (mb_data m) 14 \<le> 1 then r = TTL_EXCEEDED \<and> m' = m \<and> meta' = meta
    else r = REWRITE_OK \<and> translated rw (mb_data m) meta (mb_data m') meta' \<and> mb_ol_flags m' = 0 \<and>
      (l4_good (mb_data m) \<or> ts_stripped out \<or> toa_added out \<longrightarrow> l4_good (mb_data m')) \<and>
      (ip_is_udp (mb_data m) 14 \<longrightarrow>
         get16 (mb_data m') (pm_l4_offset meta + 6) = 0 \<longleftrightarrow> get16 (mb_data m) (pm_l4_offset meta + 6) = 0)"
  using assms by (rule rewrite_in_software)

definition demo_rw :: nat_rewrite_to where
  "demo_rw = \<lparr>rw_src_ip = 0x0100000A, rw_dst_ip = 0x0500000A, rw_src_port = 0x1027, rw_dst_port = 0x901F,
     rw_src_mac = [2, 0, 0, 0, 0, 9], rw_dst_mac = [2, 0, 0, 0, 0, 8]\<rparr>"

lemma demo_ttl: "\<not> ip_ttl (mb_data demo_mbuf) 14 \<le> 1"
  by (simp add: demo_mbuf_def demo_frame_def ip_ttl_def word_le_nat_alt)

theorem nat_rewrite_correct_witness:
  "\<exists>m' meta' out. nat_rewrite tail_ops demo_mbuf demo_meta demo_rw nat_options_default rewrite_outcome_zero = (REWRITE_OK, m', meta', out) \<and>
     translated demo_rw demo_frame demo_meta (mb_data m') meta'"
proof -
  obtain r m' meta' out where n: "nat_rewrite tail_ops demo_mbuf demo_meta demo_rw nat_options_default rewrite_outcome_zero = (r, m', meta', out)"
    by (metis prod_cases4)
  have "\<not> hw_offload tail_ops (opt_tx_offloads nat_options_default) (ip_is_tcp (mb_data demo_mbuf) 14)"
    by (simp add: hw_offload_def tail_ops_def)
  then show ?thesis
    using nat_rewrite_correct [OF tail.pktmbuf_axioms demo_mbuf_fits(1) _ _ _ _ _ n] n demo_ttl demo_mbuf_fits(2)
    by (simp add: nat_options_default_def demo_rw_def demo_mbuf_def)
qed

text \<open>C22: With checksum offload to the network card, a packet leaves translated in the same way; the
  buffer carries the header lengths and flags the card needs, and the checksum field holds the
  pseudo-header sum that DPDK computes from the rewritten IP header.\<close>

theorem nat_rewrite_offloads:
  assumes ops: "pktmbuf ops" and fits: "meta_fits (mb_data m) meta"
    and tu: "ip_is_tcp (mb_data m) 14 \<or> ip_is_udp (mb_data m) 14" and mtu: "opt_mtu opt \<le> 65521"
    and hw: "hw_offload ops (opt_tx_offloads opt) (ip_is_tcp (mb_data m) 14)"
    and macs: "length (rw_src_mac rw) = 6" "length (rw_dst_mac rw) = 6" and ttl: "\<not> ip_ttl (mb_data m) 14 \<le> 1"
    and rw: "nat_rewrite ops m meta rw opt out = (r, m', meta', out')"
  shows "r = REWRITE_OK \<and> translated rw (mb_data m) meta (mb_data m') meta' \<and> offloaded ops m' (pm_l4_offset meta)"
  using assms by (rule rewrite_in_hardware)

definition hw_ops :: mbuf_ops where
  "hw_ops = tail_ops\<lparr>hw_cksum := True\<rparr>"

interpretation hw_tail: pktmbuf hw_ops
  by unfold_locales (auto simp: hw_ops_def tail_ops_def tail_append_def tail_trim_def split: if_splits intro: exI [of _ "replicate n 0" for n])

theorem nat_rewrite_offloads_witness:
  "\<exists>m' meta' out. nat_rewrite hw_ops demo_mbuf demo_meta demo_rw (nat_options_default\<lparr>opt_tx_offloads := 8\<rparr>) rewrite_outcome_zero = (REWRITE_OK, m', meta', out) \<and>
     offloaded hw_ops m' 34"
proof -
  let ?opt = "nat_options_default\<lparr>opt_tx_offloads := 8\<rparr>"
  obtain r m' meta' out where n: "nat_rewrite hw_ops demo_mbuf demo_meta demo_rw ?opt rewrite_outcome_zero = (r, m', meta', out)"
    by (metis prod_cases4)
  have "hw_offload hw_ops (opt_tx_offloads ?opt) (ip_is_tcp (mb_data demo_mbuf) 14)" "pm_l4_offset demo_meta = 34"
    using demo_mbuf_fits demo_fields by (simp_all add: hw_offload_def hw_ops_def tail_ops_def meta_fits_def demo_mbuf_def)
  then show ?thesis
    using nat_rewrite_offloads [OF hw_tail.pktmbuf_axioms demo_mbuf_fits(1) _ _ _ _ _ demo_ttl n] n demo_mbuf_fits(2)
    by (simp add: nat_options_default_def demo_rw_def)
qed

text \<open>C23: Rewriting an ICMP error about a translated packet. When the time to live allows it, the
  outer header gets the addresses given, the quoted header gets the addresses and ports of the other
  side, the three checksums are ones that receivers accept, and the type of the error and the rest
  of the quoted packet stay as they are.\<close>

theorem icmp_error_translated:
  assumes fits: "meta_fits (mb_data m) meta" "length (mb_data m) \<le> 65535" and i: "parse_icmp_error (mb_data m) meta = Some info"
    and macs: "length src_mac = 6" "length dst_mac = 6" and ttl: "\<not> ip_ttl (mb_data m) 14 \<le> 1"
    and rw: "nat_rewrite_icmp_error m meta info outer_src outer_dst inn src_mac dst_mac = (r, m')"
  shows "let p = mb_data m; q = mb_data m'; l4 = pm_l4_offset meta; i3 = inner_l3_offset info; i4 = inner_l4_offset info in
    r = REWRITE_OK \<and> mb_ol_flags m' = 0 \<and> eth_src_mac q = src_mac \<and> eth_dst_mac q = dst_mac \<and>
    ip_src q 14 = outer_src \<and> ip_dst q 14 = outer_dst \<and> ip_ttl q 14 = ip_ttl p 14 - 1 \<and>
    ip_src q i3 = src_ip inn \<and> ip_dst q i3 = dst_ip inn \<and> get16 q i4 = src_port inn \<and> get16 q (i4 + 2) = dst_port inn \<and>
    calculate (sub q 14 (ip_header_len q 14)) = 0 \<and> calculate (sub q i3 (ip_header_len q i3)) = 0 \<and>
    calculate (sub q l4 (pm_total_len meta - l4)) = 0 \<and> q ! l4 = p ! l4 \<and> q ! (l4 + 1) = p ! (l4 + 1) \<and>
    (\<forall>j \<ge> i4 + 4. q ! j = p ! j)"
proof -
  define p where "p = mb_data m"
  define o4 where "o4 = pm_l4_offset meta"
  define i3 where "i3 = inner_l3_offset info"
  define i4 where "i4 = inner_l4_offset info"
  have b: "34 \<le> o4" "o4 = 14 + ip_header_len p 14" "20 \<le> ip_header_len p 14" "pm_total_len meta \<le> length p" "pm_l3_offset meta = 14"
    using fits by (auto simp: meta_fits_def p_def o4_def)
  have c: "i3 = o4 + 8" "i4 = i3 + ip_header_len p i3" "20 \<le> ip_header_len p i3" "i4 + 8 \<le> pm_total_len meta"
  proof -
    have "pm_total_len meta < 65536" using fits(2) b(4) by (simp add: p_def)
    from parse_icmp_bounds [OF i this] show "i3 = o4 + 8" "i4 = i3 + ip_header_len p i3" "20 \<le> ip_header_len p i3" "i4 + 8 \<le> pm_total_len meta"
      unfolding p_def o4_def i3_def i4_def by blast+
  qed
  define p3 where "p3 = put16 (put16 (ip_update (put32 (put32 p (i3 + 12) (src_ip inn)) (i3 + 16) (dst_ip inn)) i3) i4 (src_port inn)) (i4 + 2) (dst_port inn)"
  define x where "x = put16 (rewrite_ip outer_src outer_dst p3 14) (o4 + 2) 0"
  define y where "y = put16 x (o4 + 2) (calculate (sub x o4 (pm_total_len meta - o4)))"
  define q where "q = set_src_mac src_mac (set_dst_mac dst_mac y)"
  have m': "r = REWRITE_OK" "mb_data m' = q" "mb_ol_flags m' = 0"
    using rw ttl unfolding nat_rewrite_icmp_error_def Let_def b(5) ip_checksum_eq icmp_calculate_eq p_def [symmetric] o4_def [symmetric]
      i3_def [symmetric] i4_def [symmetric] p3_def [symmetric] x_def [symmetric] y_def [symmetric] q_def [symmetric] by auto
  have il: "i4 + 4 \<le> length p" using c b by simp
  note inn = icmp_inner [OF c(3,2) il p3_def]
  have h: "ip_header_len p3 14 = ip_header_len p 14" "ip_ttl p3 14 = ip_ttl p 14"
    using inn(8) [of 14] inn(8) [of 22] b c by (simp_all add: ip_header_len_def ip_ttl_def)
  have n: "4 \<le> pm_total_len meta - o4" "pm_total_len meta - o4 \<le> 65535" "o4 + (pm_total_len meta - o4) \<le> length p3"
    using b c fits(2) inn(1) by (auto simp: p_def)
  note out = icmp_outer [OF _ _ n x_def y_def, unfolded h, OF b(3,2)]
  note mk = mac_keeps [OF macs q_def]
  have qi: "q ! j = p3 ! j" if "34 \<le> j" "j < o4 + 2 \<or> o4 + 4 \<le> j" for j
    using mk(2) [of j] out(8) that by simp
  have "ip_src q i3 = src_ip inn" "ip_dst q i3 = dst_ip inn" "ip_header_len q i3 = ip_header_len p i3"
    using inn(2,3,6) b c qi get32_cong [of q "i3 + 12" p3] get32_cong [of q "i3 + 16" p3] by (simp_all add: ip_src_def ip_dst_def ip_header_len_def)
  moreover have "sub q i3 (ip_header_len p i3) = sub p3 i3 (ip_header_len p i3)"
    using mk(1) out(1) inn(1) b c by (intro sub_cong qi) auto
  moreover have "get16 q i4 = src_port inn" "get16 q (i4 + 2) = dst_port inn"
    using inn(4,5) b c get16_cong [of q i4 p3] get16_cong [of q "i4 + 2" p3] qi by simp_all
  moreover have "ip_src q 14 = outer_src" "ip_dst q 14 = outer_dst" "ip_ttl q 14 = ip_ttl p 14 - 1" "ip_header_len q 14 = ip_header_len p 14"
    using mk(2) [of 22] mk(2) [of 14] mk(4) [of 26] mk(4) [of 30] out(2-5) by (simp_all add: ip_src_def ip_dst_def ip_ttl_def ip_header_len_def)
  moreover have "q ! j = p ! j" if "j = o4 \<or> j = o4 + 1 \<or> i4 + 4 \<le> j" for j
    using qi [of j] inn(8) [of j] that b c by auto
  moreover have "eth_src_mac q = src_mac" "eth_dst_mac q = dst_mac"
    using mk(6,7) out(1) inn(1) il c b by auto
  ultimately show ?thesis
    unfolding Let_def p_def [symmetric] o4_def [symmetric] i3_def [symmetric] i4_def [symmetric] m'(2)
    using m'(1,3) inn(7) out(6,7) mk(5) [of 14] mk(5) [of o4] b(1) by simp
qed

definition demo_error :: bytes where
  "demo_error =
     [2, 0, 0, 0, 0, 1, 2, 0, 0, 0, 0, 2, 8, 0,
      0x45, 0, 0, 56, 0, 0, 0, 0, 64, 1, 0, 0, 10, 0, 0, 3, 10, 0, 0, 2, 3, 1, 0, 0, 0, 0, 0, 0,
      0x45, 0, 0, 40, 0, 0, 0, 0, 63, 6, 0, 0, 10, 0, 0, 2, 10, 0, 0, 3, 0x30, 0x39, 0, 80, 0, 0, 0, 1]"

definition demo_error_meta :: packet_meta where
  "demo_error_meta = snd (parse demo_error meta_zero)"

lemma demo_error_fields:
  "length demo_error = 70" "is_ipv4 demo_error" "ip_version demo_error 14 = 4" "ip_header_len demo_error 14 = 20" "ip_total_length demo_error 14 = 56"
  "ip_flags_fragment demo_error 14 = 0" "\<not> ip_is_tcp demo_error 14" "\<not> ip_is_udp demo_error 14" "ip_is_icmp demo_error 14"
  "icmp_is_error (demo_error ! 34)" "ip_header_len demo_error 42 = 20" "ip_version demo_error 42 = 4" "ip_is_tcp demo_error 42"
  "ip_flags_fragment demo_error 42 = 0" "ip_ttl demo_error 14 = 64"
  by (simp_all add: demo_error_def is_ipv4_def eth_type_def icmp_is_error_def field_defs get16_def bswap16_def le16_def lo8_def hi8_def)

theorem icmp_error_translated_witness:
  "\<exists>info m'. parse_icmp_error demo_error demo_error_meta = Some info \<and>
     nat_rewrite_icmp_error (demo_mbuf\<lparr>mb_data := demo_error\<rparr>) demo_error_meta info 1 2 (inner info) [2, 0, 0, 0, 0, 9] [2, 0, 0, 0, 0, 8] = (REWRITE_OK, m') \<and>
     ip_src (mb_data m') 14 = 1"
proof -
  let ?m = "demo_mbuf\<lparr>mb_data := demo_error\<rparr>"
  have p: "parse demo_error meta_zero = (PARSE_OK, demo_error_meta)" "pm_l4_offset demo_error_meta = 34" "pm_total_len demo_error_meta = 70"
    unfolding demo_error_meta_def by (simp_all add: parse_def parse_l4_def Let_def demo_error_fields)
  have fits: "meta_fits (mb_data ?m) demo_error_meta" "length (mb_data ?m) \<le> 65535" "\<not> ip_ttl (mb_data ?m) 14 \<le> 1"
    using meta_of_parse [OF p(1) demo_error_fields(2)] by (simp_all add: demo_error_fields word_le_nat_alt)
  obtain info where i: "parse_icmp_error (mb_data ?m) demo_error_meta = Some info"
    by (simp add: parse_icmp_error_def Let_def p demo_error_fields)
  obtain r m' where n: "nat_rewrite_icmp_error ?m demo_error_meta info 1 2 (inner info) [2, 0, 0, 0, 0, 9] [2, 0, 0, 0, 0, 8] = (r, m')"
    by (metis surj_pair)
  show ?thesis using icmp_error_translated [OF fits(1,2) i _ _ fits(3) n] i n by (auto simp: Let_def)
qed

end
