(* ===== verification/Processor_Inv.thy ===== *)
theory Processor_Inv
  imports Processor Session_Map Neigh_Props Snapshot_Runs Nat_Props
begin

text \<open>
  The invariant of packet processing: the session table is well formed and its timeouts fit the wheel, the
  snapshot is the one that was published up to the cursors of its schedulers, every session refers to a
  counter that exists and caches complete MAC addresses.
\<close>

section \<open>Frames\<close>

lemma count_sel [simp]:
  "pr_sessions (count i p) = pr_sessions p" "pr_snap (count i p) = pr_snap p" "pr_m (count i p) = pr_m p"
  "pr_events (count i p) = pr_events p" "w_idx (pr_w (count i p)) = w_idx (pr_w p)"
  "w_now_tick (pr_w (count i p)) = w_now_tick (pr_w p)"
  by (simp_all add: count_def)

lemma count_bytes_sel [simp]:
  "pr_sessions (count_bytes i n p) = pr_sessions p" "pr_snap (count_bytes i n p) = pr_snap p" "pr_m (count_bytes i n p) = pr_m p"
  "pr_events (count_bytes i n p) = pr_events p" "w_idx (pr_w (count_bytes i n p)) = w_idx (pr_w p)"
  "w_now_tick (pr_w (count_bytes i n p)) = w_now_tick (pr_w p)"
  by (simp_all add: count_bytes_def)

lemma post_sel [simp]:
  "pr_w (post_master_event ev p) = pr_w p" "pr_snap (post_master_event ev p) = pr_snap p" "pr_m (post_master_event ev p) = pr_m p"
  by (simp_all add: post_master_event_def)

lemma request_neigh_sel [simp]:
  "pr_w (request_neigh ip p) = pr_w p" "pr_snap (request_neigh ip p) = pr_snap p" "pr_m (request_neigh ip p) = pr_m p"
  by (simp_all add: request_neigh_def)

lemma on_sessions_sel [simp]:
  "pr_sessions (on_sessions f p) = f (pr_sessions p)" "pr_snap (on_sessions f p) = pr_snap p" "pr_m (on_sessions f p) = pr_m p"
  "pr_events (on_sessions f p) = pr_events p" "w_idx (pr_w (on_sessions f p)) = w_idx (pr_w p)"
  "w_now_tick (pr_w (on_sessions f p)) = w_now_tick (pr_w p)" "w_stats (pr_w (on_sessions f p)) = w_stats (pr_w p)"
  by (simp_all add: on_sessions_def)

section \<open>The invariant\<close>

text \<open>What stays the same of a session while it forwards packets.\<close>

definition ident :: "session \<Rightarrow> five_tuple \<times> five_tuple \<times> bool \<times> nat" where
  "ident s = (client s, server s, is_fullnat s, rs_id s)"

text \<open>The tuple under which the packets of a real server come back to this worker.\<close>

definition nat_server :: "('h, 'n) lb_env \<Rightarrow> 'n dataplane \<Rightarrow> snapshot \<Rightarrow> u8 \<Rightarrow> nat \<Rightarrow> five_tuple \<Rightarrow> bool" where
  "nat_server env dp snap proto idx srv \<longleftrightarrow>
     protocol srv = proto \<and> dst_ip srv \<in> set (snap_local_ips snap) \<and> in_nat_range (dst_port srv) \<and>
     ret_owner (env_rss env) (dp_steering dp) srv = idx"

definition server_of :: "rs_state \<Rightarrow> five_tuple \<Rightarrow> bool" where
  "server_of rs srv \<longleftrightarrow> src_ip srv = rst_ip rs \<and> src_port srv = rst_port_be rs"

text \<open>A real server is one of the service that a client tuple addresses.\<close>

definition svc_key :: "service \<Rightarrow> ipv4_addr \<times> port_be \<times> u8" where
  "svc_key s = (sv_vip s, sv_port_be s, sv_proto s)"

definition rs_serves :: "snapshot \<Rightarrow> rs_state \<Rightarrow> five_tuple \<Rightarrow> bool" where
  "rs_serves snap rs cli \<longleftrightarrow> rst_svc_idx rs < length (snap_services snap) \<and>
     svc_key (snap_services snap ! rst_svc_idx rs) = (dst_ip cli, dst_port cli, protocol cli)"

text \<open>A session lives on the worker that owns the packets of both its directions; its real server is one of the
  service it was opened for; in FULLNAT mode it has a server side, which leads to this real server.\<close>

definition ident_ok :: "('h, 'n) lb_env \<Rightarrow> 'n dataplane \<Rightarrow> nat \<Rightarrow> snapshot \<Rightarrow> five_tuple \<times> five_tuple \<times> bool \<times> nat \<Rightarrow> bool" where
  "ident_ok env dp idx snap x \<longleftrightarrow>
     (case x of (cli, srv, fullnat, rid) \<Rightarrow>
        fwd_owner (env_hash env) (env_rss env) (dp_steering dp) cli = idx \<and> fullnat = (snap_mode snap = NAT) \<and>
        (\<forall>rs. snap_rs snap rid = Some rs \<longrightarrow> rs_serves snap rs cli) \<and>
        (fullnat \<longrightarrow> nat_server env dp snap (protocol cli) idx srv \<and>
           (\<forall>rs. snap_rs snap rid = Some rs \<longrightarrow> server_of rs srv)))"

definition sess_ok :: "('h, 'n) lb_env \<Rightarrow> 'n dataplane \<Rightarrow> nat \<Rightarrow> snapshot \<Rightarrow> session \<Rightarrow> bool" where
  "sess_ok env dp idx snap s \<longleftrightarrow>
     rs_id s < kMaxRsCounters \<and> length (rs_mac s) = 6 \<and> length (cli_mac s) = 6 \<and> length (cli_src_mac s) = 6 \<and>
     ident_ok env dp idx snap (ident s)"

definition macs_ok :: "manager \<Rightarrow> bool" where
  "macs_ok m \<longleftrightarrow> list_all (\<lambda>ds. list_all (\<lambda>dr. length (rc_mac (dr_conf dr)) = 6) (ds_rs ds)) (mgr_services m)"

definition table_ok :: "('h, 'n) lb_env \<Rightarrow> 'n dataplane \<Rightarrow> nat \<Rightarrow> snapshot \<Rightarrow> nat \<Rightarrow> 'h session_table \<Rightarrow> bool" where
  "table_ok env dp idx snap now t \<longleftrightarrow> st_good (env_sess env) now t \<and>
     (\<forall>st. in_horizon t now (state_timeout st (lb_timeouts (dp_cfg dp)))) \<and>
     (\<forall>i s. conn t i = Some s \<longrightarrow> sess_ok env dp idx snap s)"

definition worker_ok :: "('h, 'n) lb_env \<Rightarrow> 'n dataplane \<Rightarrow> snapshot \<Rightarrow> 'h worker \<Rightarrow> bool" where
  "worker_ok env dp snap w \<longleftrightarrow> table_ok env dp (w_idx w) snap (w_now_tick w) (w_sessions w) \<and> w_idx w < str_n (dp_steering dp) \<and>
     length (w_rs_stats w) = kMaxRsCounters \<and>
     ws_c (w_stats w) ST_SESS_NEW =
       word_of_nat (card (dom (conn (w_sessions w)))) + ws_c (w_stats w) ST_SESS_EXPIRED + ws_c (w_stats w) ST_SESS_CLOSED"

definition snap_ok :: "('h, 'n) lb_env \<Rightarrow> manager \<Rightarrow> snapshot \<Rightarrow> bool" where
  "snap_ok env m snap \<longleftrightarrow> snap_of (env_hash env) m snap \<and> mgr_fits m \<and> macs_ok m \<and> mgr_next_rs_id m \<le> kMaxRsCounters"

definition proc_ok :: "('h, 'n) lb_env \<Rightarrow> 'n dataplane \<Rightarrow> manager \<Rightarrow> 'h proc \<Rightarrow> bool" where
  "proc_ok env dp m p \<longleftrightarrow> worker_ok env dp (pr_snap p) (pr_w p) \<and> snap_ok env m (pr_snap p)"

text \<open>A verdict is well formed: a packet is redirected to another worker, and only once; a drop has a
  drop counter as its reason.\<close>

definition result_ok :: "'n dataplane \<Rightarrow> nat \<Rightarrow> bool \<Rightarrow> result \<Rightarrow> bool" where
  "result_ok dp idx redirected r \<longleftrightarrow>
     (case res_verdict r of
        REDIRECT \<Rightarrow> \<not> redirected \<and> res_target r < str_n (dp_steering dp) \<and> res_target r \<noteq> idx
      | DROP \<Rightarrow> res_reason r \<in> set drop_stats
      | _ \<Rightarrow> True)"

text \<open>What the packet path assumes of DPDK and of the set-up at start.\<close>

locale balancer =
  fixes env :: "('h, 'n) lb_env" and dp :: "'n dataplane"
  assumes sess_ops: "rte_hash (env_sess env)" and neigh_ops: "rte_hash (env_neigh env)" and mbuf_ops: "pktmbuf (env_mbuf env)"
    and steering: "steering_ok (dp_steering dp)" "str_n (dp_steering dp) \<le> kNatPortMax - kNatPortMin + 1"
    and local_mac: "length (dp_local_mac dp) = 6" and mtu: "dp_mtu dp \<le> 65521"
    and neighbours: "neigh_ok (env_neigh env) (dp_neigh dp)"
begin

lemma okD:
  assumes "proc_ok env dp m p"
  shows "table_ok env dp (w_idx (pr_w p)) (pr_snap p) (w_now_tick (pr_w p)) (pr_sessions p)" "st_good (env_sess env) (w_now_tick (pr_w p)) (pr_sessions p)"
    "in_horizon (pr_sessions p) (w_now_tick (pr_w p)) (state_timeout st (lb_timeouts (dp_cfg dp)))"
    "conn (pr_sessions p) i = Some s \<Longrightarrow> sess_ok env dp (w_idx (pr_w p)) (pr_snap p) s" "length (w_rs_stats (pr_w p)) = kMaxRsCounters"
    "snap_ok env m (pr_snap p)" "w_idx (pr_w p) < str_n (dp_steering dp)"
  using assms by (auto simp: proc_ok_def worker_ok_def table_ok_def)

lemma ok_keep:
  assumes "proc_ok env dp m p" "pr_w p' = pr_w p" "pr_snap p' = pr_snap p"
  shows "proc_ok env dp m p'"
  using assms by (simp add: proc_ok_def)

lemma event_ok [simp]: "proc_ok env dp m (post_master_event ev p) = proc_ok env dp m p"
  by (simp add: proc_ok_def post_master_event_def)

lemma packet_ok [simp]: "proc_ok env dp m (p\<lparr>pr_m := x\<rparr>) = proc_ok env dp m p"
  by (simp add: proc_ok_def)

lemma count_ok [simp]:
  "i \<notin> {ST_SESS_NEW, ST_SESS_EXPIRED, ST_SESS_CLOSED} \<Longrightarrow> proc_ok env dp m (count i p) = proc_ok env dp m p"
  by (auto simp: proc_ok_def count_def worker_ok_def)

lemma count_bytes_ok [simp]: "proc_ok env dp m (count_bytes i n p) = proc_ok env dp m p"
  by (simp add: proc_ok_def count_bytes_def worker_ok_def)

lemma rs_count_ok:
  assumes "proc_ok env dp m p" "i < kMaxRsCounters"
  obtains p' where "rs_count i f p = Some p'" "proc_ok env dp m p'" "pr_sessions p' = pr_sessions p" "pr_snap p' = pr_snap p"
    "pr_m p' = pr_m p" "pr_events p' = pr_events p" "w_idx (pr_w p') = w_idx (pr_w p)" "w_now_tick (pr_w p') = w_now_tick (pr_w p)"
proof (rule that)
  let ?p = "p\<lparr>pr_w := (pr_w p)\<lparr>w_rs_stats := (w_rs_stats (pr_w p))[i := f (w_rs_stats (pr_w p) ! i)]\<rparr>\<rparr>"
  show "rs_count i f p = Some ?p" using assms(2) okD(5) [OF assms(1)] by (simp add: rs_count_def)
  show "proc_ok env dp m ?p" using assms(1) by (simp add: proc_ok_def worker_ok_def)
qed simp_all

text \<open>Changing one session in place.\<close>

lemma session_update_ok:
  assumes "proc_ok env dp m p" "conn (pr_sessions p) i = Some s"
    "st_good (env_sess env) (w_now_tick (pr_w p)) (f (pr_sessions p))" "conn (f (pr_sessions p)) = (conn (pr_sessions p))(i \<mapsto> s')"
    "cur_tick (f (pr_sessions p)) = cur_tick (pr_sessions p)" "sess_ok env dp (w_idx (pr_w p)) (pr_snap p) s'"
  shows "proc_ok env dp m (on_sessions f p)" "conn (pr_sessions (on_sessions f p)) i = Some s'"
proof -
  have "insert i (dom (conn (pr_sessions p))) = dom (conn (pr_sessions p))" using assms(2) by auto
  then show "proc_ok env dp m (on_sessions f p)"
    using assms by (auto simp: proc_ok_def worker_ok_def table_ok_def on_sessions_def in_horizon_def)
  show "conn (pr_sessions (on_sessions f p)) i = Some s'" using assms(4) by (simp add: on_sessions_def)
qed

lemma modify_ok:
  assumes "proc_ok env dp m p" "conn (pr_sessions p) i = Some s"
    "\<And>x. wheel_view (f x) = wheel_view x" "\<And>x. core (f x) = f (core x)" "sess_ok env dp (w_idx (pr_w p)) (pr_snap p) (f s)"
  shows "proc_ok env dp m (on_sessions (modify i f) p)" "conn (pr_sessions (on_sessions (modify i f) p)) i = Some (f s)"
  using session_update_ok [where f = "modify i f", OF assms(1,2) modify_conn(1-3) [OF okD(2) [OF assms(1)] assms(2-4)] assms(5)]
  by simp_all

lemma touch_ok:
  assumes "proc_ok env dp m p" "conn (pr_sessions p) i = Some s"
  shows "proc_ok env dp m (on_sessions (\<lambda>t. st_touch t i (w_now_tick (pr_w p)) (state_timeout st (lb_timeouts (dp_cfg dp)))) p)"
    "\<exists>e. conn (pr_sessions (on_sessions (\<lambda>t. st_touch t i (w_now_tick (pr_w p)) (state_timeout st (lb_timeouts (dp_cfg dp)))) p)) i =
      Some (s\<lparr>expire_tick := e\<rparr>)"
proof -
  have "sess_ok env dp (w_idx (pr_w p)) (pr_snap p) (s\<lparr>expire_tick := e\<rparr>)" for e
    using okD(4) [OF assms] by (simp add: sess_ok_def ident_def is_fullnat_def)
  note t = session_update_ok [where f = "\<lambda>t. st_touch t i (w_now_tick (pr_w p)) (state_timeout st (lb_timeouts (dp_cfg dp)))",
      OF assms touch_conn(1-3) [OF okD(2) [OF assms(1)] assms(2) okD(3) [OF assms(1)]] this]
  show "proc_ok env dp m (on_sessions (\<lambda>t. st_touch t i (w_now_tick (pr_w p)) (state_timeout st (lb_timeouts (dp_cfg dp)))) p)"
    by (rule t(1))
  show "\<exists>e. conn (pr_sessions (on_sessions (\<lambda>t. st_touch t i (w_now_tick (pr_w p)) (state_timeout st (lb_timeouts (dp_cfg dp)))) p)) i =
      Some (s\<lparr>expire_tick := e\<rparr>)"
    using t(2) by blast
qed

lemma close_ok:
  assumes "proc_ok env dp m p" "conn (pr_sessions p) i = Some s"
  shows "proc_ok env dp m (close_session env i p)"
    "conn (pr_sessions (close_session env i p)) = (conn (pr_sessions p))(i := None)"
proof -
  note r = remove_conn [OF sess_ops okD(2) [OF assms(1)] assms(2)]
  show c: "conn (pr_sessions (close_session env i p)) = (conn (pr_sessions p))(i := None)"
    by (simp add: close_session_def r(2))
  have fin: "finite (dom (conn (pr_sessions p)))" by (simp add: dom_conn active_set_def active_finite)
  have "i \<in> dom (conn (pr_sessions p))" using assms(2) by auto
  then have "word_of_nat (card (dom (conn (pr_sessions p)))) = word_of_nat (card (dom (conn (pr_sessions p)) - {i})) + (1 :: u64)"
    using card_Suc_Diff1 [OF fin] by (metis add.commute of_nat_Suc)
  then show "proc_ok env dp m (close_session env i p)"
    using assms(1) r by (auto simp: proc_ok_def worker_ok_def table_ok_def close_session_def count_def on_sessions_def in_horizon_def)
qed

lemma lookup_ok:
  assumes "proc_ok env dp m p"
  shows "st_lookup (env_sess env) (pr_sessions p) k = Some i \<longleftrightarrow> (\<exists>s. conn (pr_sessions p) i = Some s \<and> has_key s k)"
  using lookup_conn [OF okD(2) [OF assms]] .

lemma conn_sess:
  assumes "conn t i = Some s"
  shows "client (sess t i) = client s" "server (sess t i) = server s" "rs_id (sess t i) = rs_id s" "sstate (sess t i) = sstate s"
    "flags (sess t i) = flags s" "is_fullnat (sess t i) = is_fullnat s"
    "rs_mac (sess t i) = rs_mac s" "rs_mac_gen (sess t i) = rs_mac_gen s" "cli_mac (sess t i) = cli_mac s"
    "cli_mac_gen (sess t i) = cli_mac_gen s" "cli_src_mac (sess t i) = cli_src_mac s" "fin_seen (sess t i) = fin_seen s"
  using assms by (auto simp: conn_def core_def is_fullnat_def split: if_splits)

section \<open>Resolving MAC addresses\<close>

lemma resolve_mac_keeps:
  assumes "resolve_mac env dp hop cache fallback p = (r, cache', p')" "length (fst cache) = 6" "length fallback = 6"
  shows "pr_w p' = pr_w p \<and> pr_snap p' = pr_snap p \<and> pr_m p' = pr_m p \<and> length (fst cache') = 6 \<and>
    (\<forall>mac. r = Some mac \<longrightarrow> length mac = 6)"
proof -
  have "length mac = 6" if "neigh_lookup (env_neigh env) (dp_neigh dp) ip = Some mac" for ip mac
    using lookup_length [OF neighbours that] .
  then show ?thesis using assms by (auto simp: resolve_mac_def Let_def split: if_splits option.splits)
qed

lemma resolve_rs_ok:
  assumes "proc_ok env dp m p" "conn (pr_sessions p) i = Some s" "length (rst_mac rs) = 6" "resolve_rs_mac env dp i rs p = (r, p')"
  shows "proc_ok env dp m p'" "\<exists>a g. conn (pr_sessions p') i = Some (s\<lparr>rs_mac := a, rs_mac_gen := g\<rparr>)"
    "pr_snap p' = pr_snap p" "pr_m p' = pr_m p" "w_idx (pr_w p') = w_idx (pr_w p)" "r = Some mac \<Longrightarrow> length mac = 6"
proof -
  have *: "proc_ok env dp m p' \<and> (\<exists>a g. conn (pr_sessions p') i = Some (s\<lparr>rs_mac := a, rs_mac_gen := g\<rparr>)) \<and>
    pr_snap p' = pr_snap p \<and> pr_m p' = pr_m p \<and> w_idx (pr_w p') = w_idx (pr_w p) \<and> (\<forall>mac. r = Some mac \<longrightarrow> length mac = 6)"
  proof (cases "mac_is_zero (rst_mac rs)")
    case False
    have "\<exists>a g. s = s\<lparr>rs_mac := a, rs_mac_gen := g\<rparr>" by (intro exI [of _ "rs_mac s"] exI [of _ "rs_mac_gen s"]) simp
    then show ?thesis
      using assms False by (auto simp: resolve_rs_mac_def)
  next
    case True
    obtain r1 c1 p1 where r: "resolve_mac env dp (next_hop (dp_route dp) (rst_ip rs))
        (rs_mac (sess (pr_sessions p) i), rs_mac_gen (sess (pr_sessions p) i)) mac_zero p = (r1, c1, p1)"
      by (metis prod_cases3)
    let ?f = "\<lambda>s. s\<lparr>rs_mac := fst c1, rs_mac_gen := snd c1\<rparr>"
    have p': "p' = on_sessions (modify i ?f) p1" "r = r1" using assms(4) True r by (simp_all add: resolve_rs_mac_def)
    have so: "sess_ok env dp (w_idx (pr_w p)) (pr_snap p) s" using okD(4) [OF assms(1,2)] .
    have k: "pr_w p1 = pr_w p \<and> pr_snap p1 = pr_snap p \<and> pr_m p1 = pr_m p \<and> length (fst c1) = 6 \<and> (\<forall>mac. r1 = Some mac \<longrightarrow> length mac = 6)"
      using resolve_mac_keeps [OF r] so by (simp add: conn_sess [OF assms(2)] sess_ok_def mac_zero_def)
    have "proc_ok env dp m p1" using ok_keep [OF assms(1)] k by simp
    from modify_ok [OF this, of i s ?f] show ?thesis
      unfolding p' using assms(2) k so by (auto simp: wheel_view_def is_fullnat_def core_def sess_ok_def ident_def)
  qed
  from * show "proc_ok env dp m p'" "\<exists>a g. conn (pr_sessions p') i = Some (s\<lparr>rs_mac := a, rs_mac_gen := g\<rparr>)"
    "pr_snap p' = pr_snap p" "pr_m p' = pr_m p" "w_idx (pr_w p') = w_idx (pr_w p)" "r = Some mac \<Longrightarrow> length mac = 6"
    by blast+
qed

lemma resolve_client_ok:
  assumes "proc_ok env dp m p" "conn (pr_sessions p) i = Some s" "resolve_client_mac env dp i p = (r, p')"
  shows "proc_ok env dp m p'" "\<exists>a g. conn (pr_sessions p') i = Some (s\<lparr>cli_mac := a, cli_mac_gen := g\<rparr>)"
    "pr_snap p' = pr_snap p" "pr_m p' = pr_m p" "w_idx (pr_w p') = w_idx (pr_w p)" "r = Some mac \<Longrightarrow> length mac = 6"
proof -
  let ?fb = "if on_link (dp_route dp) (src_ip (client s)) then cli_src_mac s else mac_zero"
  obtain r1 c1 p1 where r: "resolve_mac env dp (next_hop (dp_route dp) (src_ip (client s))) (cli_mac s, cli_mac_gen s) ?fb p = (r1, c1, p1)"
    by (metis prod_cases3)
  let ?f = "\<lambda>s. s\<lparr>cli_mac := fst c1, cli_mac_gen := snd c1\<rparr>"
  have p': "p' = on_sessions (modify i ?f) p1" "r = r1"
    using assms(3) r by (simp_all add: resolve_client_mac_def Let_def conn_sess [OF assms(2)] cong: if_cong)
  have so: "sess_ok env dp (w_idx (pr_w p)) (pr_snap p) s" using okD(4) [OF assms(1,2)] .
  have k: "pr_w p1 = pr_w p \<and> pr_snap p1 = pr_snap p \<and> pr_m p1 = pr_m p \<and> length (fst c1) = 6 \<and> (\<forall>mac. r1 = Some mac \<longrightarrow> length mac = 6)"
    using resolve_mac_keeps [OF r] so by (simp add: sess_ok_def mac_zero_def)
  have "proc_ok env dp m p1" using ok_keep [OF assms(1)] k by simp
  note mo = modify_ok [OF this, of i s ?f]
  show "proc_ok env dp m p'" "\<exists>a g. conn (pr_sessions p') i = Some (s\<lparr>cli_mac := a, cli_mac_gen := g\<rparr>)"
    "pr_snap p' = pr_snap p" "pr_m p' = pr_m p" "w_idx (pr_w p') = w_idx (pr_w p)" "r = Some mac \<Longrightarrow> length mac = 6"
    unfolding p' using mo assms(2) k so by (auto simp: wheel_view_def is_fullnat_def core_def sess_ok_def ident_def)
qed

end

section \<open>A balancer that has started\<close>

text \<open>The reference implementations of the DPDK operations, with any hash functions, and the global state
  after start with software steering: any configuration, route, MAC address and number of workers up to the
  number of lcores DPDK supports.\<close>

definition ref_env :: "hash_env \<Rightarrow> rss_ops \<Rightarrow> ((five_tuple, nat) bounded_hash, (ipv4_addr, u64) bounded_hash) lb_env" where
  "ref_env he rss =
     \<lparr>env_hash = he, env_rss = rss, env_sess = bounded_ops, env_neigh = bounded_ops, env_mbuf = tail_ops,
      pktmbuf_pkt_len = \<lambda>m. word_of_nat (length (mb_data m)), RX_IP_CKSUM_MASK = 0x90, RX_IP_CKSUM_BAD = 0x10,
      RX_L4_CKSUM_MASK = 0x108, RX_L4_CKSUM_BAD = 0x8, RX_RSS_HASH = 0x2\<rparr>"

definition ref_dp :: "lb_config \<Rightarrow> route \<Rightarrow> u8 \<times> u8 \<times> u8 \<times> u8 \<times> u8 \<times> u8 \<Rightarrow> nat \<Rightarrow> (ipv4_addr, u64) bounded_hash dataplane" where
  "ref_dp cfg rt mac workers =
     \<lparr>dp_local_mac = (case mac of (a, b, c, d, e, f) \<Rightarrow> [a, b, c, d, e, f]), dp_tx_offloads = 0, dp_mtu = 1500, dp_cfg = cfg,
      dp_steering = init_sw (min workers 128) steering_zero, dp_route = rt, dp_neigh = the (neigh_init bounded_ops True)\<rparr>"

interpretation started: balancer "ref_env he rss" "ref_dp cfg rt mac workers"
proof (rule balancer.intro, goal_cases)
  case 4
  show ?case by (simp add: ref_dp_def init_sw_ok steering_zero_ok)
qed (auto simp: ref_env_def ref_dp_def bounded.rte_hash_axioms tail.pktmbuf_axioms init_sw_def kNatPortMax_def kNatPortMin_def
  demo_neigh_init bounded_neigh.init_ok [OF demo_neigh_init] split: prod.splits)

end
