(* ===== verification/Processor_Steps.thy ===== *)
theory Processor_Steps
  imports Processor_Inv
begin

text \<open>
  What the steps of a packet keep: the state update of a session, the forwarding
  counters, and the lookups in the published snapshot.
\<close>

context balancer
begin

lemma update_state_ok:
  assumes "proc_ok env dp m p" "conn (pr_sessions p) i = Some s"
  shows "proc_ok env dp m (update_state dp i fg d p)"
    "\<exists>s'. conn (pr_sessions (update_state dp i fg d p)) i = Some s' \<and> ident s' = ident s \<and> flags s' = flags s"
    "pr_snap (update_state dp i fg d p) = pr_snap p" "pr_m (update_state dp i fg d p) = pr_m p"
    "w_idx (pr_w (update_state dp i fg d p)) = w_idx (pr_w p)"
proof -
  define f where "f s = (if sstate s \<noteq> UDP
      then (let (st, fin) = tcp_next_state (sstate s) fg d (fin_seen s) in s\<lparr>sstate := st, fin_seen := fin\<rparr>) else s)" for s :: session
  let ?p = "on_sessions (modify i f) p"
  have f: "wheel_view (f x) = wheel_view x" "core (f x) = f (core x)" "sess_ok env dp idx snap (f x) = sess_ok env dp idx snap x" "ident (f x) = ident x"
      "flags (f x) = flags x" for x idx snap
    by (simp_all add: f_def wheel_view_def core_def sess_ok_def ident_def is_fullnat_def split: prod.splits)
  note mo = modify_ok [OF assms f(1,2), unfolded f(3), OF okD(4) [OF assms]]
  define st where "st = sstate (sess (pr_sessions ?p) i)"
  have u: "update_state dp i fg d p =
      on_sessions (\<lambda>t. st_touch t i (w_now_tick (pr_w ?p)) (state_timeout st (lb_timeouts (dp_cfg dp)))) ?p"
    by (simp add: update_state_def Let_def on_sessions_def st_def f_def [abs_def])
  note t = touch_ok [OF mo, of st]
  show "proc_ok env dp m (update_state dp i fg d p)" unfolding u by (rule t(1))
  show "\<exists>s'. conn (pr_sessions (update_state dp i fg d p)) i = Some s' \<and> ident s' = ident s \<and> flags s' = flags s"
    unfolding u using t(2) f(4,5) [of s] by (auto simp: ident_def is_fullnat_def)
qed (simp_all add: update_state_def Let_def)

lemma count_fwd_ok:
  assumes "proc_ok env dp m p" "conn (pr_sessions p) i = Some s"
  shows "\<exists>p'. count_fwd_in env i p = Some p' \<and> proc_ok env dp m p' \<and> pr_sessions p' = pr_sessions p \<and> pr_m p' = pr_m p \<and>
      pr_snap p' = pr_snap p \<and> w_idx (pr_w p') = w_idx (pr_w p)"
    and "\<exists>p'. count_fwd_out env i p = Some p' \<and> proc_ok env dp m p' \<and> pr_sessions p' = pr_sessions p \<and> pr_m p' = pr_m p \<and>
      pr_snap p' = pr_snap p \<and> w_idx (pr_w p') = w_idx (pr_w p)"
proof -
  have r: "rs_id (sess (pr_sessions p) i) < kMaxRsCounters"
    using okD(4) [OF assms] by (simp add: conn_sess [OF assms(2)] sess_ok_def)
  have "\<exists>p'. rs_count (rs_id (sess (pr_sessions p) i)) f (count_bytes b n (count c p)) = Some p' \<and> proc_ok env dp m p' \<and>
      pr_sessions p' = pr_sessions p \<and> pr_m p' = pr_m p \<and> pr_snap p' = pr_snap p \<and> w_idx (pr_w p') = w_idx (pr_w p)"
    if "c \<in> {ST_FWD_IN, ST_FWD_OUT}" for f b n c
  proof -
    have "proc_ok env dp m (count_bytes b n (count c p))" using assms(1) that by auto
    from rs_count_ok [OF this r, of f] show ?thesis by (metis count_sel(1-3,5) count_bytes_sel(1-3,5))
  qed
  then show "\<exists>p'. count_fwd_in env i p = Some p' \<and> proc_ok env dp m p' \<and> pr_sessions p' = pr_sessions p \<and> pr_m p' = pr_m p \<and>
      pr_snap p' = pr_snap p \<and> w_idx (pr_w p') = w_idx (pr_w p)"
    "\<exists>p'. count_fwd_out env i p = Some p' \<and> proc_ok env dp m p' \<and> pr_sessions p' = pr_sessions p \<and> pr_m p' = pr_m p \<and>
      pr_snap p' = pr_snap p \<and> w_idx (pr_w p') = w_idx (pr_w p)"
    by (simp_all add: count_fwd_in_def count_fwd_out_def Let_def)
qed

lemma snap_rs_ok:
  assumes "snap_ok env m snap" "snap_rs snap i = Some rs"
  shows "rst_id rs = i" "i < kMaxRsCounters" "length (rst_mac rs) = 6"
proof -
  have s: "snap_of (env_hash env) m snap" "mgr_fits m" "macs_ok m" "mgr_next_rs_id m \<le> kMaxRsCounters"
    using assms(1) by (auto simp: snap_ok_def)
  obtain k dr where k: "k < length (mgr_services m)" "dr \<in> set (ds_rs (mgr_services m ! k))" "dr_id dr = i" "rs = rs_of k dr"
    using assms(2) unfolding snap_rs_exact [OF s(1,2)] by blast
  show "rst_id rs = i" using k by (simp add: rs_of_def)
  have "i \<in> set (ids_of (mgr_services m))" using k by (auto simp: ids_of_def)
  then show "i < kMaxRsCounters" using s(2,4) by (auto simp: mgr_fits_def list_all_iff)
  show "length (rst_mac rs) = 6" using k s(3) by (auto simp: macs_ok_def list_all_iff rs_of_def)
qed

lemma snap_answers:
  assumes "snap_ok env m snap"
  shows "\<exists>b. is_vip (env_hash env) snap ip = Some b" "\<exists>b. is_lip (env_hash env) snap ip = Some b"
    "\<exists>b. is_local (env_hash env) snap ip = Some b"
    "\<exists>r. find_service (env_hash env) snap ip port proto = Some r \<and> (\<forall>k. r = Some k \<longrightarrow> k < length (snap_services snap) \<and> svc_key (snap_services snap ! k) = (ip, port, proto))"
proof -
  have s: "snap_of (env_hash env) m snap" using assms by (simp add: snap_ok_def)
  have t: "\<forall>xs \<in> {snap_vips snap, snap_lips snap, snap_locals snap}. addrs.good (env_hash env) xs \<and> addrs.occupied xs < kSlots"
    using s unfolding snap_of_def by blast
  have "\<exists>b. set_has (env_hash env) xs ip = Some b" if "xs \<in> {snap_vips snap, snap_lips snap, snap_locals snap}" for xs
    using bspec [OF t that] set_has_zero [of xs "env_hash env"] set_has_exact [of "env_hash env" xs ip]
    by (cases "ip = 0") (auto simp: addrs.good_def)
  then show "\<exists>b. is_vip (env_hash env) snap ip = Some b" "\<exists>b. is_lip (env_hash env) snap ip = Some b"
    "\<exists>b. is_local (env_hash env) snap ip = Some b"
    by (simp_all add: is_vip_def is_lip_def is_local_def)
  have "svcs.good (env_hash env) (snap_services snap) (snap_svc_slots snap)"
    "svcs.stored (snap_svc_slots snap) = int ` {..<length (snap_services snap)}" "svcs.occupied (snap_svc_slots snap) < kSlots"
    using s unfolding snap_of_def by blast+
  then have "\<exists>r. find_service (env_hash env) snap ip port proto = Some r \<and>
    (case r of None \<Rightarrow> \<forall>s\<in>set (snap_services snap). \<not> (sv_vip s = ip \<and> sv_port_be s = port \<and> sv_proto s = proto)
     | Some i \<Rightarrow> i < length (snap_services snap) \<and> sv_vip (snap_services snap ! i) = ip \<and>
         sv_port_be (snap_services snap ! i) = port \<and> sv_proto (snap_services snap ! i) = proto)"
    by (rule find_service_exact)
  then obtain r where r: "find_service (env_hash env) snap ip port proto = Some r"
    "case r of None \<Rightarrow> True | Some i \<Rightarrow> i < length (snap_services snap) \<and> svc_key (snap_services snap ! i) = (ip, port, proto)"
    by (auto simp: svc_key_def split: option.splits)
  then show "\<exists>r. find_service (env_hash env) snap ip port proto = Some r \<and> (\<forall>k. r = Some k \<longrightarrow> k < length (snap_services snap) \<and> svc_key (snap_services snap ! k) = (ip, port, proto))"
    by (cases r) auto
qed

end

end
