(* ===== verification/Fullnat.thy ===== *)
theory Fullnat
  imports Processor_Steps
begin

text \<open>
  New sessions in FULLNAT mode: the port that \<^verbatim>\<open>create_fullnat\<close> picks lies in the range, is free, and makes the
  worker that creates the session the owner of the packets that come back.
\<close>

section \<open>The candidate ports\<close>

lemma snat_port_range:
  assumes "0 < step" "step \<le> kNatPortMax - kNatPortMin + 1" "k < (kNatPortMax - kNatPortMin + 1) div step"
  shows "kNatPortMin \<le> snat_port idx step k" "snat_port idx step k \<le> kNatPortMax"
    "snat_port idx step k = kNatPortMin + k * step + (if step > 1 then (idx + step - kNatPortMin mod step) mod step else 0)"
proof -
  let ?off = "if step > 1 then (idx + step - kNatPortMin mod step) mod step else 0"
  have off: "?off < step" using assms(1) by simp
  have "Suc k * step \<le> (50001 div step) * step"
    using assms(3) by (intro mult_le_mono1) (simp add: kNatPortMin_def kNatPortMax_def)
  also have "\<dots> \<le> 50001" by simp
  finally have b: "kNatPortMin + k * step + ?off \<le> kNatPortMax" using off by (simp add: kNatPortMin_def kNatPortMax_def)
  then have "kNatPortMin + k * step + ?off < 65536" by (simp add: kNatPortMax_def)
  then show s: "snat_port idx step k = kNatPortMin + k * step + ?off" unfolding snat_port_def by (rule mod_less)
  show "kNatPortMin \<le> snat_port idx step k" unfolding s by simp
  show "snat_port idx step k \<le> kNatPortMax" unfolding s by (rule b)
qed

lemma snat_port_owner:
  assumes "0 < step" "step \<le> kNatPortMax - kNatPortMin + 1" "k < (kNatPortMax - kNatPortMin + 1) div step" "idx < step"
  shows "snat_port idx step k mod step = idx"
proof (cases "step = 1")
  case False
  let ?r = "kNatPortMin mod step"
  have r: "?r < step" using assms(1) by simp
  have "snat_port idx step k = kNatPortMin + k * step + (idx + step - ?r) mod step"
    using snat_port_range(3) [OF assms(1-3), of idx] False assms(1) by simp
  then have "snat_port idx step k mod step = (kNatPortMin + k * step + (idx + step - ?r)) mod step"
    by (simp add: mod_add_right_eq)
  also have "\<dots> = (?r + (idx + step - ?r)) mod step" by (metis mod_add_left_eq mod_mult_self1)
  also have "?r + (idx + step - ?r) = idx + step" using r by simp
  finally show ?thesis using assms(4) by simp
qed (use assms(4) in simp)

section \<open>The loops\<close>

text \<open>What probing leaves alone.\<close>

definition rest_same :: "'h worker \<Rightarrow> 'h worker \<Rightarrow> bool" where
  "rest_same w w' \<longleftrightarrow> w_idx w' = w_idx w \<and> w_stats w' = w_stats w \<and> w_rs_stats w' = w_rs_stats w \<and> w_now_tick w' = w_now_tick w"

definition fullnat_ok ::
  "('h, 'n) lb_env \<Rightarrow> 'n dataplane \<Rightarrow> snapshot \<Rightarrow> five_tuple \<Rightarrow> rs_state \<Rightarrow> nat \<Rightarrow> 'h worker \<Rightarrow> 'h fullnat \<Rightarrow> bool" where
  "fullnat_ok env dp snap cli rs timeout w r \<longleftrightarrow>
     (case r of
        No_Port w' \<Rightarrow> rest_same w w' \<and> w_sessions w' = w_sessions w \<and> length (w_lip_cursor w') = length (w_lip_cursor w)
      | Table_Full w' \<Rightarrow> rest_same w w' \<and> (\<exists>srv. st_lookup (env_sess env) (w_sessions w) srv = None \<and>
          st_create (env_sess env) (w_sessions w) cli (Some srv) (w_now_tick w) timeout = (w_sessions w', None))
      | Found w' i \<Rightarrow> rest_same w w' \<and> (\<exists>srv. st_lookup (env_sess env) (w_sessions w) srv = None \<and>
          server_of rs srv \<and> nat_server env dp snap (protocol cli) (w_idx w) srv \<and>
          st_create (env_sess env) (w_sessions w) cli (Some srv) (w_now_tick w) timeout = (w_sessions w', Some i)))"

lemma fullnat_ok_step:
  assumes "rest_same w w'" "w_sessions w' = w_sessions w" "length (w_lip_cursor w') = length (w_lip_cursor w)"
    "fullnat_ok env dp snap cli rs timeout w' r"
  shows "fullnat_ok env dp snap cli rs timeout w r"
  using assms by (auto simp: fullnat_ok_def rest_same_def split: fullnat.splits)

definition table_shape :: "('h, 'n) lb_env \<Rightarrow> 'n dataplane \<Rightarrow> nat \<Rightarrow> 'h session_table \<Rightarrow> bool" where
  "table_shape env dp now t \<longleftrightarrow> st_good (env_sess env) now t \<and>
     (\<forall>st. in_horizon t now (state_timeout st (lb_timeouts (dp_cfg dp))))"

context balancer
begin

lemma port_step_pos:
  "0 < port_step (dp_steering dp) proto" "port_step (dp_steering dp) proto \<le> kNatPortMax - kNatPortMin + 1"
  using steering by (simp_all add: port_step_def steering_ok_def)

lemma candidate_server:
  assumes "k < (kNatPortMax - kNatPortMin + 1) div port_step (dp_steering dp) proto" "idx < str_n (dp_steering dp)"
    "li < length (snap_local_ips snap)"
    "srv = FiveTuple (rst_ip rs) (snap_local_ips snap ! li) (rst_port_be rs)
       (htons (word_of_nat (snat_port idx (port_step (dp_steering dp) proto) k))) proto"
    "\<not> (ret_by_rss (dp_steering dp) proto \<and> ret_owner (env_rss env) (dp_steering dp) srv \<noteq> idx)"
  shows "server_of rs srv" "nat_server env dp snap proto idx srv"
proof -
  let ?p = "snat_port idx (port_step (dp_steering dp) proto) k"
  note r = snat_port_range [OF port_step_pos assms(1), of idx]
  have "?p < 65536" using r(2) by (simp add: kNatPortMax_def)
  then have p: "unat (ntohs (dst_port srv)) = ?p"
    using assms(4) by (simp add: unat_of_nat take_bit_nat_eq_self)
  have "ret_owner (env_rss env) (dp_steering dp) srv = idx"
  proof (cases "ret_by_rss (dp_steering dp) proto")
    case False
    then have "port_step (dp_steering dp) proto = str_n (dp_steering dp)" by (simp add: port_step_def)
    then have "?p mod str_n (dp_steering dp) = idx"
      using snat_port_owner [OF port_step_pos assms(1)] assms(2) by simp
    then show ?thesis using False assms(2,4) p by (simp add: ret_owner_def)
  qed (use assms(5) in simp)
  then show "server_of rs srv" "nat_server env dp snap proto idx srv"
    using assms(3,4) r p by (simp_all add: server_of_def nat_server_def in_nat_range_def)
qed

text \<open>One probe.\<close>

lemma probe_step:
  assumes "k = unat (w_lip_cursor w ! li) mod ((kNatPortMax - kNatPortMin + 1) div port_step (dp_steering dp) (protocol cli))"
    "w1 = w\<lparr>w_lip_cursor := (w_lip_cursor w)[li := w_lip_cursor w ! li + 1]\<rparr>"
    "srv = FiveTuple (rst_ip rs) (snap_local_ips snap ! li) (rst_port_be rs)
       (htons (word_of_nat (snat_port (w_idx w) (port_step (dp_steering dp) (protocol cli)) k))) (protocol cli)"
  shows "fullnat_probe env dp snap cli rs timeout li (Suc n) w =
     (if snat_port (w_idx w) (port_step (dp_steering dp) (protocol cli)) k > kNatPortMax then fullnat_probe env dp snap cli rs timeout li n w1
      else if ret_by_rss (dp_steering dp) (protocol cli) \<and> ret_owner (env_rss env) (dp_steering dp) srv \<noteq> w_idx w
        then fullnat_probe env dp snap cli rs timeout li n w1
      else if key_in_use (env_sess env) (w_sessions w) srv then fullnat_probe env dp snap cli rs timeout li n w1
      else case st_create (env_sess env) (w_sessions w) cli (Some srv) (w_now_tick w) timeout of
             (t, None) \<Rightarrow> Table_Full (w1\<lparr>w_sessions := t\<rparr>)
           | (t, Some si) \<Rightarrow> Found (w1\<lparr>w_sessions := t, w_lip_rr := word_of_nat (li + 1)\<rparr>) si)"
  by (simp add: Let_def assms)

lemma probe_ok:
  assumes "w_idx w < str_n (dp_steering dp)" "li < length (snap_local_ips snap)"
  shows "fullnat_ok env dp snap cli rs timeout w (fullnat_probe env dp snap cli rs timeout li n w)"
  using assms
proof (induction n arbitrary: w)
  case 0
  show ?case by (simp add: fullnat_ok_def rest_same_def)
next
  case (Suc n)
  let ?step = "port_step (dp_steering dp) (protocol cli)"
  define k where "k = unat (w_lip_cursor w ! li) mod ((kNatPortMax - kNatPortMin + 1) div ?step)"
  define w1 where "w1 = w\<lparr>w_lip_cursor := (w_lip_cursor w)[li := w_lip_cursor w ! li + 1]\<rparr>"
  define srv where "srv = FiveTuple (rst_ip rs) (snap_local_ips snap ! li) (rst_port_be rs)
    (htons (word_of_nat (snat_port (w_idx w) ?step k))) (protocol cli)"
  have kb: "k < (kNatPortMax - kNatPortMin + 1) div ?step"
    unfolding k_def using port_step_pos [of "protocol cli"] by (intro mod_less_divisor) (simp add: div_greater_zero_iff)
  have w1: "rest_same w w1" "w_sessions w1 = w_sessions w" "length (w_lip_cursor w1) = length (w_lip_cursor w)" "w_idx w1 = w_idx w"
      "w_now_tick w1 = w_now_tick w"
    by (simp_all add: w1_def rest_same_def)
  have next_ok: "fullnat_ok env dp snap cli rs timeout w (fullnat_probe env dp snap cli rs timeout li n w1)"
    using fullnat_ok_step [OF w1(1-3) Suc.IH] Suc.prems w1(4) by simp
  note un = probe_step [OF k_def w1_def srv_def, of timeout n]
  have "fullnat_ok env dp snap cli rs timeout w (case st_create (env_sess env) (w_sessions w) cli (Some srv) (w_now_tick w) timeout of
             (t, None) \<Rightarrow> Table_Full (w1\<lparr>w_sessions := t\<rparr>)
           | (t, Some si) \<Rightarrow> Found (w1\<lparr>w_sessions := t, w_lip_rr := word_of_nat (li + 1)\<rparr>) si)"
    if "\<not> (ret_by_rss (dp_steering dp) (protocol cli) \<and> ret_owner (env_rss env) (dp_steering dp) srv \<noteq> w_idx w)"
      "\<not> key_in_use (env_sess env) (w_sessions w) srv"
    using candidate_server [OF kb Suc.prems srv_def that(1)] that(2) w1
    by (auto simp: fullnat_ok_def rest_same_def key_in_use_def split: prod.splits option.splits)
  with next_ok show ?case unfolding un by presburger
qed

lemma lips_ok:
  assumes "w_idx w < str_n (dp_steering dp)" "snap_local_ips snap \<noteq> []"
  shows "fullnat_ok env dp snap cli rs timeout w (fullnat_lips env dp snap cli rs timeout rr n w)"
  using assms
proof (induction n arbitrary: w)
  case 0
  show ?case by (simp add: fullnat_ok_def rest_same_def)
next
  case (Suc n)
  define li where "li = (rr + (length (snap_local_ips snap) - Suc n)) mod length (snap_local_ips snap)"
  define probes where "probes = (if ret_by_rss (dp_steering dp) (protocol cli) then 64 * str_n (dp_steering dp) else 64)"
  have "li < length (snap_local_ips snap)" using Suc.prems by (simp add: li_def)
  from probe_ok [OF Suc.prems(1) this, of cli rs timeout probes]
  have p: "fullnat_ok env dp snap cli rs timeout w (fullnat_probe env dp snap cli rs timeout li probes w)" .
  have un: "fullnat_lips env dp snap cli rs timeout rr (Suc n) w =
    (case fullnat_probe env dp snap cli rs timeout li probes w of
       No_Port w \<Rightarrow> fullnat_lips env dp snap cli rs timeout rr n w | r \<Rightarrow> r)"
    by (simp add: Let_def li_def probes_def)
  show ?case
  proof (cases "fullnat_probe env dp snap cli rs timeout li probes w")
    case (No_Port w1)
    then have w1: "rest_same w w1" "w_sessions w1 = w_sessions w" "length (w_lip_cursor w1) = length (w_lip_cursor w)"
      using p by (simp_all add: fullnat_ok_def)
    then have "w_idx w1 < str_n (dp_steering dp)" using Suc.prems by (simp add: rest_same_def)
    from fullnat_ok_step [OF w1 Suc.IH [OF this Suc.prems(2)]] show ?thesis unfolding un No_Port by simp
  qed (unfold un, use p in simp_all)
qed

text \<open>Creating a session in the table of a worker.\<close>

lemma create_table:
  assumes "table_shape env dp now t" "in_horizon t now timeout" "st_lookup (env_sess env) t cli = None"
    "\<And>k. srv = Some k \<Longrightarrow> st_lookup (env_sess env) t k = None"
    "st_create (env_sess env) t cli srv now timeout = (t', r)"
  shows "table_shape env dp now t'"
    "case r of None \<Rightarrow> conn t' = conn t | Some i \<Rightarrow> conn t i = None \<and> conn t' = (conn t)(i \<mapsto> fresh_session cli srv now timeout)"
proof -
  have g: "st_good (env_sess env) now t" using assms(1) by (simp add: table_shape_def)
  note c = create_conn [OF sess_ops g assms(2-5)]
  show "case r of None \<Rightarrow> conn t' = conn t | Some i \<Rightarrow> conn t i = None \<and> conn t' = (conn t)(i \<mapsto> fresh_session cli srv now timeout)"
    by (rule c(4))
  then show "table_shape env dp now t'"
    using assms(1) c(1,2) by (simp add: table_shape_def in_horizon_def)
qed

lemma create_fullnat_ok:
  assumes "table_shape env dp (w_now_tick w) (w_sessions w)" "w_idx w < str_n (dp_steering dp)"
    "in_horizon (w_sessions w) (w_now_tick w) timeout" "st_lookup (env_sess env) (w_sessions w) cli = None"
    "create_fullnat env dp snap cli rs timeout w = (w', r)"
  shows "rest_same w w'" "table_shape env dp (w_now_tick w) (w_sessions w')"
    "case r of Inl e \<Rightarrow> e \<in> {ST_DROP_NO_PORT, ST_DROP_TABLE_FULL} \<and> conn (w_sessions w') = conn (w_sessions w)
     | Inr i \<Rightarrow> conn (w_sessions w) i = None \<and> (\<exists>srv. server_of rs srv \<and> nat_server env dp snap (protocol cli) (w_idx w) srv \<and>
         st_lookup (env_sess env) (w_sessions w) srv = None \<and>
         conn (w_sessions w') = (conn (w_sessions w))(i \<mapsto> fresh_session cli (Some srv) (w_now_tick w) timeout))"
proof -
  let ?goal = "rest_same w w' \<and> table_shape env dp (w_now_tick w) (w_sessions w') \<and>
    (case r of Inl e \<Rightarrow> e \<in> {ST_DROP_NO_PORT, ST_DROP_TABLE_FULL} \<and> conn (w_sessions w') = conn (w_sessions w)
     | Inr i \<Rightarrow> conn (w_sessions w) i = None \<and> (\<exists>srv. server_of rs srv \<and> nat_server env dp snap (protocol cli) (w_idx w) srv \<and>
         st_lookup (env_sess env) (w_sessions w) srv = None \<and>
         conn (w_sessions w') = (conn (w_sessions w))(i \<mapsto> fresh_session cli (Some srv) (w_now_tick w) timeout)))"
  have ?goal
  proof (cases "snap_local_ips snap = []")
    case True
    then show ?thesis using assms(1,5) by (auto simp: create_fullnat_def rest_same_def)
  next
    case False
    define w0 where "w0 = w\<lparr>w_lip_cursor := w_lip_cursor w @ replicate (length (snap_local_ips snap) - length (w_lip_cursor w)) 0\<rparr>"
    define f where "f = fullnat_lips env dp snap cli rs timeout (unat (w_lip_rr w0)) (length (snap_local_ips snap)) w0"
    have w0: "rest_same w w0" "w_sessions w0 = w_sessions w" "w_idx w0 = w_idx w" "w_now_tick w0 = w_now_tick w"
      by (simp_all add: w0_def rest_same_def)
    have tr: "rest_same w x" if "rest_same w0 x" for x using that w0(1) by (simp add: rest_same_def)
    have ok: "fullnat_ok env dp snap cli rs timeout w0 f"
      unfolding f_def using lips_ok [OF _ False] assms(2) w0(3) by simp
    have e: "(w', r) = (case f of Found w i \<Rightarrow> (w, Inr i) | Table_Full w \<Rightarrow> (w, Inl ST_DROP_TABLE_FULL) | No_Port w \<Rightarrow> (w, Inl ST_DROP_NO_PORT))"
      using assms(5) False by (simp add: create_fullnat_def Let_def f_def w0_def split: fullnat.splits)
    note ct = create_table [OF assms(1,3,4)]
    show ?thesis
    proof (cases f)
      case (Found x i)
      then obtain srv where srv: "st_lookup (env_sess env) (w_sessions w) srv = None" "server_of rs srv \<and> nat_server env dp snap (protocol cli) (w_idx w) srv"
          "st_create (env_sess env) (w_sessions w) cli (Some srv) (w_now_tick w) timeout = (w_sessions x, Some i)" "rest_same w0 x"
        using ok w0 by (auto simp: fullnat_ok_def)
      note c = ct [OF _ srv(3)]
      have "table_shape env dp (w_now_tick w) (w_sessions x)" "conn (w_sessions w) i = None \<and>
          conn (w_sessions x) = (conn (w_sessions w))(i \<mapsto> fresh_session cli (Some srv) (w_now_tick w) timeout)"
        using c srv(1) by simp_all
      then show ?thesis using e Found srv tr by auto
    next
      case (Table_Full x)
      then obtain srv where srv: "st_lookup (env_sess env) (w_sessions w) srv = None" "rest_same w0 x"
          "st_create (env_sess env) (w_sessions w) cli (Some srv) (w_now_tick w) timeout = (w_sessions x, None)"
        using ok w0 by (auto simp: fullnat_ok_def)
      note c = ct [OF _ srv(3)]
      have "table_shape env dp (w_now_tick w) (w_sessions x)" "conn (w_sessions x) = conn (w_sessions w)"
        using c srv(1) by simp_all
      then show ?thesis using e Table_Full srv tr by auto
    next
      case (No_Port x)
      then show ?thesis using e ok w0 tr assms(1) by (simp add: fullnat_ok_def)
    qed
  qed
  then show "rest_same w w'" "table_shape env dp (w_now_tick w) (w_sessions w')"
    "case r of Inl e \<Rightarrow> e \<in> {ST_DROP_NO_PORT, ST_DROP_TABLE_FULL} \<and> conn (w_sessions w') = conn (w_sessions w)
     | Inr i \<Rightarrow> conn (w_sessions w) i = None \<and> (\<exists>srv. server_of rs srv \<and> nat_server env dp snap (protocol cli) (w_idx w) srv \<and>
         st_lookup (env_sess env) (w_sessions w) srv = None \<and>
         conn (w_sessions w') = (conn (w_sessions w))(i \<mapsto> fresh_session cli (Some srv) (w_now_tick w) timeout))"
    by blast+
qed

end

end
