(* ===== verification/New_Session.thy ===== *)
theory New_Session
  imports Fullnat
begin

text \<open>
  \<^verbatim>\<open>new_session\<close> keeps the invariant and creates a session for a real server that the scheduler may
  use; the lookup of a session by the first packet of a connection and by later ones.
\<close>

section \<open>Moving the cursor of a scheduler\<close>

definition same_config :: "snapshot \<Rightarrow> snapshot \<Rightarrow> bool" where
  "same_config snap snap' \<longleftrightarrow> (\<exists>ss. snap' = snap\<lparr>snap_services := ss\<rparr> \<and> map svc_key ss = map svc_key (snap_services snap))"

lemma same_config_refl [simp]: "same_config snap snap"
  unfolding same_config_def by (rule exI [of _ "snap_services snap"]) simp

lemma same_config_trans: "same_config a b \<Longrightarrow> same_config b c \<Longrightarrow> same_config a c"
  by (auto simp: same_config_def)

lemma same_configD:
  assumes "same_config a b"
  shows "snap_rs b = snap_rs a" "snap_mode b = snap_mode a" "snap_local_ips b = snap_local_ips a" "snap_hc_src b = snap_hc_src a"
    "is_vip he b = is_vip he a" "is_lip he b = is_lip he a" "is_local he b = is_local he a"
    "length (snap_services b) = length (snap_services a)"
    "k < length (snap_services a) \<Longrightarrow> svc_key (snap_services b ! k) = svc_key (snap_services a ! k)"
    "rs_serves b rs cli = rs_serves a rs cli"
proof -
  obtain ss where ss: "b = a\<lparr>snap_services := ss\<rparr>" "map svc_key ss = map svc_key (snap_services a)"
    using assms by (auto simp: same_config_def)
  show len: "length (snap_services b) = length (snap_services a)" using map_eq_imp_length_eq [OF ss(2)] ss(1) by simp
  show key: "svc_key (snap_services b ! k) = svc_key (snap_services a ! k)" if "k < length (snap_services a)" for k
    using arg_cong [OF ss(2), of "\<lambda>xs. xs ! k"] that len ss(1) by simp
  show "rs_serves b rs cli = rs_serves a rs cli" using len key by (auto simp: rs_serves_def)
qed (use assms in \<open>auto simp: same_config_def snap_rs_def is_vip_def is_lip_def is_local_def fun_eq_iff\<close>)

lemma key_home_sched: "key_home he (ss[k := (ss ! k)\<lparr>sv_sched := s\<rparr>]) = key_home he ss"
proof (rule ext)
  fix v
  show "key_home he (ss[k := (ss ! k)\<lparr>sv_sched := s\<rparr>]) v = key_home he ss v"
  proof (cases "k < length ss")
    case True
    then show ?thesis by (simp add: key_home_def Let_def nth_list_update)
  next
    case False
    then show ?thesis by (simp only: list_update_beyond not_less)
  qed
qed

lemma sched_key: "map svc_key (ss[k := (ss ! k)\<lparr>sv_sched := s\<rparr>]) = map svc_key ss"
  by (cases "k < length ss") (simp_all add: map_update svc_key_def list_update_same_conv list_update_beyond)

lemma svcs_good_sched: "svcs.good he (ss[k := (ss ! k)\<lparr>sv_sched := s\<rparr>]) xs = svcs.good he ss xs"
  by (simp add: svcs.good_def key_home_sched)

lemma services_frame:
  fixes snap :: snapshot
  defines "snap' ss \<equiv> snap\<lparr>snap_services := ss\<rparr>"
  shows "snap_version (snap' ss) = snap_version snap" "snap_mode (snap' ss) = snap_mode snap" "snap_local_ips (snap' ss) = snap_local_ips snap"
    "snap_hc_src (snap' ss) = snap_hc_src snap" "snap_rs_pool (snap' ss) = snap_rs_pool snap" "snap_rs_by_id (snap' ss) = snap_rs_by_id snap"
    "snap_services (snap' ss) = ss" "snap_svc_slots (snap' ss) = snap_svc_slots snap" "snap_vips (snap' ss) = snap_vips snap"
    "snap_lips (snap' ss) = snap_lips snap" "snap_locals (snap' ss) = snap_locals snap"
  by (simp_all add: snap'_def)

lemma snap_of_sched:
  assumes "snap_of he m snap" "k < length (snap_services snap)"
    "sched_fits (map (backend_of \<circ> rs_of k) (ds_rs (mgr_services m ! k))) s"
  shows "snap_of he m (snap\<lparr>snap_services := (snap_services snap)[k := (snap_services snap ! k)\<lparr>sv_sched := s\<rparr>]\<rparr>)"
proof -
  let ?ss = "(snap_services snap)[k := (snap_services snap ! k)\<lparr>sv_sched := s\<rparr>]"
  have len: "length ?ss = length (snap_services snap)" by simp
  have b: "svc_built j (mgr_services m ! j) (snap_rs_pool snap) (snap_services snap ! j)" if "j < length (mgr_services m)" for j
    using assms(1) that unfolding snap_of_def by blast
  have "svc_built j (mgr_services m ! j) (snap_rs_pool snap) (?ss ! j)" if "j < length (mgr_services m)" for j
    using b [OF that] assms(2,3) by (cases "j = k") (simp_all add: svc_built_def)
  then have "\<forall>j < length (mgr_services m). svc_built j (mgr_services m ! j) (snap_rs_pool snap) (?ss ! j)" by blast
  with assms(1) show ?thesis
    unfolding snap_of_def services_frame svcs_good_sched len by (elim conjE) (intro conjI)
qed

lemma snap_ok_pick:
  assumes "snap_ok env m snap" "k < length (snap_services snap)" "sched_pick jhash3 (sv_sched (snap_services snap ! k)) tuple wk = (sched, pick)"
  shows "snap_ok env m (snap\<lparr>snap_services := (snap_services snap)[k := (snap_services snap ! k)\<lparr>sv_sched := sched\<rparr>]\<rparr>)"
    "pick = Some i \<Longrightarrow> \<exists>rs. snap_rs_pool snap ! (sv_rs (snap_services snap ! k) ! i) = rs \<and> snap_rs snap (rst_id rs) = Some rs \<and> schedulable rs \<and> rst_svc_idx rs = k"
proof -
  have so: "snap_of (env_hash env) m snap" "mgr_fits m" using assms(1) by (simp_all add: snap_ok_def)
  have k: "k < length (mgr_services m)" using so(1) assms(2) by (simp add: snap_of_def)
  let ?ds = "mgr_services m ! k"
  have b: "svc_built k ?ds (snap_rs_pool snap) (snap_services snap ! k)" using so(1) k unfolding snap_of_def by blast
  have fits: "sched_fits (map (backend_of \<circ> rs_of k) (ds_rs ?ds)) (sv_sched (snap_services snap ! k))" using b by (simp add: svc_built_def)
  note pf = sched_pick_fits [OF fits, of jhash3 tuple wk, unfolded assms(3) fst_conv snd_conv]
  show "snap_ok env m (snap\<lparr>snap_services := (snap_services snap)[k := (snap_services snap ! k)\<lparr>sv_sched := sched\<rparr>]\<rparr>)"
    using snap_of_sched [OF so(1) assms(2) pf(1)] assms(1) by (simp add: snap_ok_def)
  show "\<exists>rs. snap_rs_pool snap ! (sv_rs (snap_services snap ! k) ! i) = rs \<and> snap_rs snap (rst_id rs) = Some rs \<and> schedulable rs \<and> rst_svc_idx rs = k"
    if "pick = Some i"
  proof -
    have i: "i < length (ds_rs ?ds)" "sb_weight (backend_of (rs_of k (ds_rs ?ds ! i))) \<noteq> 0"
      using pf(2) that by auto
    have mp: "map ((!) (snap_rs_pool snap)) (sv_rs (snap_services snap ! k)) = map (rs_of k) (ds_rs ?ds)" using b by (simp add: svc_built_def)
    then have "length (sv_rs (snap_services snap ! k)) = length (ds_rs ?ds)" by (metis length_map)
    then have e: "snap_rs_pool snap ! (sv_rs (snap_services snap ! k) ! i) = rs_of k (ds_rs ?ds ! i)"
      using i(1) arg_cong [OF mp, of "\<lambda>xs. xs ! i"] by simp
    have "schedulable (rs_of k (ds_rs ?ds ! i))" using i(2) by (simp add: backend_of_def schedulable_def split: if_splits)
    moreover have "snap_rs snap (rst_id (rs_of k (ds_rs ?ds ! i))) = Some (rs_of k (ds_rs ?ds ! i))"
      unfolding snap_rs_exact [OF so] using k i(1) by (intro exI [of _ k] conjI bexI [of _ "ds_rs ?ds ! i"]) (simp_all add: rs_of_def)
    ultimately show ?thesis using e by (simp add: rs_of_def)
  qed
qed

section \<open>A new session\<close>

definition new_conn :: "snapshot \<Rightarrow> five_tuple \<Rightarrow> session \<Rightarrow> bool" where
  "new_conn snap tuple s \<longleftrightarrow> client s = tuple \<and> (\<exists>rs. snap_rs snap (rs_id s) = Some rs \<and> schedulable rs)"

text \<open>The fields that \<^verbatim>\<open>new_session\<close> sets.\<close>

definition set_up :: "rs_state \<Rightarrow> nat \<Rightarrow> tcp_state \<Rightarrow> mac_addr \<Rightarrow> bool \<Rightarrow> session \<Rightarrow> session" where
  "set_up rs svc st mac toa s =
     (let s = s\<lparr>rs_id := rst_id rs, svc_idx := svc, sstate := st, cli_src_mac := mac\<rparr>
      in if toa then s\<lparr>flags := flags s OR SF_TOA_PENDING\<rparr> else s)"

lemma fullnat_toa: "(x OR SF_TOA_PENDING) AND SF_FULLNAT = x AND SF_FULLNAT"
proof -
  have "SF_TOA_PENDING AND SF_FULLNAT = 0" by (simp add: SF_TOA_PENDING_def SF_FULLNAT_def)
  then show ?thesis by (simp add: bit.conj_disj_distrib2)
qed

lemma set_up_keeps:
  "wheel_view (set_up rs svc st mac toa s) = wheel_view s" "core (set_up rs svc st mac toa s) = set_up rs svc st mac toa (core s)"
  "client (set_up rs svc st mac toa s) = client s" "server (set_up rs svc st mac toa s) = server s"
  "is_fullnat (set_up rs svc st mac toa s) = is_fullnat s" "rs_id (set_up rs svc st mac toa s) = rst_id rs"
  "rs_mac (set_up rs svc st mac toa s) = rs_mac s" "cli_mac (set_up rs svc st mac toa s) = cli_mac s"
  "cli_src_mac (set_up rs svc st mac toa s) = mac"
  by (simp_all add: set_up_def wheel_view_def core_def is_fullnat_def Let_def fullnat_toa)

text \<open>What a step of the packet path leaves alone.\<close>

definition frame :: "'h proc \<Rightarrow> 'h proc \<Rightarrow> bool" where
  "frame p p' \<longleftrightarrow> pr_m p' = pr_m p \<and> w_idx (pr_w p') = w_idx (pr_w p) \<and> same_config (pr_snap p) (pr_snap p')"

context balancer
begin

lemma table_ok_shape: "table_ok env dp idx snap now t \<longleftrightarrow> table_shape env dp now t \<and> (\<forall>i s. conn t i = Some s \<longrightarrow> sess_ok env dp idx snap s)"
  by (auto simp: table_ok_def table_shape_def)

lemma same_config_sess: "same_config snap snap' \<Longrightarrow> sess_ok env dp idx snap' s = sess_ok env dp idx snap s"
  by (simp add: sess_ok_def ident_ok_def nat_server_def same_configD split: prod.splits)

lemma same_config_table: "same_config snap snap' \<Longrightarrow> table_ok env dp idx snap' now t = table_ok env dp idx snap now t"
  by (simp add: table_ok_def same_config_sess)

lemma snap_step_ok: "proc_ok env dp m p \<Longrightarrow> same_config (pr_snap p) snap' \<Longrightarrow> snap_ok env m snap' \<Longrightarrow> proc_ok env dp m (p\<lparr>pr_snap := snap'\<rparr>)"
  by (simp add: proc_ok_def worker_ok_def same_config_table)

lemma add_session_ok:
  fixes svc st toa
  assumes "proc_ok env dp m p" "rest_same (pr_w p) w'" "table_shape env dp (w_now_tick (pr_w p)) (w_sessions w')"
    "conn (pr_sessions p) i = None" "conn (w_sessions w') = (conn (pr_sessions p))(i \<mapsto> s)"
    "snap_ok env m snap'" "same_config (pr_snap p) snap'"
    "sess_ok env dp (w_idx (pr_w p)) (pr_snap p) (set_up rs svc st mac toa s)"
  defines "p' \<equiv> count ST_SESS_NEW (on_sessions (modify i (set_up rs svc st mac toa)) (p\<lparr>pr_snap := snap', pr_w := w'\<rparr>))"
  shows "proc_ok env dp m p'" "conn (pr_sessions p') = (conn (pr_sessions p))(i \<mapsto> set_up rs svc st mac toa s)"
proof -
  let ?t = "modify i (set_up rs svc st mac toa) (w_sessions w')"
  have g: "st_good (env_sess env) (w_now_tick (pr_w p)) (w_sessions w')" and c: "conn (w_sessions w') i = Some s"
    using assms(3,5) by (simp_all add: table_shape_def)
  note mo = modify_conn [OF g c, of "set_up rs svc st mac toa", OF set_up_keeps(1,2)]
  show cn: "conn (pr_sessions p') = (conn (pr_sessions p))(i \<mapsto> set_up rs svc st mac toa s)"
    using mo(2) assms(5) by (simp add: p'_def)
  have sh: "table_shape env dp (w_now_tick (pr_w p)) ?t"
    using assms(3) mo by (simp add: table_shape_def in_horizon_def)
  have "sess_ok env dp (w_idx (pr_w p)) snap' x" if "conn ?t j = Some x" for j x
    using that mo(2) assms(5,8) okD(4) [OF assms(1), of j x] by (auto simp: same_config_sess [OF assms(7)] split: if_splits)
  with sh have t: "table_ok env dp (w_idx (pr_w p)) snap' (w_now_tick (pr_w p)) ?t" unfolding table_ok_shape by blast
  have "dom (conn ?t) = insert i (dom (conn (pr_sessions p)))" using mo(2) assms(5) by simp
  moreover have "finite (dom (conn (pr_sessions p)))" by (simp add: dom_conn active_set_def active_finite)
  ultimately have card: "card (dom (conn ?t)) = Suc (card (dom (conn (pr_sessions p))))" using assms(4) by (simp add: domIff)
  show "proc_ok env dp m p'"
    using assms(1,2,6) t card
    by (simp add: p'_def proc_ok_def worker_ok_def rest_same_def count_def on_sessions_def)
qed

lemma create_nat_mode:
  assumes "proc_ok env dp m p" "st_lookup (env_sess env) (pr_sessions p) tuple = None"
    "in_horizon (pr_sessions p) (w_now_tick (pr_w p)) timeout"
    "(if snap_mode snap = NAT then create_fullnat env dp snap tuple rs timeout (pr_w p)
      else case st_create (env_sess env) (pr_sessions p) tuple None (w_now_tick (pr_w p)) timeout of
             (t, None) \<Rightarrow> ((pr_w p)\<lparr>w_sessions := t\<rparr>, Inl ST_DROP_TABLE_FULL)
           | (t, Some si) \<Rightarrow> ((pr_w p)\<lparr>w_sessions := t\<rparr>, Inr si)) = (w', r)"
  shows "rest_same (pr_w p) w'" "table_shape env dp (w_now_tick (pr_w p)) (w_sessions w')"
    "case r of Inl e \<Rightarrow> e \<in> {ST_DROP_NO_PORT, ST_DROP_TABLE_FULL} \<and> conn (w_sessions w') = conn (pr_sessions p)
     | Inr i \<Rightarrow> conn (pr_sessions p) i = None \<and> (\<exists>s. conn (w_sessions w') = (conn (pr_sessions p))(i \<mapsto> s) \<and> client s = tuple \<and> length (rs_mac s) = 6 \<and> length (cli_mac s) = 6 \<and>
         (if snap_mode snap = NAT then is_fullnat s \<and> server_of rs (server s) \<and> nat_server env dp snap (protocol tuple) (w_idx (pr_w p)) (server s)
          else \<not> is_fullnat s))"
proof -
  have t: "table_shape env dp (w_now_tick (pr_w p)) (pr_sessions p)" using okD(1) [OF assms(1)] by (simp add: table_ok_shape)
  have f: "is_fullnat (fresh_session tuple (Some srv) n o')" "\<not> is_fullnat (fresh_session tuple None n o')"
      "server (fresh_session tuple (Some srv) n o') = srv" "client (fresh_session tuple x n o') = tuple"
      "length (rs_mac (fresh_session tuple x n o')) = 6" "length (cli_mac (fresh_session tuple x n o')) = 6" for srv n o' x
    by (simp_all add: fresh_session_def is_fullnat_def session_zero_def SF_FULLNAT_def mac_zero_def split: option.splits)
  let ?goal = "rest_same (pr_w p) w' \<and> table_shape env dp (w_now_tick (pr_w p)) (w_sessions w') \<and>
    (case r of Inl e \<Rightarrow> e \<in> {ST_DROP_NO_PORT, ST_DROP_TABLE_FULL} \<and> conn (w_sessions w') = conn (pr_sessions p)
     | Inr i \<Rightarrow> conn (pr_sessions p) i = None \<and> (\<exists>s. conn (w_sessions w') = (conn (pr_sessions p))(i \<mapsto> s) \<and> client s = tuple \<and> length (rs_mac s) = 6 \<and> length (cli_mac s) = 6 \<and>
         (if snap_mode snap = NAT then is_fullnat s \<and> server_of rs (server s) \<and> nat_server env dp snap (protocol tuple) (w_idx (pr_w p)) (server s)
          else \<not> is_fullnat s)))"
  have ?goal
  proof (cases "snap_mode snap = NAT")
    case True
    note c = create_fullnat_ok [OF t okD(7) [OF assms(1)] assms(3,2)]
    have e: "create_fullnat env dp snap tuple rs timeout (pr_w p) = (w', r)" using assms(4) True by simp
    show ?thesis
    proof (cases r)
      case (Inl x)
      then show ?thesis using c [OF e] by simp
    next
      case (Inr i)
      then obtain srv where "conn (pr_sessions p) i = None" "server_of rs srv" "nat_server env dp snap (protocol tuple) (w_idx (pr_w p)) srv"
          "conn (w_sessions w') = (conn (pr_sessions p))(i \<mapsto> fresh_session tuple (Some srv) (w_now_tick (pr_w p)) timeout)"
        using c(3) [OF e] by auto
      then show ?thesis
        using c(1,2) [OF e] True Inr f(1,3-6) by (auto intro!: exI [of _ "fresh_session tuple (Some srv) (w_now_tick (pr_w p)) timeout"])
    qed
  next
    case False
    obtain t' x where x: "st_create (env_sess env) (pr_sessions p) tuple None (w_now_tick (pr_w p)) timeout = (t', x)"
      by (metis prod.exhaust)
    note c = create_table [OF t assms(3,2) _ x]
    show ?thesis
    proof (cases x)
      case None
      then show ?thesis using c assms(4) False x by (auto simp: rest_same_def)
    next
      case (Some i)
      then show ?thesis using c assms(4) False x f(2,4-6)
        by (auto simp: rest_same_def intro!: exI [of _ "fresh_session tuple None (w_now_tick (pr_w p)) timeout"])
    qed
  qed
  then show "rest_same (pr_w p) w'" "table_shape env dp (w_now_tick (pr_w p)) (w_sessions w')"
    "case r of Inl e \<Rightarrow> e \<in> {ST_DROP_NO_PORT, ST_DROP_TABLE_FULL} \<and> conn (w_sessions w') = conn (pr_sessions p)
     | Inr i \<Rightarrow> conn (pr_sessions p) i = None \<and> (\<exists>s. conn (w_sessions w') = (conn (pr_sessions p))(i \<mapsto> s) \<and> client s = tuple \<and> length (rs_mac s) = 6 \<and> length (cli_mac s) = 6 \<and>
         (if snap_mode snap = NAT then is_fullnat s \<and> server_of rs (server s) \<and> nat_server env dp snap (protocol tuple) (w_idx (pr_w p)) (server s)
          else \<not> is_fullnat s))"
    by blast+
qed

lemma new_session_ok:
  assumes "proc_ok env dp m p" "k < length (snap_services (pr_snap p))" "st_lookup (env_sess env) (pr_sessions p) tuple = None"
    "14 \<le> length (mb_data (pr_m p))" "fwd_owner (env_hash env) (env_rss env) (dp_steering dp) tuple = w_idx (pr_w p)"
    "svc_key (snap_services (pr_snap p) ! k) = (dst_ip tuple, dst_port tuple, protocol tuple)"
  shows "\<exists>p' r. new_session env dp k tuple p = Some (p', r) \<and> proc_ok env dp m p' \<and> frame p p' \<and>
    (case r of Inl e \<Rightarrow> e \<in> set drop_stats \<and> conn (pr_sessions p') = conn (pr_sessions p)
     | Inr i \<Rightarrow> conn (pr_sessions p) i = None \<and>
         (\<exists>s. conn (pr_sessions p') = (conn (pr_sessions p))(i \<mapsto> s) \<and> new_conn (pr_snap p) tuple s))"
proof -
  let ?snap = "pr_snap p"
  let ?svc = "snap_services ?snap ! k"
  obtain sched pick where pick: "sched_pick (jhash_3words (env_hash env)) (sv_sched ?svc) tuple (w_idx (pr_w p)) = (sched, pick)"
    by (metis prod.exhaust)
  define snap' where "snap' = ?snap\<lparr>snap_services := (snap_services ?snap)[k := ?svc\<lparr>sv_sched := sched\<rparr>]\<rparr>"
  note so = okD(6) [OF assms(1)]
  have snap': "snap_ok env m snap'" "same_config ?snap snap'"
    using snap_ok_pick(1) [OF so assms(2) pick] sched_key by (auto simp: snap'_def same_config_def)
  show ?thesis
  proof (cases pick)
    case None
    have "new_session env dp k tuple p = Some (p\<lparr>pr_snap := snap'\<rparr>, Inl ST_DROP_NO_RS)"
      using pick None by (simp add: new_session_def Let_def snap'_def)
    moreover have "proc_ok env dp m (p\<lparr>pr_snap := snap'\<rparr>)" using snap_step_ok [OF assms(1) snap'(2,1)] .
    ultimately show ?thesis using snap'(2) by (auto simp: drop_stats_def frame_def)
  next
    case (Some j)
    obtain rs where rs: "snap_rs_pool ?snap ! (sv_rs ?svc ! j) = rs" "snap_rs ?snap (rst_id rs) = Some rs" "schedulable rs" "rst_svc_idx rs = k"
      using snap_ok_pick(2) [OF so assms(2) pick Some] by blast
    note rid = snap_rs_ok(2) [OF so rs(2)]
    define st where "st = (if protocol tuple = 6 then NONE else UDP)"
    define timeout where "timeout = state_timeout st (lb_timeouts (dp_cfg dp))"
    have timeout': "(if protocol tuple = 6 then to_tcp_syn (lb_timeouts (dp_cfg dp)) else to_udp (lb_timeouts (dp_cfg dp))) = timeout"
      by (simp add: timeout_def st_def state_timeout_def)
    define made where "made = (if snap_mode ?snap = NAT then create_fullnat env dp ?snap tuple rs timeout (pr_w p)
        else case st_create (env_sess env) (pr_sessions p) tuple None (w_now_tick (pr_w p)) timeout of
               (t, None) \<Rightarrow> ((pr_w p)\<lparr>w_sessions := t\<rparr>, Inl ST_DROP_TABLE_FULL)
             | (t, Some si) \<Rightarrow> ((pr_w p)\<lparr>w_sessions := t\<rparr>, Inr si))"
    obtain w' r where wr: "made = (w', r)" by (cases made)
    note c = create_nat_mode [OF assms(1,3) okD(3) [OF assms(1), of st, folded timeout_def] wr [unfolded made_def]]
    have sel: "pr_w (p\<lparr>pr_snap := snap'\<rparr>) = pr_w p" "pr_m (p\<lparr>pr_snap := snap', pr_w := w'\<rparr>) = pr_m p" by simp_all
    note un = new_session_def Let_def pick prod.case Some option.case rs(1) timeout' snap'_def [symmetric] sel(1) made_def [symmetric] wr
    show ?thesis
    proof (cases r)
      case (Inl e)
      have "new_session env dp k tuple p = Some (p\<lparr>pr_snap := snap', pr_w := w'\<rparr>, Inl e)"
        unfolding un Inl sum.case by (rule refl)
      moreover have "proc_ok env dp m (p\<lparr>pr_snap := snap', pr_w := w'\<rparr>)"
        using snap_step_ok [OF assms(1) snap'(2,1)] c Inl by (simp add: proc_ok_def worker_ok_def table_ok_shape rest_same_def)
      ultimately show ?thesis using snap'(2) c Inl by (auto simp: drop_stats_def frame_def rest_same_def)
    next
      case (Inr i)
      obtain s where s: "conn (pr_sessions p) i = None" "conn (w_sessions w') = (conn (pr_sessions p))(i \<mapsto> s)"
          "client s = tuple" "length (rs_mac s) = 6" "length (cli_mac s) = 6" "if snap_mode ?snap = NAT then is_fullnat s \<and> server_of rs (server s) \<and> nat_server env dp ?snap (protocol tuple) (w_idx (pr_w p)) (server s)
           else \<not> is_fullnat s"
        using c(3) Inr by auto
      define mac where "mac = eth_src_mac (mb_data (pr_m p))"
      define toa where "toa = (snap_mode ?snap = NAT \<and> protocol tuple = 6 \<and> lb_toa (dp_cfg dp))"
      have mac: "length mac = 6" using assms(4) by (simp add: mac_def eth_src_mac_def)
      define p1 where "p1 = count ST_SESS_NEW (on_sessions (modify i (set_up rs (sv_idx ?svc) st mac toa)) (p\<lparr>pr_snap := snap', pr_w := w'\<rparr>))"
      have so': "sess_ok env dp (w_idx (pr_w p)) ?snap (set_up rs (sv_idx ?svc) st mac toa s)"
        using s(3-6) mac rid rs(2,4) assms(2,5,6) by (auto simp: rs_serves_def sess_ok_def ident_ok_def ident_def set_up_keeps split: if_splits)
      note p1 = add_session_ok [OF assms(1) c(1,2) s(1,2) snap' so', folded p1_def]
      obtain p2 where p2: "rs_count (rst_id rs) (\<lambda>c. c\<lparr>rk_conns := rk_conns c + 1\<rparr>) p1 = Some p2" "proc_ok env dp m p2"
          "pr_sessions p2 = pr_sessions p1" "pr_snap p2 = pr_snap p1" "pr_m p2 = pr_m p1" "w_idx (pr_w p2) = w_idx (pr_w p1)"
        by (rule rs_count_ok [OF p1(1) rid, of "\<lambda>c. c\<lparr>rk_conns := rk_conns c + 1\<rparr>"])
      define p3 where "p3 = (if snap_mode ?snap = NAT \<and> on_link (dp_route dp) (src_ip tuple)
          then post_master_event (event_zero\<lparr>ev_type := EV_NEIGH_HINT, ev_ip := src_ip tuple,
                 ev_mac := cli_src_mac (sess (pr_sessions p2) i)\<rparr>) p2 else p2)"
      have su: "set_up rs (sv_idx ?svc) st mac toa = (\<lambda>s. let s = s\<lparr>rs_id := rst_id rs, svc_idx := sv_idx ?svc,
          sstate := if protocol tuple = 6 then NONE else UDP, cli_src_mac := eth_src_mac (mb_data (pr_m p))\<rparr>
        in if snap_mode ?snap = NAT \<and> protocol tuple = 6 \<and> lb_toa (dp_cfg dp) then s\<lparr>flags := flags s OR SF_TOA_PENDING\<rparr> else s)"
        by (simp add: set_up_def [abs_def] st_def mac_def toa_def)
      have "new_session env dp k tuple p = Some (p3, Inr i)"
        unfolding un Inr sum.case sel(2) su [symmetric, unfolded Let_def] p1_def [symmetric] p2(1) bind.simps p3_def by (rule refl)
      moreover have "proc_ok env dp m p3" "pr_sessions p3 = pr_sessions p1" "frame p p3"
        using p2 c(1) snap'(2) by (simp_all add: p3_def p1_def frame_def rest_same_def)
      moreover have "new_conn ?snap tuple (set_up rs (sv_idx ?svc) st mac toa s)"
        unfolding new_conn_def set_up_keeps using s(3) rs(2,3) by blast
      ultimately show ?thesis using Inr s(1) p1(2) by auto
    qed
  qed
qed

end

end
