(* ===== verification/Inbound.thy ===== *)
theory Inbound
  imports New_Session
begin

text \<open>
  Packets from a client to a service: \<^verbatim>\<open>handle_inbound\<close> always returns, keeps the invariant, and what it sends
  goes to a usable real server.
\<close>

definition inbound_sent ::
  "('h, 'n) lb_env \<Rightarrow> 'n dataplane \<Rightarrow> forward_mode \<Rightarrow> packet_meta \<Rightarrow> session \<Rightarrow> mac_addr \<Rightarrow> mbuf \<Rightarrow> mbuf \<Rightarrow> bool" where
  "inbound_sent env dp mode meta s mac b b' \<longleftrightarrow>
     (if mode = DR then b' = dr_rewrite b (dp_local_mac dp) mac
      else \<exists>meta' out. nat_rewrite (env_mbuf env) b meta (inbound_rewrite dp s mac) (inbound_options dp s meta)
             rewrite_outcome_zero = (REWRITE_OK, b', meta', out))"

text \<open>The one reason for which a parsed packet is not rewritten.\<close>

definition ttl_used_up :: "mbuf \<Rightarrow> packet_meta \<Rightarrow> bool" where
  "ttl_used_up b meta \<longleftrightarrow> (meta_fits (mb_data b) meta \<longrightarrow> ip_ttl (mb_data b) 14 \<le> 1)"

lemma refused:
  assumes "nat_rewrite ops b meta rw opt out = (r, b', meta', out')" "r \<noteq> REWRITE_OK"
  shows "ttl_used_up b meta"
  unfolding ttl_used_up_def using nat_rewrite_steps [OF assms(1)] assms(2) by blast

lemma frame_refl [simp]: "frame p p"
  by (simp add: frame_def)

lemma frame_trans: "frame p q \<Longrightarrow> frame q r \<Longrightarrow> frame p r"
  by (auto simp: frame_def intro: same_config_trans)

lemma count_frame [simp]: "frame p (count i q) = frame p q"
  by (simp add: frame_def)

lemma rss_check_frame [simp]: "frame p (rss_check env dp t syn red rss p)" "pr_sessions (rss_check env dp t syn red rss p) = pr_sessions p"
  by (simp_all add: rss_check_def Let_def)

lemma close_sel [simp]:
  "pr_snap (close_session env i p) = pr_snap p" "pr_m (close_session env i p) = pr_m p" "w_idx (pr_w (close_session env i p)) = w_idx (pr_w p)"
  by (simp_all add: close_session_def)

lemma close_frame [simp]: "frame p (close_session env i p)"
  by (simp add: frame_def)

lemma count_outcome_sel [simp]:
  "pr_sessions (count_outcome out p) = pr_sessions p" "pr_snap (count_outcome out p) = pr_snap p" "pr_m (count_outcome out p) = pr_m p"
  "w_idx (pr_w (count_outcome out p)) = w_idx (pr_w p)"
  by (simp_all add: count_outcome_def Let_def)

lemma drop_reasons:
  "{ST_DROP_MALFORMED, ST_DROP_FRAGMENT, ST_DROP_CKSUM, ST_DROP_NOT_LOCAL, ST_DROP_NO_SERVICE, ST_DROP_NO_SESSION, ST_DROP_NO_RS,
    ST_DROP_RS_DOWN, ST_DROP_TABLE_FULL, ST_DROP_NO_PORT, ST_DROP_NO_NEIGH, ST_DROP_TTL, ST_DROP_OTHER} \<subseteq> set drop_stats"
  by (simp add: drop_stats_def)

lemma result_ok_simps [simp]:
  "result_ok dp idx red send_res" "result_ok dp idx red consumed_res" "result_ok dp idx red (drop_res e) = (e \<in> set drop_stats)"
  "result_ok dp idx red (redirect_res to) = (\<not> red \<and> to < str_n (dp_steering dp) \<and> to \<noteq> idx)"
  by (simp_all add: result_ok_def send_res_def consumed_res_def drop_res_def redirect_res_def)

lemma verdict_simps [simp]:
  "res_verdict send_res = SEND" "res_verdict consumed_res = CONSUMED" "res_verdict (drop_res e) = DROP"
  "res_verdict (redirect_res to) = REDIRECT"
  by (simp_all add: send_res_def consumed_res_def drop_res_def redirect_res_def)

definition found_session :: "snapshot \<Rightarrow> five_tuple \<Rightarrow> 'h proc \<Rightarrow> nat \<Rightarrow> bool" where
  "found_session snap tuple p i \<longleftrightarrow>
     (\<exists>s rs. conn (pr_sessions p) i = Some s \<and> has_key s tuple \<and> snap_rs snap (rs_id s) = Some rs \<and> usable rs)"

context balancer
begin

lemma not_owner_ok: "owner < str_n (dp_steering dp) \<Longrightarrow> owner \<noteq> idx \<Longrightarrow> result_ok dp idx red (not_owner owner red)"
  using drop_reasons by (auto simp: not_owner_def)

lemma not_owner_verdict: "res_verdict (not_owner owner red) \<noteq> SEND"
  by (simp add: not_owner_def)

lemma rss_check_ok: "proc_ok env dp m (rss_check env dp t syn red rss p) = proc_ok env dp m p"
  by (simp add: rss_check_def Let_def)

lemma count_outcome_ok: "proc_ok env dp m (count_outcome out p) = proc_ok env dp m p"
  by (simp add: count_outcome_def Let_def)

lemma closed_lookup:
  assumes "proc_ok env dp m p" "st_lookup (env_sess env) (pr_sessions p) k = Some i"
  shows "st_lookup (env_sess env) (pr_sessions (close_session env i p)) k = None"
proof -
  obtain s where s: "conn (pr_sessions p) i = Some s" using lookup_ok [OF assms(1)] assms(2) by blast
  note c = close_ok [OF assms(1) s]
  have "st_lookup (env_sess env) (pr_sessions (close_session env i p)) k \<noteq> Some j" for j
  proof
    assume "st_lookup (env_sess env) (pr_sessions (close_session env i p)) k = Some j"
    then obtain x where x: "conn (pr_sessions (close_session env i p)) j = Some x" "has_key x k"
      using lookup_ok [OF c(1)] by blast
    then have "j \<noteq> i" "conn (pr_sessions p) j = Some x" using c(2) by (auto split: if_splits)
    then show False using lookup_ok [OF assms(1), of k j] x(2) assms(2) by auto
  qed
  then show ?thesis by (cases "st_lookup (env_sess env) (pr_sessions (close_session env i p)) k") auto
qed

section \<open>The session of a packet\<close>

lemma new_found:
  assumes "proc_ok env dp m p" "k < length (snap_services (pr_snap p))" "st_lookup (env_sess env) (pr_sessions p) tuple = None"
    "14 \<le> length (mb_data (pr_m p))" "fwd_owner (env_hash env) (env_rss env) (dp_steering dp) tuple = w_idx (pr_w p)"
    "svc_key (snap_services (pr_snap p) ! k) = (dst_ip tuple, dst_port tuple, protocol tuple)"
  shows "\<exists>p' r. new_session env dp k tuple p = Some (p', r) \<and> proc_ok env dp m p' \<and> frame p p' \<and>
    (case r of Inl e \<Rightarrow> e \<in> set drop_stats | Inr i \<Rightarrow> found_session (pr_snap p) tuple p' i)"
proof -
  obtain p' r where n: "new_session env dp k tuple p = Some (p', r)" "proc_ok env dp m p'" "frame p p'"
    "case r of Inl e \<Rightarrow> e \<in> set drop_stats \<and> conn (pr_sessions p') = conn (pr_sessions p)
     | Inr i \<Rightarrow> conn (pr_sessions p) i = None \<and>
         (\<exists>s. conn (pr_sessions p') = (conn (pr_sessions p))(i \<mapsto> s) \<and> new_conn (pr_snap p) tuple s)"
    using new_session_ok [OF assms] by blast
  then show ?thesis
    by (intro exI [of _ p'] exI [of _ r])
      (auto simp: found_session_def new_conn_def has_key_def schedulable_def split: sum.splits)
qed

lemma inbound_session_ok:
  assumes "proc_ok env dp m p" "k < length (snap_services (pr_snap p))" "14 \<le> length (mb_data (pr_m p))"
    "fwd_owner (env_hash env) (env_rss env) (dp_steering dp) (to_five_tuple meta) = w_idx (pr_w p)"
    "svc_key (snap_services (pr_snap p) ! k) = (pm_dst_ip meta, pm_dst_port meta, pm_ip_protocol meta)"
  shows "\<exists>p' r. inbound_session env dp k meta p = Some (p', r) \<and> proc_ok env dp m p' \<and> frame p p' \<and>
    (case r of Inl e \<Rightarrow> e \<in> set drop_stats | Inr (i, _) \<Rightarrow> found_session (pr_snap p) (to_five_tuple meta) p' i)"
proof -
  let ?t = "to_five_tuple meta"
  have key: "svc_key (snap_services (pr_snap p) ! k) = (dst_ip ?t, dst_port ?t, protocol ?t)" using assms(5) by (simp add: to_five_tuple_def)
  define goal where "goal x \<longleftrightarrow> (\<exists>p' r. x = Some (p', r) \<and> proc_ok env dp m p' \<and> frame p p' \<and>
    (case r of Inl e \<Rightarrow> e \<in> set drop_stats | Inr (i, _) \<Rightarrow> found_session (pr_snap p) ?t p' i))"
    for x :: "('h proc \<times> (stat + nat \<times> bool)) option"
  define create where "create q = (if pm_ip_protocol meta = 6 \<and> \<not> is_syn meta then Some (q, Inl ST_DROP_NO_SESSION)
      else do { (q, r) \<leftarrow> new_session env dp k ?t q;
                Some (q, case r of Inl fail \<Rightarrow> Inl fail | Inr si \<Rightarrow> Inr (si, True)) })" for q :: "'h proc"
  have create: "goal (create q)" if q: "proc_ok env dp m q" "frame p q" "st_lookup (env_sess env) (pr_sessions q) ?t = None" for q
  proof -
    have f: "same_config (pr_snap p) (pr_snap q)" "pr_m q = pr_m p" "w_idx (pr_w q) = w_idx (pr_w p)" using q(2) by (simp_all add: frame_def)
    obtain p' r where n: "new_session env dp k ?t q = Some (p', r)" "proc_ok env dp m p'" "frame q p'"
        "case r of Inl e \<Rightarrow> e \<in> set drop_stats | Inr i \<Rightarrow> found_session (pr_snap q) ?t p' i"
      using new_found [OF q(1) _ q(3), of k] assms(2-4) f same_configD(8) [OF f(1)] key same_configD(9) [OF f(1) assms(2)] by metis
    have "found_session (pr_snap q) ?t = (found_session (pr_snap p) ?t :: 'h proc \<Rightarrow> _)"
      by (intro ext) (simp add: found_session_def same_configD [OF f(1)])
    with n frame_trans [OF q(2) n(3)] q(1,2) show ?thesis
      using drop_reasons by (auto simp: goal_def create_def split: sum.splits)
  qed
  have "goal (inbound_session env dp k meta p)"
  proof (cases "st_lookup (env_sess env) (pr_sessions p) ?t")
    case None
    then show ?thesis using create [OF assms(1) frame_refl None]
      by (simp add: inbound_session_def create_def Let_def cong: if_cong)
  next
    case (Some i)
    obtain s where s: "conn (pr_sessions p) i = Some s" "has_key s ?t" using lookup_ok [OF assms(1)] Some by blast
    define rs where "rs = snap_rs (pr_snap p) (rs_id s)"
    define reuse where "reuse = (is_syn meta \<and> tcp_state_reusable (sstate s))"
    have un: "inbound_session env dp k meta p =
      (if rs = None \<or> \<not> usable (the rs) \<or> reuse then
         if \<not> is_syn meta \<and> pm_ip_protocol meta = 6
         then Some (close_session env i p, Inl (if rs \<noteq> None \<and> \<not> reuse then ST_DROP_RS_DOWN else ST_DROP_NO_SESSION))
         else create (close_session env i p)
       else Some (p, Inr (i, False)))"
      unfolding inbound_session_def Let_def Some option.case conn_sess [OF s(1)] rs_def [symmetric] reuse_def [symmetric] create_def by (rule refl)
    have "goal (create (close_session env i p))"
      by (rule create [OF close_ok(1) [OF assms(1) s(1)] close_frame closed_lookup [OF assms(1) Some]])
    moreover have "goal (Some (close_session env i p, Inl e))" if "e \<in> set drop_stats" for e
      using close_ok(1) [OF assms(1) s(1)] that by (simp add: goal_def)
    moreover have "goal (Some (p, Inr (i, False)))" if "rs \<noteq> None" "usable (the rs)"
      using assms(1) s that by (auto simp: goal_def found_session_def rs_def)
    ultimately show ?thesis unfolding un using drop_reasons by auto
  qed
  then show ?thesis unfolding goal_def .
qed

section \<open>Forwarding\<close>

lemma counters_ok:
  assumes "proc_ok env dp m p" "conn (pr_sessions p) i = Some s"
    "\<And>x. wheel_view (f x) = wheel_view x" "\<And>x. core (f x) = f (core x)" "ident (f s) = ident s" "rs_mac (f s) = rs_mac s"
    "cli_mac (f s) = cli_mac s" "cli_src_mac (f s) = cli_src_mac s"
  shows "proc_ok env dp m (on_sessions (modify i f) p)" "conn (pr_sessions (on_sessions (modify i f) p)) i = Some (f s)"
proof -
  have "sess_ok env dp (w_idx (pr_w p)) (pr_snap p) (f s)"
    using okD(4) [OF assms(1,2)] assms(5-8) by (simp add: sess_ok_def) (simp add: ident_def)
  from modify_ok [OF assms(1-4) this]
  show "proc_ok env dp m (on_sessions (modify i f) p)" "conn (pr_sessions (on_sessions (modify i f) p)) i = Some (f s)" .
qed

lemma inbound_forward_ok:
  assumes "proc_ok env dp m p" "conn (pr_sessions p) i = Some s" "snap_rs (pr_snap p) (rs_id s) = Some rs"
  shows "\<exists>p' r. inbound_forward env dp meta i is_new p = Some (p', r) \<and> proc_ok env dp m p' \<and> pr_snap p' = pr_snap p \<and>
    w_idx (pr_w p') = w_idx (pr_w p) \<and>
    (r = drop_res ST_DROP_NO_NEIGH \<and> mac_is_zero (rst_mac rs) \<or> r = drop_res ST_DROP_TTL \<and> ttl_used_up (pr_m p) meta \<or>
     r = send_res \<and> (\<exists>s' mac. conn (pr_sessions p') i = Some s' \<and> ident s' = ident s \<and> length mac = 6 \<and>
       inbound_sent env dp (snap_mode (pr_snap p)) meta s' mac (pr_m p) (pr_m p')))"
proof -
  define p1 where "p1 = update_state dp i (pm_tcp_flags meta) CLIENT_TO_RS p"
  note u = update_state_ok [OF assms(1,2), of "pm_tcp_flags meta" CLIENT_TO_RS, folded p1_def]
  obtain s1 where s1: "conn (pr_sessions p1) i = Some s1" "ident s1 = ident s" using u(2) by blast
  define f where "f s = s\<lparr>pkts_in := pkts_in s + 1, bytes_in := bytes_in s + ucast (pktmbuf_pkt_len env (pr_m p1))\<rparr>" for s :: session
  define p2 where "p2 = on_sessions (modify i f) p1"
  have f: "wheel_view (f x) = wheel_view x" "core (f x) = f (core x)" "ident (f x) = ident x" "rs_mac (f x) = rs_mac x" "cli_mac (f x) = cli_mac x"
      "cli_src_mac (f x) = cli_src_mac x" for x
    by (simp_all add: f_def wheel_view_def core_def ident_def is_fullnat_def)
  note p2 = counters_ok [OF u(1) s1(1), of f, OF f, folded p2_def]
  obtain r p3 where r: "resolve_rs_mac env dp i rs p2 = (r, p3)" by (metis prod.exhaust)
  note rr = resolve_rs_ok [OF p2 snap_rs_ok(3) [OF okD(6) [OF assms(1)] assms(3)] r]
  obtain s3 where s3: "conn (pr_sessions p3) i = Some s3" "ident s3 = ident s"
    using rr(2) s1(2) f(3) by (auto simp: ident_def is_fullnat_def)
  have e3: "pr_snap p3 = pr_snap p" "pr_m p3 = pr_m p" "w_idx (pr_w p3) = w_idx (pr_w p)"
    using rr(3-5) u(3-5) by (simp_all add: p2_def)
  have cl: "proc_ok env dp m (if is_new then close_session env i (p3\<lparr>pr_m := b\<rparr>) else p3\<lparr>pr_m := b\<rparr>)" for b
    using close_ok(1) [of m "p3\<lparr>pr_m := b\<rparr>" i s3] rr(1) s3(1) by simp
  have un: "inbound_forward env dp meta i is_new p =
     (case r of
          None \<Rightarrow> Some (if is_new then close_session env i p3 else p3, drop_res ST_DROP_NO_NEIGH)
        | Some rmac \<Rightarrow>
            if snap_mode (pr_snap p3) = DR then do {
              p \<leftarrow> count_fwd_in env i (p3\<lparr>pr_m := dr_rewrite (pr_m p3) (dp_local_mac dp) rmac\<rparr>);
              Some (p, send_res)
            }
            else
              (case nat_rewrite (env_mbuf env) (pr_m p3) meta (inbound_rewrite dp (sess (pr_sessions p3) i) rmac)
                      (inbound_options dp (sess (pr_sessions p3) i) meta) rewrite_outcome_zero of
                 (r, m, meta', out) \<Rightarrow>
                   if r \<noteq> REWRITE_OK
                   then Some (if is_new then close_session env i (p3\<lparr>pr_m := m\<rparr>) else p3\<lparr>pr_m := m\<rparr>, drop_res ST_DROP_TTL)
                   else do {
                     p \<leftarrow> count_fwd_in env i (count_outcome out (p3\<lparr>pr_m := m\<rparr>));
                     Some (p, send_res)
                   }))"
    unfolding inbound_forward_def Let_def conn_sess [OF assms(2)] assms(3) bind.simps p1_def [symmetric] f_def [symmetric, abs_def]
      p2_def [symmetric] r prod.case by (rule refl)
  have io: "inbound_rewrite dp (sess (pr_sessions p3) i) mac = inbound_rewrite dp s3 mac"
    "inbound_options dp (sess (pr_sessions p3) i) meta = inbound_options dp s3 meta" for mac
    by (simp_all add: inbound_rewrite_def inbound_options_def conn_sess [OF s3(1)])
  show ?thesis
  proof (cases r)
    case None
    moreover have "mac_is_zero (rst_mac rs)" using r None by (auto simp: resolve_rs_mac_def split: if_splits)
    ultimately show ?thesis using close_ok(1) [OF rr(1) s3(1)] rr(1) e3 by (simp add: un)
  next
    case (Some mac)
    note mac = rr(6) [OF Some]
    show ?thesis
    proof (cases "snap_mode (pr_snap p3) = DR")
      case True
      let ?q = "p3\<lparr>pr_m := dr_rewrite (pr_m p3) (dp_local_mac dp) mac\<rparr>"
      have "proc_ok env dp m ?q" "conn (pr_sessions ?q) i = Some s3" using rr(1) s3 by simp_all
      from count_fwd_ok(1) [OF this] obtain p' where "count_fwd_in env i ?q = Some p'" "proc_ok env dp m p'" "pr_sessions p' = pr_sessions ?q"
          "pr_m p' = pr_m ?q" "pr_snap p' = pr_snap ?q" "w_idx (pr_w p') = w_idx (pr_w ?q)"
        by blast
      then show ?thesis using True Some mac s3 e3 by (auto simp: un inbound_sent_def)
    next
      case False
      obtain rw b meta' out where b: "nat_rewrite (env_mbuf env) (pr_m p3) meta (inbound_rewrite dp s3 mac) (inbound_options dp s3 meta)
          rewrite_outcome_zero = (rw, b, meta', out)"
        by (metis prod_cases4)
      show ?thesis
      proof (cases "rw = REWRITE_OK")
        case False
        then show ?thesis using \<open>snap_mode (pr_snap p3) \<noteq> DR\<close> cl [of b] e3 b Some refused [OF b] by (simp add: un io)
      next
        case True
        let ?q = "count_outcome out (p3\<lparr>pr_m := b\<rparr>)"
        have "proc_ok env dp m ?q" "conn (pr_sessions ?q) i = Some s3" using rr(1) s3 by (simp_all add: count_outcome_ok)
        from count_fwd_ok(1) [OF this] obtain p' where p': "count_fwd_in env i ?q = Some p'" "proc_ok env dp m p'" "pr_sessions p' = pr_sessions ?q"
            "pr_m p' = pr_m ?q" "pr_snap p' = pr_snap ?q" "w_idx (pr_w p') = w_idx (pr_w ?q)"
          by blast
        have "inbound_forward env dp meta i is_new p = Some (p', send_res)" using False Some b True p'(1) by (simp add: un io)
        moreover have "inbound_sent env dp (snap_mode (pr_snap p)) meta s3 mac (pr_m p) (pr_m p')"
          using b True e3 p' False by (simp add: inbound_sent_def)
        ultimately show ?thesis using p' s3 e3 mac by auto
      qed
    qed
  qed
qed

lemma dst_is_lip:
  assumes "proc_ok env dp m p" "ip \<in> set (snap_local_ips (pr_snap p))"
  shows "is_lip (env_hash env) (pr_snap p) ip = Some True"
proof -
  have so: "snap_of (env_hash env) m (pr_snap p)" using okD(6) [OF assms(1)] by (simp add: snap_ok_def)
  show ?thesis
  proof (cases "ip = 0")
    case True
    have "addrs.good (env_hash env) (snap_lips (pr_snap p)) \<and> addrs.occupied (snap_lips (pr_snap p)) < kSlots"
      using so unfolding snap_of_def by blast
    then show ?thesis using set_has_zero [of "snap_lips (pr_snap p)" "env_hash env"] True by (simp add: is_lip_def addrs.good_def)
  next
    case False
    have "snap_local_ips (pr_snap p) = mgr_local_ips m" using so unfolding snap_of_def by blast
    then show ?thesis using address_tables(2) [OF so False] assms(2) by simp
  qed
qed

text \<open>A packet that is not for the port range of the local addresses is found under the client side of a session.\<close>

lemma client_side:
  assumes "proc_ok env dp m p" "conn (pr_sessions p) i = Some s" "has_key s tuple"
    "\<not> (snap_mode (pr_snap p) = NAT \<and> is_lip (env_hash env) (pr_snap p) (dst_ip tuple) = Some True \<and> in_nat_range (dst_port tuple))"
  shows "client s = tuple"
proof (rule ccontr)
  assume "client s \<noteq> tuple"
  then have s: "is_fullnat s" "server s = tuple" using assms(3) by (auto simp: has_key_def)
  have i: "snap_mode (pr_snap p) = NAT" "dst_ip tuple \<in> set (snap_local_ips (pr_snap p))" "in_nat_range (dst_port tuple)"
    using okD(4) [OF assms(1,2)] s by (auto simp: sess_ok_def ident_ok_def ident_def nat_server_def)
  from dst_is_lip [OF assms(1) i(2)] show False using assms(4) i by blast
qed

lemma handle_inbound_ok:
  assumes "proc_ok env dp m p" "k < length (snap_services (pr_snap p))" "14 \<le> length (mb_data (pr_m p))"
    "\<not> (snap_mode (pr_snap p) = NAT \<and> is_lip (env_hash env) (pr_snap p) (pm_dst_ip meta) = Some True \<and> in_nat_range (pm_dst_port meta))"
    "svc_key (snap_services (pr_snap p) ! k) = (pm_dst_ip meta, pm_dst_port meta, pm_ip_protocol meta)"
  shows "\<exists>p' r. handle_inbound env dp k meta red rss p = Some (p', r) \<and> proc_ok env dp m p' \<and> same_config (pr_snap p) (pr_snap p') \<and>
    w_idx (pr_w p') = w_idx (pr_w p) \<and> result_ok dp (w_idx (pr_w p)) red r \<and>
    (res_verdict r = SEND \<longrightarrow> (\<exists>i s rs mac. conn (pr_sessions p') i = Some s \<and> client s = to_five_tuple meta \<and>
       snap_rs (pr_snap p) (rs_id s) = Some rs \<and> usable rs \<and> length mac = 6 \<and>
       inbound_sent env dp (snap_mode (pr_snap p)) meta s mac (pr_m p) (pr_m p')))"
proof -
  let ?t = "to_five_tuple meta"
  define owner where "owner = fwd_owner (env_hash env) (env_rss env) (dp_steering dp) ?t"
  show ?thesis
  proof (cases "owner = w_idx (pr_w p)")
    case False
    then show ?thesis
      using assms(1) not_owner_ok [OF fwd_owner_less [OF steering(1)] False [unfolded owner_def]] not_owner_verdict
      by (simp add: handle_inbound_def owner_def [symmetric])
  next
    case True
    define p0 where "p0 = rss_check env dp ?t (is_syn meta) red rss p"
    have p0: "proc_ok env dp m p0" "frame p p0" using assms(1) by (simp_all add: p0_def rss_check_ok)
    then have f0: "pr_m p0 = pr_m p" "w_idx (pr_w p0) = w_idx (pr_w p)" "same_config (pr_snap p) (pr_snap p0)" by (simp_all add: frame_def)
    obtain p1 r1 where s: "inbound_session env dp k meta p0 = Some (p1, r1)" "proc_ok env dp m p1" "frame p0 p1"
        "case r1 of Inl e \<Rightarrow> e \<in> set drop_stats | Inr (i, _) \<Rightarrow> found_session (pr_snap p0) ?t p1 i"
      using inbound_session_ok [OF p0(1), of k meta] assms(2,3,5) f0 True same_configD(8) [OF f0(3)] same_configD(9) [OF f0(3) assms(2)]
      unfolding owner_def by auto
    have f1: "pr_m p1 = pr_m p" "w_idx (pr_w p1) = w_idx (pr_w p)" "same_config (pr_snap p) (pr_snap p1)"
      using frame_trans [OF p0(2) s(3)] by (simp_all add: frame_def)
    note c = same_configD [OF f1(3)] and c0 = same_configD [OF f0(3)]
    have un: "handle_inbound env dp k meta red rss p =
      (case r1 of Inl fail \<Rightarrow> Some (p1, drop_res fail) | Inr (si, is_new) \<Rightarrow> inbound_forward env dp meta si is_new p1)"
      using True s(1) by (simp add: handle_inbound_def owner_def [symmetric] p0_def [symmetric] Let_def)
    show ?thesis
    proof (cases r1)
      case (Inl e)
      then show ?thesis using s f1 by (simp add: un)
    next
      case (Inr x)
      obtain i is_new where x: "x = (i, is_new)" by (cases x)
      then obtain s1 rs where s1: "conn (pr_sessions p1) i = Some s1" "has_key s1 ?t" "snap_rs (pr_snap p) (rs_id s1) = Some rs" "usable rs"
        using s(4) Inr c0(1) by (auto simp: found_session_def)
      have cl: "client s1 = ?t"
        using client_side [OF s(2) s1(1,2)] assms(4) by (simp add: c to_five_tuple_def)
      obtain p' r where f: "inbound_forward env dp meta i is_new p1 = Some (p', r)" "proc_ok env dp m p'" "pr_snap p' = pr_snap p1"
          "w_idx (pr_w p') = w_idx (pr_w p1)"
          "r = drop_res ST_DROP_NO_NEIGH \<and> mac_is_zero (rst_mac rs) \<or> r = drop_res ST_DROP_TTL \<and> ttl_used_up (pr_m p1) meta \<or>
           r = send_res \<and> (\<exists>s' mac. conn (pr_sessions p') i = Some s' \<and> ident s' = ident s1 \<and> length mac = 6 \<and>
             inbound_sent env dp (snap_mode (pr_snap p1)) meta s' mac (pr_m p1) (pr_m p'))"
        using inbound_forward_ok [OF s(2) s1(1), of rs meta is_new] s1(3) c(1) by auto
      have "result_ok dp (w_idx (pr_w p)) red r" using f(5) drop_reasons by auto
      moreover have "res_verdict r = SEND \<longrightarrow> (\<exists>i s rs mac. conn (pr_sessions p') i = Some s \<and> client s = ?t \<and>
         snap_rs (pr_snap p) (rs_id s) = Some rs \<and> usable rs \<and> length mac = 6 \<and>
         inbound_sent env dp (snap_mode (pr_snap p)) meta s mac (pr_m p) (pr_m p'))"
        using f(5) s1(3,4) cl c(2) f1(1) by (fastforce simp: ident_def)
      ultimately show ?thesis using f(1-4) f1 Inr x by (simp add: un)
    qed
  qed
qed

end

end
