(* ===== verification/Outbound.thy ===== *)
theory Outbound
  imports Inbound
begin

text \<open>
  Packets from a real server to a client, ICMP errors and echo requests, ARP, and the dispatch: every
  handler returns and keeps the invariant.
\<close>

definition return_sent ::
  "('h, 'n) lb_env \<Rightarrow> 'n dataplane \<Rightarrow> packet_meta \<Rightarrow> session \<Rightarrow> mac_addr \<Rightarrow> mbuf \<Rightarrow> mbuf \<Rightarrow> bool" where
  "return_sent env dp meta s mac b b' \<longleftrightarrow>
     (\<exists>meta' out. nat_rewrite (env_mbuf env) b meta (return_rewrite dp s mac)
        (nat_options_default\<lparr>opt_tx_offloads := dp_tx_offloads dp, opt_mtu := dp_mtu dp\<rparr>) rewrite_outcome_zero = (REWRITE_OK, b', meta', out))"

lemma fullnat_toa_clear: "(x AND NOT SF_TOA_PENDING) AND SF_FULLNAT = x AND SF_FULLNAT"
proof -
  have "NOT SF_TOA_PENDING AND SF_FULLNAT = SF_FULLNAT" by (simp add: SF_TOA_PENDING_def SF_FULLNAT_def)
  then show ?thesis by (simp add: and.assoc)
qed

text \<open>What every handler promises.\<close>

definition handled :: "('h, 'n) lb_env \<Rightarrow> 'n dataplane \<Rightarrow> manager \<Rightarrow> 'h proc \<Rightarrow> bool \<Rightarrow> ('h proc \<times> result) option \<Rightarrow> bool" where
  "handled env dp m p red x \<longleftrightarrow>
     (\<exists>p' r. x = Some (p', r) \<and> proc_ok env dp m p' \<and> same_config (pr_snap p) (pr_snap p') \<and> w_idx (pr_w p') = w_idx (pr_w p) \<and>
        result_ok dp (w_idx (pr_w p)) red r)"

context balancer
begin

lemma handledI:
  "proc_ok env dp m p' \<Longrightarrow> pr_snap p' = pr_snap p \<Longrightarrow> w_idx (pr_w p') = w_idx (pr_w p) \<Longrightarrow> result_ok dp (w_idx (pr_w p)) red r \<Longrightarrow>
    handled env dp m p red (Some (p', r))"
  by (simp add: handled_def)

lemma handled_drop:
  "proc_ok env dp m p \<Longrightarrow> e \<in> set drop_stats \<Longrightarrow> handled env dp m p red (Some (p, drop_res e))"
  by (simp add: handled_def)

section \<open>Return traffic\<close>

lemma return_forward_ok:
  assumes "proc_ok env dp m p" "conn (pr_sessions p) i = Some s"
  shows "\<exists>p' r. return_forward env dp meta i p = Some (p', r) \<and> proc_ok env dp m p' \<and> pr_snap p' = pr_snap p \<and>
    w_idx (pr_w p') = w_idx (pr_w p) \<and>
    (r = drop_res ST_DROP_NO_NEIGH \<or> r = drop_res ST_DROP_TTL \<and> ttl_used_up (pr_m p) meta \<or>
     r = send_res \<and> (\<exists>s' mac. conn (pr_sessions p') i = Some s' \<and> ident s' = ident s \<and> length mac = 6 \<and>
       return_sent env dp meta s' mac (pr_m p) (pr_m p')))"
proof -
  define p1 where "p1 = update_state dp i (pm_tcp_flags meta) RS_TO_CLIENT p"
  note u = update_state_ok [OF assms(1,2), of "pm_tcp_flags meta" RS_TO_CLIENT, folded p1_def]
  obtain s1 where s1: "conn (pr_sessions p1) i = Some s1" "ident s1 = ident s" using u(2) by blast
  define f where "f s = (let s = (if flags s AND SF_TOA_PENDING \<noteq> 0 \<and> pm_tcp_flags meta AND TCP_SYN = 0
                         then s\<lparr>flags := flags s AND NOT SF_TOA_PENDING\<rparr> else s)
                in s\<lparr>pkts_out := pkts_out s + 1, bytes_out := bytes_out s + ucast (pktmbuf_pkt_len env (pr_m p1))\<rparr>)" for s :: session
  define p2 where "p2 = on_sessions (modify i f) p1"
  have f: "wheel_view (f x) = wheel_view x" "core (f x) = f (core x)" "ident (f x) = ident x" "rs_mac (f x) = rs_mac x" "cli_mac (f x) = cli_mac x"
      "cli_src_mac (f x) = cli_src_mac x" for x
    by (simp_all add: f_def Let_def wheel_view_def core_def ident_def is_fullnat_def fullnat_toa_clear)
  note p2 = counters_ok [OF u(1) s1(1), of f, OF f, folded p2_def]
  obtain r p3 where r: "resolve_client_mac env dp i p2 = (r, p3)" by (metis prod.exhaust)
  note rr = resolve_client_ok [OF p2 r]
  obtain s3 where s3: "conn (pr_sessions p3) i = Some s3" "ident s3 = ident s"
    using rr(2) s1(2) f(3) by (auto simp: ident_def is_fullnat_def)
  have e3: "pr_snap p3 = pr_snap p" "pr_m p3 = pr_m p" "w_idx (pr_w p3) = w_idx (pr_w p)"
    using rr(3-5) u(3-5) by (simp_all add: p2_def)
  let ?opt = "nat_options_default\<lparr>opt_tx_offloads := dp_tx_offloads dp, opt_mtu := dp_mtu dp\<rparr>"
  have io: "return_rewrite dp (sess (pr_sessions p3) i) mac = return_rewrite dp s3 mac" for mac
    by (simp add: return_rewrite_def conn_sess [OF s3(1)])
  have un: "return_forward env dp meta i p =
      (case r of
           None \<Rightarrow> Some (p3, drop_res ST_DROP_NO_NEIGH)
         | Some cmac \<Rightarrow>
             (case nat_rewrite (env_mbuf env) (pr_m p3) meta (return_rewrite dp s3 cmac) ?opt rewrite_outcome_zero of
                  (r, m, meta', out) \<Rightarrow>
                    if r \<noteq> REWRITE_OK then Some (p3\<lparr>pr_m := m\<rparr>, drop_res ST_DROP_TTL)
                    else do {
                      p \<leftarrow> count_fwd_out env i (p3\<lparr>pr_m := m\<rparr>);
                      Some (p, send_res)
                    }))"
    unfolding return_forward_def Let_def p1_def [symmetric] f_def [symmetric, unfolded Let_def, abs_def]
      p2_def [symmetric] r prod.case io by (rule refl)
  show ?thesis
  proof (cases r)
    case None
    then show ?thesis using rr(1) e3 by (simp add: un)
  next
    case (Some mac)
    note mac = rr(6) [OF Some]
    obtain rw b meta' out where b: "nat_rewrite (env_mbuf env) (pr_m p3) meta (return_rewrite dp s3 mac) ?opt rewrite_outcome_zero = (rw, b, meta', out)"
      by (metis prod_cases4)
    show ?thesis
    proof (cases "rw = REWRITE_OK")
      case False
      then show ?thesis using rr(1) e3 b Some refused [OF b] by (simp add: un)
    next
      case True
      let ?q = "p3\<lparr>pr_m := b\<rparr>"
      have "proc_ok env dp m ?q" "conn (pr_sessions ?q) i = Some s3" using rr(1) s3 by simp_all
      from count_fwd_ok(2) [OF this] obtain p' where p': "count_fwd_out env i ?q = Some p'" "proc_ok env dp m p'" "pr_sessions p' = pr_sessions ?q"
          "pr_m p' = pr_m ?q" "pr_snap p' = pr_snap ?q" "w_idx (pr_w p') = w_idx (pr_w ?q)"
        by blast
      have "return_forward env dp meta i p = Some (p', send_res)" using Some b True p'(1) by (simp add: un)
      moreover have "return_sent env dp meta s3 mac (pr_m p) (pr_m p')"
        using b True e3 p' by (simp add: return_sent_def)
      ultimately show ?thesis using p' s3 e3 mac by auto
    qed
  qed
qed

lemma handle_return_ok:
  assumes "proc_ok env dp m p"
  shows "\<exists>p' r. handle_return env dp meta red p = Some (p', r) \<and> proc_ok env dp m p' \<and> pr_snap p' = pr_snap p \<and>
    w_idx (pr_w p') = w_idx (pr_w p) \<and> result_ok dp (w_idx (pr_w p)) red r \<and>
    (res_verdict r = SEND \<longrightarrow> (\<exists>i s rs mac. conn (pr_sessions p) i \<noteq> None \<and> conn (pr_sessions p') i = Some s \<and> server s = to_five_tuple meta \<and>
       snap_rs (pr_snap p) (rs_id s) = Some rs \<and> usable rs \<and> length mac = 6 \<and> return_sent env dp meta s mac (pr_m p) (pr_m p')))"
proof -
  let ?t = "to_five_tuple meta"
  define owner where "owner = ret_owner (env_rss env) (dp_steering dp) ?t"
  have drop: "result_ok dp (w_idx (pr_w p)) red (drop_res e)" if "e \<in> {ST_DROP_NO_SESSION, ST_DROP_RS_DOWN, ST_DROP_NO_NEIGH, ST_DROP_TTL}" for e
    using that drop_reasons by auto
  show ?thesis
  proof (cases "owner = w_idx (pr_w p)")
    case False
    then show ?thesis
      using assms not_owner_ok [OF ret_owner_less [OF steering(1)] False [unfolded owner_def]] not_owner_verdict
      by (simp add: handle_return_def owner_def [symmetric])
  next
    case True
    show ?thesis
    proof (cases "st_lookup (env_sess env) (pr_sessions p) ?t")
      case None
      then show ?thesis using True assms drop by (simp add: handle_return_def owner_def [symmetric])
    next
      case (Some i)
      obtain s where s: "conn (pr_sessions p) i = Some s" using lookup_ok [OF assms] Some by blast
      let ?rs = "snap_rs (pr_snap p) (rs_id s)"
      have un: "handle_return env dp meta red p =
        (if flags s AND SF_FULLNAT = 0 \<or> server s \<noteq> ?t then Some (p, drop_res ST_DROP_NO_SESSION)
         else if ?rs = None \<or> \<not> usable (the ?rs) then Some (close_session env i p, drop_res ST_DROP_RS_DOWN)
         else return_forward env dp meta i p)"
        using True Some by (simp add: handle_return_def owner_def [symmetric] Let_def conn_sess [OF s])
      show ?thesis
      proof (cases "flags s AND SF_FULLNAT = 0 \<or> server s \<noteq> ?t \<or> ?rs = None \<or> \<not> usable (the ?rs)")
        case True
        then have "handle_return env dp meta red p = Some (p, drop_res ST_DROP_NO_SESSION) \<or>
            handle_return env dp meta red p = Some (close_session env i p, drop_res ST_DROP_RS_DOWN)"
          unfolding un by presburger
        then show ?thesis
          using assms drop [of ST_DROP_NO_SESSION] drop [of ST_DROP_RS_DOWN] close_ok(1) [OF assms s] by (elim disjE) simp_all
      next
        case False
        then obtain rs where rs: "?rs = Some rs" "usable rs" by auto
        obtain p' r where f: "return_forward env dp meta i p = Some (p', r)" "proc_ok env dp m p'" "pr_snap p' = pr_snap p"
            "w_idx (pr_w p') = w_idx (pr_w p)" "r = drop_res ST_DROP_NO_NEIGH \<or> r = drop_res ST_DROP_TTL \<and> ttl_used_up (pr_m p) meta \<or>
             r = send_res \<and> (\<exists>s' mac. conn (pr_sessions p') i = Some s' \<and> ident s' = ident s \<and> length mac = 6 \<and>
               return_sent env dp meta s' mac (pr_m p) (pr_m p'))"
          using return_forward_ok [OF assms s, of meta] by blast
        have "handle_return env dp meta red p = Some (p', r)" using False f(1) rs(1) unfolding un by simp
        moreover have "result_ok dp (w_idx (pr_w p)) red r"
          using f(5) drop [of ST_DROP_NO_NEIGH] drop [of ST_DROP_TTL] result_ok_simps(1) by blast
        moreover have "res_verdict r = SEND \<longrightarrow> (\<exists>i s rs mac. conn (pr_sessions p) i \<noteq> None \<and> conn (pr_sessions p') i = Some s \<and>
            server s = ?t \<and> snap_rs (pr_snap p) (rs_id s) = Some rs \<and> usable rs \<and> length mac = 6 \<and> return_sent env dp meta s mac (pr_m p) (pr_m p'))"
        proof
          assume "res_verdict r = SEND"
          then obtain s' mac where s': "conn (pr_sessions p') i = Some s'" "ident s' = ident s" "length mac = 6"
              "return_sent env dp meta s' mac (pr_m p) (pr_m p')"
            using f(5) by auto
          then have "server s' = ?t" "rs_id s' = rs_id s" using False by (simp_all add: ident_def)
          then show "\<exists>i s rs mac. conn (pr_sessions p) i \<noteq> None \<and> conn (pr_sessions p') i = Some s \<and>
              server s = ?t \<and> snap_rs (pr_snap p) (rs_id s) = Some rs \<and> usable rs \<and> length mac = 6 \<and> return_sent env dp meta s mac (pr_m p) (pr_m p')"
            using s s' rs by (intro exI [of _ i] exI [of _ s'] exI [of _ rs] exI [of _ mac]) simp
        qed
        ultimately show ?thesis using f(2-4) by (intro exI [of _ p'] exI [of _ r] conjI)
      qed
    qed
  qed
qed

section \<open>ICMP\<close>

lemma icmp_to_client_ok:
  assumes "proc_ok env dp m p"
  shows "handled env dp m p red (icmp_error_to_client env dp meta info red p)"
proof -
  let ?key = "reverse (inner info)"
  define owner where "owner = ret_owner (env_rss env) (dp_steering dp) ?key"
  note d = handled_drop [OF assms] drop_reasons
  show ?thesis
  proof (cases "owner = w_idx (pr_w p)")
    case False
    then show ?thesis
      using assms not_owner_ok [OF ret_owner_less [OF steering(1)] False [unfolded owner_def]]
      by (simp add: icmp_error_to_client_def owner_def [symmetric] handled_def)
  next
    case True
    show ?thesis
    proof (cases "st_lookup (env_sess env) (pr_sessions p) ?key")
      case None
      then show ?thesis using True d by (simp add: icmp_error_to_client_def owner_def [symmetric])
    next
      case (Some i)
      obtain s where s: "conn (pr_sessions p) i = Some s" using lookup_ok [OF assms] Some by blast
      obtain r p3 where r: "resolve_client_mac env dp i p = (r, p3)" by (metis prod.exhaust)
      note rr = resolve_client_ok [OF assms s r]
      show ?thesis
        using True Some r rr(1,3,5) d
        by (auto simp: icmp_error_to_client_def owner_def [symmetric] Let_def split: option.splits prod.splits intro!: handledI)
    qed
  qed
qed

lemma icmp_to_rs_ok:
  assumes "proc_ok env dp m p"
  shows "handled env dp m p red (icmp_error_to_rs env dp meta info red p)"
proof -
  let ?key = "reverse (inner info)"
  define owner where "owner = fwd_owner (env_hash env) (env_rss env) (dp_steering dp) ?key"
  note d = handled_drop [OF assms] drop_reasons
  show ?thesis
  proof (cases "owner = w_idx (pr_w p)")
    case False
    then show ?thesis
      using assms not_owner_ok [OF fwd_owner_less [OF steering(1)] False [unfolded owner_def]]
      by (simp add: icmp_error_to_rs_def owner_def [symmetric] handled_def)
  next
    case True
    show ?thesis
    proof (cases "st_lookup (env_sess env) (pr_sessions p) ?key")
      case None
      then show ?thesis using True d by (simp add: icmp_error_to_rs_def owner_def [symmetric])
    next
      case (Some i)
      obtain s where s: "conn (pr_sessions p) i = Some s" using lookup_ok [OF assms] Some by blast
      show ?thesis
      proof (cases "snap_rs (pr_snap p) (rs_id s)")
        case None
        then show ?thesis using True Some d by (simp add: icmp_error_to_rs_def owner_def [symmetric] Let_def conn_sess [OF s])
      next
        case (Some rs)
        obtain r p3 where r: "resolve_rs_mac env dp i rs p = (r, p3)" by (metis prod.exhaust)
        note rr = resolve_rs_ok [OF assms s snap_rs_ok(3) [OF okD(6) [OF assms] Some] r]
        show ?thesis
          using True Some \<open>st_lookup (env_sess env) (pr_sessions p) ?key = Some i\<close> r rr(1,3,5) d
          by (auto simp: icmp_error_to_rs_def owner_def [symmetric] Let_def conn_sess [OF s] split: option.splits prod.splits intro!: handledI)
      qed
    qed
  qed
qed

lemma and_also_some: "\<exists>x. a = Some x \<Longrightarrow> \<exists>x. b = Some x \<Longrightarrow> \<exists>x. and_also a b = Some x"
  by (auto simp: and_also_def split: bool.splits)

lemma handle_icmp_error_ok:
  assumes "proc_ok env dp m p"
  shows "handled env dp m p red (handle_icmp_error env dp meta red p)"
proof (cases "parse_icmp_error (mb_data (pr_m p)) meta")
  case None
  then show ?thesis using handled_drop [OF assms] drop_reasons by (simp add: handle_icmp_error_def)
next
  case (Some info)
  note a = snap_answers [OF okD(6) [OF assms]]
  let ?he = "env_hash env" and ?snap = "pr_snap p"
  have "\<exists>x. and_also (and_also (Some (snap_mode ?snap = NAT)) (is_lip ?he ?snap (pm_dst_ip meta)))
      (and_also (is_lip ?he ?snap (src_ip (inner info))) (Some (in_nat_range (src_port (inner info))))) = Some x"
    "\<exists>x. and_also (is_vip ?he ?snap (pm_dst_ip meta)) (is_vip ?he ?snap (src_ip (inner info))) = Some x"
    by (intro and_also_some a exI [of _ "snap_mode ?snap = NAT"] exI [of _ "in_nat_range (src_port (inner info))"] refl)+
  then obtain c1 c2 where c: "and_also (and_also (Some (snap_mode ?snap = NAT)) (is_lip ?he ?snap (pm_dst_ip meta)))
      (and_also (is_lip ?he ?snap (src_ip (inner info))) (Some (in_nat_range (src_port (inner info))))) = Some c1"
    "and_also (is_vip ?he ?snap (pm_dst_ip meta)) (is_vip ?he ?snap (src_ip (inner info))) = Some c2" by blast
  show ?thesis
    unfolding handle_icmp_error_def Some option.case Let_def c bind.simps
    using icmp_to_client_ok [OF assms] icmp_to_rs_ok [OF assms] handled_drop [OF assms] drop_reasons by simp
qed

lemma handle_icmp_ok:
  assumes "proc_ok env dp m p"
  shows "handled env dp m p red (handle_icmp env dp meta red p)"
  using assms handle_icmp_error_ok [OF assms] drop_reasons
  by (auto simp: handle_icmp_def Let_def split: prod.splits intro!: handledI)

section \<open>ARP, health checks and the rest\<close>

lemma handle_hc_ok: "proc_ok env dp m p \<Longrightarrow> handled env dp m p red (Some (handle_hc_response meta p))"
  using drop_reasons by (auto simp: handle_hc_response_def Let_def intro!: handledI)

lemma handle_arp_ok:
  assumes "proc_ok env dp m p"
  shows "handled env dp m p red (handle_arp env dp p)"
proof -
  note l = snap_answers(3) [OF okD(6) [OF assms]]
  obtain b1 where b1: "is_local (env_hash env) (pr_snap p) (arp_sender_ip (mb_data (pr_m p))) = Some b1" using l by blast
  obtain b2 where b2: "is_local (env_hash env) (pr_snap p) (arp_target_ip (mb_data (pr_m p))) = Some b2" using l by blast
  have con: "handled env dp m p red (Some (count ST_ARP p, consumed_res))" using assms by (simp add: handledI)
  have rep: "handled env dp m p red (Some (post_master_event ev (count ST_ARP p), consumed_res))" for ev
    using assms by (simp add: handledI)
  have req: "handled env dp m p red (Some ((if c then post_master_event ev (count ST_ARP p) else count ST_ARP p)
      \<lparr>pr_m := b\<rparr>, send_res))" for c ev b
    using assms by (simp add: handledI)
  show ?thesis
    unfolding handle_arp_def Let_def b1 b2 bind.simps using con rep req handled_drop [OF assms] drop_reasons by simp
qed

lemma not_served_ok: "proc_ok env dp m p \<Longrightarrow> handled env dp m p red (not_served env meta p)"
proof -
  assume p: "proc_ok env dp m p"
  then obtain b where b: "is_local (env_hash env) (pr_snap p) (pm_dst_ip meta) = Some b"
    using snap_answers(3) [OF okD(6) [OF p]] by blast
  show ?thesis unfolding not_served_def b bind.simps using p drop_reasons by (auto intro!: handledI)
qed

lemma handled_count:
  assumes "handled env dp m (count i p) red x"
  shows "handled env dp m p red x"
  using assms by (simp add: handled_def)

lemma dispatch_ok:
  assumes "proc_ok env dp m p" "14 \<le> length (mb_data (pr_m p))"
  shows "handled env dp m p red (dispatch_l4 env dp meta red rss p)"
proof -
  let ?snap = "pr_snap p" and ?he = "env_hash env"
  note a = snap_answers [OF okD(6) [OF assms(1)]]
  obtain l where l: "is_lip ?he ?snap (pm_dst_ip meta) = Some l" using a(2) by blast
  have ret: "and_also (and_also (Some (snap_mode ?snap = NAT)) (is_lip ?he ?snap (pm_dst_ip meta))) (Some (in_nat_range (pm_dst_port meta))) =
      Some (snap_mode ?snap = NAT \<and> l \<and> in_nat_range (pm_dst_port meta))"
    by (simp add: and_also_def l split: bool.splits)
  obtain svc where svc: "find_service ?he ?snap (pm_dst_ip meta) (pm_dst_port meta) (pm_ip_protocol meta) = Some svc"
      "\<And>k. svc = Some k \<Longrightarrow> k < length (snap_services ?snap)"
      "\<And>k. svc = Some k \<Longrightarrow> svc_key (snap_services ?snap ! k) = (pm_dst_ip meta, pm_dst_port meta, pm_ip_protocol meta)"
    using a(4) [of "pm_dst_ip meta" "pm_dst_port meta" "pm_ip_protocol meta"] by blast
  have ret_ok: "handled env dp m p red (handle_return env dp meta red p)"
    using handle_return_ok [OF assms(1), of meta red] unfolding handled_def by (metis same_config_refl)
  have in_ok: "handled env dp m p red (handle_inbound env dp k meta red rss p)"
    if "svc = Some k" "\<not> (snap_mode ?snap = NAT \<and> l \<and> in_nat_range (pm_dst_port meta))" for k
    using handle_inbound_ok [OF assms(1) svc(2) [OF that(1)] assms(2), of meta red rss] svc(3) [OF that(1)] that(2) l unfolding handled_def by auto
  show ?thesis
    unfolding dispatch_l4_def Let_def ret svc(1) bind.simps
    using ret_ok in_ok handle_hc_ok [OF assms(1)] not_served_ok [OF assms(1)] by (auto split: option.splits)
qed

lemma process_ok:
  assumes "proc_ok env dp m p"
  shows "handled env dp m p red (process_packet env dp red rss p)"
proof (cases "length (mb_data (pr_m p)) < 14")
  case False
  obtain r meta where pm: "parse (mb_data (pr_m p)) meta_zero = (r, meta)" by (metis prod.exhaust)
  obtain b where b: "is_local (env_hash env) (pr_snap p) (pm_dst_ip meta) = Some b"
    using snap_answers(3) [OF okD(6) [OF assms]] by blast
  have c: "handled env dp m p red (f (if red then p else count i p))"
    if "\<And>q. proc_ok env dp m q \<Longrightarrow> pr_m q = pr_m p \<Longrightarrow> handled env dp m q red (f q)" "i \<in> {ST_ICMP, ST_TCP, ST_UDP}" for f i
    using that handled_count [of m i p] assms by auto
  note h = c [of "handle_icmp env dp meta red" ST_ICMP, OF handle_icmp_ok]
    c [of "dispatch_l4 env dp meta red rss" ST_TCP, OF dispatch_ok] c [of "dispatch_l4 env dp meta red rss" ST_UDP, OF dispatch_ok]
  have d: "handled env dp m p red (Some (p, drop_res e))" if "e \<in> {ST_DROP_OTHER, ST_DROP_FRAGMENT, ST_DROP_MALFORMED, ST_DROP_CKSUM, ST_DROP_NOT_LOCAL}" for e
    using handled_drop [OF assms] drop_reasons that by auto
  have con: "handled env dp m p red (Some (p, consumed_res))" using assms by (simp add: handledI)
  have l4: "handled env dp m p red (dispatch_l4 env dp meta red rss
      (if red then p else count (if pm_ip_protocol meta = 6 then ST_TCP else ST_UDP) p))"
    using h(2,3) False by (cases red; cases "pm_ip_protocol meta = 6") simp_all
  show ?thesis
    using False h(1) d con l4 handle_arp_ok [OF assms] not_served_ok [OF assms]
    unfolding process_packet_def Let_def pm prod.case b bind.simps by (cases r) simp_all
qed (use assms drop_reasons in \<open>auto simp: process_packet_def intro!: handledI\<close>)

end

end
