(* ===== verification/First_Packet.thy ===== *)
theory First_Packet
  imports Outbound
begin

text \<open>
  The first packet of a connection gets through when there is a server to pick, room in the table and a hardware
  address for the server.
\<close>

context balancer
begin

lemma probe_fresh:
  assumes "w_idx w < str_n (dp_steering dp)" "\<And>key. st_lookup (env_sess env) (w_sessions w) key = None"
    "\<not> ret_by_rss (dp_steering dp) (protocol cli)" "li < length (snap_local_ips snap)"
    "\<And>srv. \<exists>i. snd (st_create (env_sess env) (w_sessions w) cli srv (w_now_tick w) timeout) = Some i"
  shows "\<exists>w' i. fullnat_probe env dp snap cli rs timeout li (Suc n) w = Found w' i"
proof -
  let ?step = "port_step (dp_steering dp) (protocol cli)"
  define k where "k = unat (w_lip_cursor w ! li) mod ((kNatPortMax - kNatPortMin + 1) div ?step)"
  have kb: "k < (kNatPortMax - kNatPortMin + 1) div ?step"
    unfolding k_def using port_step_pos [of "protocol cli"] by (intro mod_less_divisor) (simp add: div_greater_zero_iff)
  have port: "\<not> snat_port (w_idx w) ?step k > kNatPortMax" using snat_port_range(2) [OF port_step_pos kb, of "w_idx w"] by simp
  define srv where "srv = FiveTuple (rst_ip rs) (snap_local_ips snap ! li) (rst_port_be rs)
    (htons (word_of_nat (snat_port (w_idx w) ?step k))) (protocol cli)"
  obtain t i where c: "st_create (env_sess env) (w_sessions w) cli (Some srv) (w_now_tick w) timeout = (t, Some i)"
    using assms(5) [of "Some srv"] by (metis prod.collapse)
  show ?thesis
    unfolding probe_step [OF k_def refl srv_def] using assms(3) port c assms(2) by (simp add: key_in_use_def)
qed

lemma create_fullnat_fresh:
  assumes "w_idx w < str_n (dp_steering dp)" "\<And>key. st_lookup (env_sess env) (w_sessions w) key = None"
    "\<not> ret_by_rss (dp_steering dp) (protocol cli)" "snap_local_ips snap \<noteq> []"
    "\<And>srv. \<exists>i. snd (st_create (env_sess env) (w_sessions w) cli srv (w_now_tick w) timeout) = Some i"
  shows "\<exists>w' i. create_fullnat env dp snap cli rs timeout w = (w', Inr i)"
proof -
  define w0 where "w0 = w\<lparr>w_lip_cursor := w_lip_cursor w @ replicate (length (snap_local_ips snap) - length (w_lip_cursor w)) 0\<rparr>"
  obtain n where n: "length (snap_local_ips snap) = Suc n" using assms(4) by (cases "snap_local_ips snap") auto
  define li where "li = unat (w_lip_rr w0) mod length (snap_local_ips snap)"
  have li: "li < length (snap_local_ips snap)" using assms(4) by (simp add: li_def)
  obtain w' i where p: "fullnat_probe env dp snap cli rs timeout li (Suc 63) w0 = Found w' i"
    using probe_fresh [of w0 cli li snap timeout rs 63] assms li by (auto simp: w0_def)
  have "Suc 63 = (64 :: nat)" by simp
  then have f: "fullnat_lips env dp snap cli rs timeout (unat (w_lip_rr w0)) (length (snap_local_ips snap)) w0 = Found w' i"
    using p assms(3) unfolding n fullnat_lips.simps Let_def by (simp add: li_def n)
  show ?thesis using assms(4) unfolding create_fullnat_def Let_def w0_def [symmetric] f by simp
qed

lemma new_session_fresh:
  assumes "proc_ok env dp m p" "k < length (snap_services (pr_snap p))" "14 \<le> length (mb_data (pr_m p))"
    "fwd_owner (env_hash env) (env_rss env) (dp_steering dp) tuple = w_idx (pr_w p)"
    "svc_key (snap_services (pr_snap p) ! k) = (dst_ip tuple, dst_port tuple, protocol tuple)"
    "\<And>key. st_lookup (env_sess env) (pr_sessions p) key = None"
    "\<And>srv timeout. \<exists>i. snd (st_create (env_sess env) (pr_sessions p) tuple srv (w_now_tick (pr_w p)) timeout) = Some i"
    "snap_mode (pr_snap p) = NAT \<Longrightarrow> snap_local_ips (pr_snap p) \<noteq> [] \<and> \<not> ret_by_rss (dp_steering dp) (protocol tuple)"
    "snd (sched_pick (jhash_3words (env_hash env)) (sv_sched (snap_services (pr_snap p) ! k)) tuple (w_idx (pr_w p))) = Some j"
  shows "\<exists>p' i. new_session env dp k tuple p = Some (p', Inr i)"
proof -
  obtain p' r where n: "new_session env dp k tuple p = Some (p', r)"
    using new_session_ok [OF assms(1,2,6,3,4,5)] by blast
  let ?snap = "pr_snap p"
  let ?svc = "snap_services ?snap ! k"
  obtain sched where pick: "sched_pick (jhash_3words (env_hash env)) (sv_sched ?svc) tuple (w_idx (pr_w p)) = (sched, Some j)"
    using assms(9) by (metis prod.collapse)
  define rs where "rs = snap_rs_pool ?snap ! (sv_rs ?svc ! j)"
  define timeout where "timeout = (if protocol tuple = 6 then to_tcp_syn (lb_timeouts (dp_cfg dp)) else to_udp (lb_timeouts (dp_cfg dp)))"
  define snap' where "snap' = ?snap\<lparr>snap_services := (snap_services ?snap)[k := ?svc\<lparr>sv_sched := sched\<rparr>]\<rparr>"
  define made where "made = (if snap_mode ?snap = NAT then create_fullnat env dp ?snap tuple rs timeout (pr_w p)
        else case st_create (env_sess env) (pr_sessions p) tuple None (w_now_tick (pr_w p)) timeout of
               (t, None) \<Rightarrow> ((pr_w p)\<lparr>w_sessions := t\<rparr>, Inl ST_DROP_TABLE_FULL)
             | (t, Some si) \<Rightarrow> ((pr_w p)\<lparr>w_sessions := t\<rparr>, Inr si))"
  have "\<exists>w' i. made = (w', Inr i)"
  proof (cases "snap_mode ?snap = NAT")
    case True
    then show ?thesis using create_fullnat_fresh [OF okD(7) [OF assms(1)] assms(6)] assms(7,8) by (simp add: made_def)
  next
    case False
    obtain t i where "st_create (env_sess env) (pr_sessions p) tuple None (w_now_tick (pr_w p)) timeout = (t, Some i)"
      using assms(7) [of None timeout] by (metis prod.collapse)
    then show ?thesis using False by (simp add: made_def)
  qed
  then obtain w' i where wr: "made = (w', Inr i)" by blast
  have sel: "pr_w (p\<lparr>pr_snap := snap'\<rparr>) = pr_w p" by simp
  have "r = Inr i"
    using n unfolding new_session_def Let_def pick prod.case option.case rs_def [symmetric] timeout_def [symmetric]
      snap'_def [symmetric] sel made_def [symmetric] wr sum.case
    by (auto split: Option.bind_splits)
  then show ?thesis using n by blast
qed

lemma first_packet_sent:
  assumes "proc_ok env dp m p" "find_service (env_hash env) (pr_snap p) (pm_dst_ip meta) (pm_dst_port meta) (pm_ip_protocol meta) = Some (Some k)"
    "\<not> (snap_mode (pr_snap p) = NAT \<and> is_lip (env_hash env) (pr_snap p) (pm_dst_ip meta) = Some True \<and> in_nat_range (pm_dst_port meta))"
    "\<not> (pm_dst_ip meta = snap_hc_src (pr_snap p) \<and> in_hc_range (pm_dst_port meta))"
    "fwd_owner (env_hash env) (env_rss env) (dp_steering dp) (to_five_tuple meta) = w_idx (pr_w p)" "pm_ip_protocol meta = 6 \<longrightarrow> is_syn meta"
    "meta_fits (mb_data (pr_m p)) meta" "\<not> ip_ttl (mb_data (pr_m p)) 14 \<le> 1"
    "\<And>key. st_lookup (env_sess env) (pr_sessions p) key = None"
    "\<And>srv timeout. \<exists>i. snd (st_create (env_sess env) (pr_sessions p) (to_five_tuple meta) srv (w_now_tick (pr_w p)) timeout) = Some i"
    "snap_mode (pr_snap p) = NAT \<Longrightarrow> snap_local_ips (pr_snap p) \<noteq> [] \<and> \<not> ret_by_rss (dp_steering dp) (pm_ip_protocol meta)"
    "snd (sched_pick (jhash_3words (env_hash env)) (sv_sched (snap_services (pr_snap p) ! k)) (to_five_tuple meta) (w_idx (pr_w p))) = Some j"
    "\<And>i rs. snap_rs (pr_snap p) i = Some rs \<Longrightarrow> \<not> mac_is_zero (rst_mac rs)"
  shows "\<exists>p'. dispatch_l4 env dp meta red rss p = Some (p', send_res)"
proof -
  let ?t = "to_five_tuple meta"
  have len: "14 \<le> length (mb_data (pr_m p))" using assms(7) by (auto simp: meta_fits_def)
  note a = snap_answers [OF okD(6) [OF assms(1)]]
  obtain l where l: "is_lip (env_hash env) (pr_snap p) (pm_dst_ip meta) = Some l" using a(2) by blast
  have key: "k < length (snap_services (pr_snap p))" "svc_key (snap_services (pr_snap p) ! k) = (pm_dst_ip meta, pm_dst_port meta, pm_ip_protocol meta)"
    using a(4) [of "pm_dst_ip meta" "pm_dst_port meta" "pm_ip_protocol meta"] assms(2) by auto
  define p0 where "p0 = rss_check env dp ?t (is_syn meta) red rss p"
  have p0: "proc_ok env dp m p0" "pr_snap p0 = pr_snap p" "pr_m p0 = pr_m p" "pr_w p0 = (pr_w p)\<lparr>w_stats := w_stats (pr_w p0)\<rparr>"
    using assms(1) by (simp_all add: p0_def rss_check_ok) (simp_all add: rss_check_def count_def Let_def)
  then have w0: "pr_sessions p0 = pr_sessions p" "w_idx (pr_w p0) = w_idx (pr_w p)" "w_now_tick (pr_w p0) = w_now_tick (pr_w p)"
    by (metis worker.select_convs worker.surjective worker.update_convs(3))+
  have disp: "dispatch_l4 env dp meta red rss p = handle_inbound env dp k meta red rss p"
    using assms(3,4) unfolding dispatch_l4_def Let_def assms(2) l by (auto simp: and_also_def split: bool.splits)
  obtain p1 i where n: "new_session env dp k ?t p0 = Some (p1, Inr i)"
    using new_session_fresh [OF p0(1), of k ?t j] key len assms(5,9-12) p0 w0 by (auto simp: to_five_tuple_def)
  have s: "inbound_session env dp k meta p0 = Some (p1, Inr (i, True))"
    using n assms(6,9) w0(1) by (simp add: inbound_session_def Let_def)
  obtain r where r: "r = Some (p1, Inr (i, True))" "case r of Some (q, Inr (i, _)) \<Rightarrow> proc_ok env dp m q \<and> frame p0 q \<and> found_session (pr_snap p0) ?t q i | _ \<Rightarrow> True"
    using inbound_session_ok [OF p0(1), of k meta] key len assms(5) p0 w0 s by auto
  then obtain s1 rs where s1: "proc_ok env dp m p1" "frame p0 p1" "conn (pr_sessions p1) i = Some s1" "snap_rs (pr_snap p1) (rs_id s1) = Some rs"
    using p0(2) by (auto simp: found_session_def frame_def same_configD)
  have "\<not> mac_is_zero (rst_mac rs)" using assms(13) s1(2,4) p0(2) by (auto simp: frame_def same_configD)
  moreover have "\<not> ttl_used_up (pr_m p1) meta" using s1(2) p0(3) assms(7,8) by (simp add: frame_def ttl_used_up_def)
  ultimately have "\<exists>p'. inbound_forward env dp meta i True p1 = Some (p', send_res)"
    using inbound_forward_ok [OF s1(1,3,4), of meta True] by blast
  then show ?thesis using s assms(5) by (simp add: disp handle_inbound_def Let_def p0_def)
qed

end

end
