(* ===== verification/Processor_Demo.thy ===== *)
theory Processor_Demo
  imports First_Packet
begin

text \<open>
  A balancer with one service and one real server, and the first packet of a connection to the service.
\<close>

definition work_cfg :: lb_config where
  "work_cfg = lb_config_default\<lparr>lb_local_ips := [0x0300000A], lb_services := [service_conf_default\<lparr>sc_vip := 0x0200000A, sc_port := 80,
     sc_rs := [rs_conf_default\<lparr>rc_ip := 0x0500000A, rc_port := 8080, rc_mac := [2, 0, 0, 0, 0, 5]\<rparr>]\<rparr>]\<rparr>"

definition work_env :: "((five_tuple, nat) bounded_hash, (ipv4_addr, u64) bounded_hash) lb_env" where
  "work_env = ref_env demo_env \<lparr>softrss_be = \<lambda>_ _. 0, convert_rss_key = \<lambda>k. k\<rparr>"

definition work_dp :: "(ipv4_addr, u64) bounded_hash dataplane" where
  "work_dp = ref_dp work_cfg (route_init 0 0 0) (2, 0, 0, 0, 0, 9) 1"

definition work_worker :: "(five_tuple, nat) bounded_hash worker" where
  "work_worker = \<lparr>w_idx = 0, w_sessions = demo_init, w_stats = worker_stats_zero, w_rs_stats = replicate kMaxRsCounters rs_counters_zero,
     w_lip_cursor = [], w_lip_rr = 0, w_now_tick = 0\<rparr>"

definition work_mgr :: "forward_mode \<Rightarrow> manager" where
  "work_mgr mode = manager_zero\<lparr>mgr_mode := mode, mgr_local_ips := lb_local_ips work_cfg,
     mgr_services := fst (desired_services 1 (lb_services work_cfg)), mgr_next_rs_id := 2\<rparr>"

interpretation work: balancer work_env work_dp
  unfolding work_env_def work_dp_def by (rule started.balancer_axioms)

lemma work_services:
  "mgr_services (work_mgr mode) = [\<lparr>ds_conf = service_conf_default\<lparr>sc_vip := 0x0200000A, sc_port := 80, sc_rs := []\<rparr>,
     ds_rs = [\<lparr>dr_id = 1, dr_conf = rs_conf_default\<lparr>rc_ip := 0x0500000A, rc_port := 8080, rc_mac := [2, 0, 0, 0, 0, 5]\<rparr>,
       dr_enabled = True, dr_healthy = True\<rparr>]\<rparr>]"
  by (simp add: work_mgr_def work_cfg_def)

lemma work_fits: "mgr_fits (work_mgr mode)" "macs_ok (work_mgr mode)" "mgr_next_rs_id (work_mgr mode) = 2"
  by (simp_all add: mgr_fits_def macs_ok_def work_services ids_of_def kMaxServices_def kMaxRsPerService_def kMaxLocalIps_def)
    (simp_all add: work_mgr_def work_cfg_def)

lemma demo_conn: "conn demo_init = Map.empty"
proof
  fix i
  have g: "st_good bounded_ops 0 demo_init"
    using st_run_inv [OF bounded.rte_hash_axioms demo_init_run] by (simp add: st_good_def)
  show "conn demo_init i = None"
  proof (cases "conn demo_init i")
    case (Some s)
    then have "st_lookup bounded_ops demo_init (client s) = Some i" using lookup_conn [OF g] by (auto simp: has_key_def)
    then show ?thesis by (simp add: demo_fresh)
  qed
qed

lemma work_worker_ok: "worker_ok work_env work_dp snap work_worker"
proof -
  have g: "st_good bounded_ops 0 demo_init"
    using st_run_inv [OF bounded.rte_hash_axioms demo_init_run] by (simp add: st_good_def)
  have "in_horizon demo_init 0 (state_timeout st (lb_timeouts work_cfg))" for st
    by (cases st) (simp_all add: in_horizon_def deadline_def demo_init_eq kWheelSlots_def state_timeout_def work_cfg_def
        lb_config_default_def timeout_conf_default_def)
  then show ?thesis
    using g by (simp add: worker_ok_def table_ok_def work_worker_def demo_conn work_env_def work_dp_def ref_env_def ref_dp_def init_sw_def
        worker_stats_zero_def)
qed

lemma work_snapshot:
  obtains m snap where "snap_ok work_env m snap" "snap_mode snap = mode" "mgr_services m = mgr_services (work_mgr mode)"
    "snap_local_ips snap = [0x0300000A]" "snap_hc_src snap = 0"
proof (rule publish_exact [OF work_fits(1), of demo_env mode])
  fix m' snap
  assume a: "publish demo_env (work_mgr mode) = Some m'" "mgr_cur m' = Some snap" "snap_of demo_env m' snap" "mgr_fits m'"
    "extends (work_mgr mode) m'" "mgr_services m' = mgr_services (work_mgr mode)"
  have "mgr_next_rs_id m' = 2" using a(1) work_fits(3) by (auto simp: publish_def Let_def)
  moreover have "macs_ok m'" using work_fits(2) a(6) by (simp add: macs_ok_def)
  moreover have "snap_mode snap = mgr_mode m'" "snap_local_ips snap = mgr_local_ips m'" "snap_hc_src snap = mgr_hc_src m'"
    using a(3) unfolding snap_of_def by blast+
  ultimately show thesis
    using a by (intro that [of m' snap]) (simp_all add: snap_ok_def work_env_def ref_env_def kMaxRsCounters_def extends_def work_mgr_def
        manager_zero_def work_cfg_def)
qed

text \<open>The state of the worker when the packet arrives, for a published snapshot.\<close>

definition work_proc :: "snapshot \<Rightarrow> (five_tuple, nat) bounded_hash proc" where
  "work_proc snap = \<lparr>pr_w = work_worker, pr_snap = snap, pr_m = demo_mbuf, pr_events = []\<rparr>"

lemma work_proc_ok: "snap_ok work_env m snap \<Longrightarrow> proc_ok work_env work_dp m (work_proc snap)"
  by (simp add: proc_ok_def work_proc_def work_worker_ok)

lemma demo_meta_tuple:
  "pm_dst_ip demo_meta = 0x0200000A" "pm_dst_port demo_meta = htons 80" "pm_ip_protocol demo_meta = 6" "is_syn demo_meta" "pm_l4_offset demo_meta = 34"
proof -
  have f: "meta_fits demo_frame demo_meta" using demo_mbuf_fits(1) by (simp add: demo_mbuf_def)
  then show l4: "pm_l4_offset demo_meta = 34" by (simp add: meta_fits_def demo_fields)
  have tcp: "ip_is_tcp demo_frame 14" by (rule demo_fields)
  then show pr: "pm_ip_protocol demo_meta = 6" using f by (simp add: meta_fits_def ip_is_tcp_def)
  show "pm_dst_ip demo_meta = 0x0200000A"
    using f by (simp add: meta_fits_def ip_dst_def demo_frame_def get32_def get16_def le16_def le32_def)
  show "pm_dst_port demo_meta = htons 80"
    using f tcp l4 by (simp add: meta_fits_def l4_fits_def l4_dst_port_def demo_frame_def get16_def le16_def bswap16_def lo8_def hi8_def)
  have "pm_tcp_flags demo_meta = 2"
    using f tcp l4 by (simp add: meta_fits_def l4_fits_def tcp_flags_def demo_frame_def)
  then show "is_syn demo_meta" using pr by (simp add: is_syn_def TCP_SYN_def TCP_ACK_def TCP_RST_def)
qed

lemma work_sent:
  assumes "snap_ok work_env m snap" "snap_mode snap = mode" "mgr_services m = mgr_services (work_mgr mode)"
    "snap_local_ips snap = [0x0300000A]" "snap_hc_src snap = 0"
  shows "find_service demo_env snap (pm_dst_ip demo_meta) (pm_dst_port demo_meta) (pm_ip_protocol demo_meta) = Some (Some 0)"
    "is_lip demo_env snap (pm_dst_ip demo_meta) = Some False"
    "\<exists>p'. dispatch_l4 work_env work_dp demo_meta red rss (work_proc snap) = Some (p', send_res)"
proof -
  have he: "env_hash work_env = demo_env" by (simp add: work_env_def ref_env_def)
  have so: "snap_of demo_env m snap" "mgr_fits m" using assms(1) by (simp_all add: snap_ok_def he)
  have mlen: "length (mgr_services m) = 1" using assms(3) by (simp add: work_services)
  obtain r where r: "find_service demo_env snap 0x0200000A (htons 80) 6 = Some r"
      "case r of None \<Rightarrow> \<forall>ds\<in>set (mgr_services m). \<not> key_matches 0x0200000A 80 6 ds
       | Some k \<Rightarrow> k < length (mgr_services m) \<and> key_matches 0x0200000A 80 6 (mgr_services m ! k)"
    using find_service_snap [OF so(1)] by blast
  have km: "key_matches 0x0200000A 80 6 (mgr_services m ! 0)" by (simp add: assms(3) work_services key_matches_def service_conf_default_def)
  have "r = Some 0" using r(2) km mlen by (auto split: option.splits simp: in_set_conv_nth)
  then show fs: "find_service demo_env snap (pm_dst_ip demo_meta) (pm_dst_port demo_meta) (pm_ip_protocol demo_meta) = Some (Some 0)"
    using r(1) by (simp add: demo_meta_tuple)
  have lips: "mgr_local_ips m = [0x0300000A]" using so(1) assms(4) unfolding snap_of_def by metis
  show lip: "is_lip demo_env snap (pm_dst_ip demo_meta) = Some False"
    using address_tables(2) [OF so(1), of "pm_dst_ip demo_meta"] by (simp add: demo_meta_tuple lips)
  have fits: "sched_fits (map (backend_of \<circ> rs_of 0) (ds_rs (mgr_services m ! 0))) (sv_sched (snap_services snap ! 0))"
    using snap_of_service(1) [OF so(1), of 0] mlen by (simp add: svc_built_def)
  have "sb_weight (backend_of (rs_of 0 (ds_rs (mgr_services m ! 0) ! 0))) \<noteq> 0"
    by (simp add: assms(3) work_services rs_of_def backend_of_def schedulable_def usable_def rs_conf_default_def)
  then have "snd (sched_pick jh (sv_sched (snap_services snap ! 0)) t w) \<noteq> None" for jh t w
    using sched_pick_fits(2) [OF fits, of jh t w] by (auto simp: assms(3) work_services split: option.splits)
  then obtain j where j: "snd (sched_pick (jhash_3words demo_env) (sv_sched (snap_services snap ! 0)) (to_five_tuple demo_meta) 0) = Some j"
    by blast
  have macs: "\<not> mac_is_zero (rst_mac rs)" if "snap_rs snap i = Some rs" for i rs
    using that unfolding snap_rs_exact [OF so]
    by (auto simp: assms(3) work_services rs_of_def mac_is_zero_def)
  have room: "\<exists>i. snd (st_create bounded_ops demo_init cli srv 0 timeout) = Some i" for cli srv timeout
    by (rule st_create_room [OF bounded.rte_hash_ext_axioms demo_init_run]) (simp_all add: demo_init_eq active_count_def)
  have ws: "env_sess work_env = bounded_ops" "w_sessions work_worker = demo_init" "w_now_tick work_worker = 0" "w_idx work_worker = 0"
    by (simp_all add: work_env_def ref_env_def work_worker_def)
  have st: "fwd_owner h rr (dp_steering work_dp) t = 0" "\<not> ret_by_rss (dp_steering work_dp) proto" for h rr t proto
    by (simp_all add: work_dp_def ref_dp_def init_sw_def fwd_owner_def ret_by_rss_def)
  show "\<exists>p'. dispatch_l4 work_env work_dp demo_meta red rss (work_proc snap) = Some (p', send_res)"
    by (rule work.first_packet_sent [OF work_proc_ok [OF assms(1)], of demo_meta 0 j])
      (use fs lip j room macs demo_mbuf_fits(1) demo_ttl assms(4,5) in
        \<open>simp_all add: work_proc_def he ws st demo_fresh demo_meta_tuple(1,3,4)\<close>)
qed

text \<open>A frame with given addresses.\<close>

definition answer_frame :: "five_tuple \<Rightarrow> bytes" where
  "answer_frame t = put32 (put32 (put16 (put16 demo_frame 34 (src_port t)) 36 (dst_port t)) 26 (src_ip t)) 30 (dst_ip t)"

definition answer_meta :: "five_tuple \<Rightarrow> packet_meta" where
  "answer_meta t = demo_meta\<lparr>pm_src_ip := src_ip t, pm_dst_ip := dst_ip t, pm_src_port := src_port t, pm_dst_port := dst_port t\<rparr>"

lemma answer_fits: "meta_fits (answer_frame t) (answer_meta t)"
proof -
  have f: "meta_fits demo_frame demo_meta" using demo_mbuf_fits(1) by (simp add: demo_mbuf_def)
  have same: "answer_frame t ! i = demo_frame ! i" if "i < 26 \<or> 38 \<le> i" for i using that by (auto simp: answer_frame_def)
  have g: "get16 (answer_frame t) i = get16 demo_frame i" if "i < 25 \<or> 38 \<le> i" for i using that by (auto simp: get16_def same)
  have len: "length (answer_frame t) = 56" by (simp add: answer_frame_def demo_fields)
  have d: "length demo_frame = 56" by (rule demo_fields)
  have a: "get32 (answer_frame t) 26 = src_ip t" "get32 (answer_frame t) 30 = dst_ip t"
      "get16 (answer_frame t) 34 = src_port t" "get16 (answer_frame t) 36 = dst_port t"
    by (simp_all add: answer_frame_def d)
  show ?thesis
    using f a len same [of 14] same [of 22] same [of 23] same [of 46] same [of 47] g [of 12] g [of 16] g [of 38] demo_meta_tuple(3,5) d
    by (auto simp: meta_fits_def l4_fits_def answer_meta_def is_ipv4_def eth_type_def field_defs)
qed

lemma answer_tuple: "protocol t = 6 \<Longrightarrow> to_five_tuple (answer_meta t) = t"
  by (simp add: to_five_tuple_def answer_meta_def demo_meta_tuple(3) FiveTuple_def)

end
