(* ===== verification/Processor_Props.thy ===== *)
theory Processor_Props
  imports Processor_Demo
begin

text \<open>
  What packet processing guarantees from end to end.
\<close>

section \<open>Addresses of a frame\<close>

text \<open>The tuple that a receiver reads off a frame with its transport header at \<open>l4\<close>.\<close>

definition frame_tuple :: "bytes \<Rightarrow> nat \<Rightarrow> five_tuple" where
  "frame_tuple q l4 = FiveTuple (ip_src q 14) (ip_dst q 14) (l4_src_port q l4) (l4_dst_port q l4) (ip_protocol q 14)"

lemma translated_tuple:
  assumes "translated rw x meta y meta'" "ip_protocol x 14 = protocol t"
    "rw_src_ip rw = dst_ip t" "rw_dst_ip rw = src_ip t" "rw_src_port rw = dst_port t" "rw_dst_port rw = src_port t"
  shows "frame_tuple y (pm_l4_offset meta) = reverse t"
  using assms by (simp add: translated_def frame_tuple_def reverse_def)

lemma rewrite_sel:
  "rw_src_ip (inbound_rewrite dp s mac) = dst_ip (server s)" "rw_dst_ip (inbound_rewrite dp s mac) = src_ip (server s)"
  "rw_src_port (inbound_rewrite dp s mac) = dst_port (server s)" "rw_dst_port (inbound_rewrite dp s mac) = src_port (server s)"
  "rw_src_ip (return_rewrite dp s mac) = dst_ip (client s)" "rw_dst_ip (return_rewrite dp s mac) = src_ip (client s)"
  "rw_src_port (return_rewrite dp s mac) = dst_port (client s)" "rw_dst_port (return_rewrite dp s mac) = src_port (client s)"
  by (simp_all add: inbound_rewrite_def return_rewrite_def)

context balancer
begin

lemma tcp_or_udp:
  assumes "meta_fits d meta" "pm_ip_protocol meta = 6 \<or> pm_ip_protocol meta = 17"
  shows "ip_is_tcp d 14 \<or> ip_is_udp d 14" "ip_protocol d 14 = pm_ip_protocol meta"
  using assms by (auto simp: meta_fits_def ip_is_tcp_def ip_is_udp_def)

lemma inbound_sent_tuple:
  assumes "inbound_sent env dp NAT meta s mac b b'" "meta_fits (mb_data b) meta" "pm_ip_protocol meta = 6 \<or> pm_ip_protocol meta = 17"
    "length mac = 6" "protocol (server s) = pm_ip_protocol meta"
  shows "frame_tuple (mb_data b') (pm_l4_offset meta) = reverse (server s)"
proof -
  obtain meta' out where n: "nat_rewrite (env_mbuf env) b meta (inbound_rewrite dp s mac) (inbound_options dp s meta)
      rewrite_outcome_zero = (REWRITE_OK, b', meta', out)"
    using assms(1) by (auto simp: inbound_sent_def)
  have "translated (inbound_rewrite dp s mac) (mb_data b) meta (mb_data b') meta'"
    using rewrite_translates [OF mbuf_ops assms(2) tcp_or_udp(1) [OF assms(2,3)] _ _ _ n] mtu local_mac assms(4)
    by (simp add: inbound_options_def inbound_rewrite_def)
  from translated_tuple [OF this _ rewrite_sel(1-4)] show ?thesis using tcp_or_udp(2) [OF assms(2,3)] assms(5) by simp
qed

lemma return_sent_tuple:
  assumes "return_sent env dp meta s mac b b'" "meta_fits (mb_data b) meta" "pm_ip_protocol meta = 6 \<or> pm_ip_protocol meta = 17"
    "length mac = 6" "protocol (client s) = pm_ip_protocol meta"
  shows "frame_tuple (mb_data b') (pm_l4_offset meta) = reverse (client s)"
proof -
  let ?opt = "nat_options_default\<lparr>opt_tx_offloads := dp_tx_offloads dp, opt_mtu := dp_mtu dp\<rparr>"
  obtain meta' out where n: "nat_rewrite (env_mbuf env) b meta (return_rewrite dp s mac) ?opt rewrite_outcome_zero = (REWRITE_OK, b', meta', out)"
    using assms(1) by (auto simp: return_sent_def)
  have "translated (return_rewrite dp s mac) (mb_data b) meta (mb_data b') meta'"
    using rewrite_translates [OF mbuf_ops assms(2) tcp_or_udp(1) [OF assms(2,3)] _ _ _ n] mtu local_mac assms(4)
    by (simp add: return_rewrite_def)
  from translated_tuple [OF this _ rewrite_sel(5-8)] show ?thesis using tcp_or_udp(2) [OF assms(2,3)] assms(5) by simp
qed

text \<open>A packet for a service, as \<^verbatim>\<open>process_packet\<close> dispatches it.\<close>

lemma dispatch_inbound:
  assumes "proc_ok env dp m p" "find_service (env_hash env) (pr_snap p) (pm_dst_ip meta) (pm_dst_port meta) (pm_ip_protocol meta) = Some (Some k)"
    "\<not> (snap_mode (pr_snap p) = NAT \<and> is_lip (env_hash env) (pr_snap p) (pm_dst_ip meta) = Some True \<and> in_nat_range (pm_dst_port meta))"
    "dispatch_l4 env dp meta red rss p = Some (p', r)" "res_verdict r = SEND"
  shows "handle_inbound env dp k meta red rss p = Some (p', r)" "k < length (snap_services (pr_snap p))"
    "svc_key (snap_services (pr_snap p) ! k) = (pm_dst_ip meta, pm_dst_port meta, pm_ip_protocol meta)"
proof -
  note a = snap_answers [OF okD(6) [OF assms(1)]]
  obtain l where l: "is_lip (env_hash env) (pr_snap p) (pm_dst_ip meta) = Some l" using a(2) by blast
  have ret: "and_also (and_also (Some (snap_mode (pr_snap p) = NAT)) (is_lip (env_hash env) (pr_snap p) (pm_dst_ip meta)))
      (Some (in_nat_range (pm_dst_port meta))) = Some False"
    using assms(3) by (auto simp: and_also_def l split: bool.splits)
  have "res_verdict (snd (handle_hc_response meta p)) \<noteq> SEND" by (simp add: handle_hc_response_def Let_def)
  then show "handle_inbound env dp k meta red rss p = Some (p', r)"
    using assms(4,5) unfolding dispatch_l4_def Let_def ret assms(2) bind.simps by (auto split: if_splits)
  show "k < length (snap_services (pr_snap p))"
    "svc_key (snap_services (pr_snap p) ! k) = (pm_dst_ip meta, pm_dst_port meta, pm_ip_protocol meta)"
    using a(4) [of "pm_dst_ip meta" "pm_dst_port meta" "pm_ip_protocol meta"] assms(2) by auto
qed

lemma inbound_delivers:
  assumes "proc_ok env dp m p" "find_service (env_hash env) (pr_snap p) (pm_dst_ip meta) (pm_dst_port meta) (pm_ip_protocol meta) = Some (Some k)"
    "\<not> (snap_mode (pr_snap p) = NAT \<and> is_lip (env_hash env) (pr_snap p) (pm_dst_ip meta) = Some True \<and> in_nat_range (pm_dst_port meta))"
    "meta_fits (mb_data (pr_m p)) meta" "pm_ip_protocol meta = 6 \<or> pm_ip_protocol meta = 17"
    "dispatch_l4 env dp meta red rss p = Some (p', r)" "res_verdict r = SEND"
  shows "\<exists>i s rs. proc_ok env dp m p' \<and> same_config (pr_snap p) (pr_snap p') \<and> w_idx (pr_w p') = w_idx (pr_w p) \<and>
    conn (pr_sessions p') i = Some s \<and> client s = to_five_tuple meta \<and> snap_rs (pr_snap p) (rs_id s) = Some rs \<and> usable rs \<and>
    rs_serves (pr_snap p) rs (to_five_tuple meta) \<and>
    (if snap_mode (pr_snap p) = NAT
     then is_fullnat s \<and> server_of rs (server s) \<and> nat_server env dp (pr_snap p) (pm_ip_protocol meta) (w_idx (pr_w p)) (server s) \<and>
       frame_tuple (mb_data (pr_m p')) (pm_l4_offset meta) = reverse (server s)
     else drop 12 (mb_data (pr_m p')) = drop 12 (mb_data (pr_m p)))"
proof -
  note d = dispatch_inbound [OF assms(1-3,6,7)]
  have len: "14 \<le> length (mb_data (pr_m p))" using assms(4) by (auto simp: meta_fits_def)
  obtain i s rs mac where h: "proc_ok env dp m p'" "same_config (pr_snap p) (pr_snap p')" "w_idx (pr_w p') = w_idx (pr_w p)"
      "conn (pr_sessions p') i = Some s" "client s = to_five_tuple meta" "snap_rs (pr_snap p) (rs_id s) = Some rs" "usable rs" "length mac = 6"
      "inbound_sent env dp (snap_mode (pr_snap p)) meta s mac (pr_m p) (pr_m p')"
    using handle_inbound_ok [OF assms(1) d(2) len assms(3) d(3), of red rss] d(1) assms(7) by auto
  note c = same_configD [OF h(2)]
  have so: "sess_ok env dp (w_idx (pr_w p)) (pr_snap p) s" using okD(4) [OF h(1,4)] h(3) same_config_sess [OF h(2)] by simp
  then have io: "is_fullnat s = (snap_mode (pr_snap p) = NAT)" "rs_serves (pr_snap p) rs (to_five_tuple meta)"
      "is_fullnat s \<Longrightarrow> nat_server env dp (pr_snap p) (pm_ip_protocol meta) (w_idx (pr_w p)) (server s) \<and> server_of rs (server s)"
    using h(5,6) by (auto simp: sess_ok_def ident_ok_def ident_def to_five_tuple_def)
  show ?thesis
  proof (cases "snap_mode (pr_snap p) = NAT")
    case True
    have "frame_tuple (mb_data (pr_m p')) (pm_l4_offset meta) = reverse (server s)"
      using inbound_sent_tuple [OF _ assms(4,5) h(8)] h(9) True io by (auto simp: nat_server_def)
    then show ?thesis using h io True by auto
  next
    case False
    then have "snap_mode (pr_snap p) = DR" by (cases "snap_mode (pr_snap p)") simp_all
    then have "pr_m p' = dr_rewrite (pr_m p) (dp_local_mac dp) mac" using h(9) by (simp add: inbound_sent_def)
    then have "drop 12 (mb_data (pr_m p')) = drop 12 (mb_data (pr_m p))"
      using len local_mac h(8) mac_keeps(1,2) [OF local_mac h(8), of _ "mb_data (pr_m p)"]
      by (intro nth_equalityI) (simp_all add: dr_rewrite_def clear_tx_offload_def)
    then show ?thesis using h io False by auto
  qed
qed

text \<open>A packet that comes back under the server side of a session.\<close>

lemma dispatch_return:
  assumes "proc_ok env dp m p" "conn (pr_sessions p) i = Some s" "is_fullnat s" "snap_rs (pr_snap p) (rs_id s) = Some rs" "usable rs"
    "to_five_tuple meta = server s" "meta_fits (mb_data (pr_m p)) meta" "pm_ip_protocol meta = 6 \<or> pm_ip_protocol meta = 17"
  shows "\<exists>p' r. dispatch_l4 env dp meta red rss p = Some (p', r) \<and>
    (r = drop_res ST_DROP_NO_NEIGH \<or> r = drop_res ST_DROP_TTL \<and> ip_ttl (mb_data (pr_m p)) 14 \<le> 1 \<or>
     r = send_res \<and> frame_tuple (mb_data (pr_m p')) (pm_l4_offset meta) = reverse (client s))"
proof -
  have io: "snap_mode (pr_snap p) = NAT" "nat_server env dp (pr_snap p) (protocol (client s)) (w_idx (pr_w p)) (server s)"
    using okD(4) [OF assms(1,2)] assms(3) by (simp_all add: sess_ok_def ident_ok_def ident_def)
  have t: "pm_dst_ip meta = dst_ip (server s)" "pm_dst_port meta = dst_port (server s)" "pm_ip_protocol meta = protocol (server s)"
    unfolding assms(6) [symmetric] by (simp_all add: to_five_tuple_def)
  have lip: "is_lip (env_hash env) (pr_snap p) (pm_dst_ip meta) = Some True"
    using dst_is_lip [OF assms(1)] io(2) t(1) by (simp add: nat_server_def)
  have d: "dispatch_l4 env dp meta red rss p = handle_return env dp meta red p"
    using io t(2) unfolding dispatch_l4_def Let_def lip by (simp add: and_also_def nat_server_def)
  have "st_lookup (env_sess env) (pr_sessions p) (server s) = Some i"
    using lookup_ok [OF assms(1)] assms(2,3) by (auto simp: has_key_def)
  moreover have "flags s AND SF_FULLNAT \<noteq> 0" using assms(3) by (simp add: is_fullnat_def)
  ultimately have "handle_return env dp meta red p = return_forward env dp meta i p"
    using io(2) assms(4,5) by (simp add: handle_return_def assms(6) Let_def conn_sess [OF assms(2)] nat_server_def)
  then obtain p' r where r: "dispatch_l4 env dp meta red rss p = Some (p', r)"
      "r = drop_res ST_DROP_NO_NEIGH \<or> r = drop_res ST_DROP_TTL \<and> ttl_used_up (pr_m p) meta \<or>
       r = send_res \<and> (\<exists>s' mac. conn (pr_sessions p') i = Some s' \<and> ident s' = ident s \<and> length mac = 6 \<and>
         return_sent env dp meta s' mac (pr_m p) (pr_m p'))"
    using return_forward_ok [OF assms(1,2), of meta] d by auto
  have pr: "protocol (client s) = pm_ip_protocol meta" using io(2) t(3) by (simp add: nat_server_def)
  have "frame_tuple (mb_data (pr_m p')) (pm_l4_offset meta) = reverse (client s)"
    if "ident s' = ident s" "length mac = 6" "return_sent env dp meta s' mac (pr_m p) (pr_m p')" for s' mac
    using return_sent_tuple [OF that(3) assms(7,8) that(2)] that(1) pr by (simp add: ident_def)
  then show ?thesis using r assms(7) unfolding ttl_used_up_def by blast
qed

end

section \<open>Properties\<close>

text \<open>C1: Packet processing is sound. From a well-formed state of a worker, whatever bytes arrive, \<^verbatim>\<open>process_packet\<close>
  returns: no lookup loop runs forever, no null pointer is followed and no counter array is overrun. The state it
  leaves is well formed: the session table with its wheel, hash and free list is consistent, each session
  lives on the worker that owns both its directions and belongs to a server of its service, and the session counters
  add up to the sessions in the table. A packet is redirected only to another existing worker and only once, and a
  drop has a drop counter as its reason.\<close>

theorem process_packet_sound:
  assumes "balancer env dp" "proc_ok env dp m p"
  shows "\<exists>p' r. process_packet env dp redirected rss p = Some (p', r) \<and> proc_ok env dp m p' \<and>
    w_idx (pr_w p') = w_idx (pr_w p) \<and> result_ok dp (w_idx (pr_w p)) redirected r"
  using balancer.process_ok [OF assms, of redirected rss] unfolding handled_def by blast


text \<open>C2: FULLNAT round trip. When a packet of a client has been sent to a real server, the answer of the server to the
  frame it got (its tuple, reversed) reaches the worker of the session without being redirected, is matched to the
  session, and leaves with the service as its source and the client as its destination, port for port; it can be
  dropped only because its time to live is used up or the hardware address of the next hop is not known.\<close>

theorem fullnat_round_trip:
  assumes "balancer env dp" "proc_ok env dp m p" "snap_mode (pr_snap p) = NAT"
    "find_service (env_hash env) (pr_snap p) (pm_dst_ip meta) (pm_dst_port meta) (pm_ip_protocol meta) = Some (Some k)"
    "\<not> (snap_mode (pr_snap p) = NAT \<and> is_lip (env_hash env) (pr_snap p) (pm_dst_ip meta) = Some True \<and> in_nat_range (pm_dst_port meta))"
    "meta_fits (mb_data (pr_m p)) meta" "pm_ip_protocol meta = 6 \<or> pm_ip_protocol meta = 17"
    "dispatch_l4 env dp meta redirected rss p = Some (p', r)" "res_verdict r = SEND"
    "meta_fits (mb_data b) meta2" "to_five_tuple meta2 = reverse (frame_tuple (mb_data (pr_m p')) (pm_l4_offset meta))"
  shows "\<exists>p2 r2. dispatch_l4 env dp meta2 redirected2 rss2 (p'\<lparr>pr_m := b\<rparr>) = Some (p2, r2) \<and>
    (r2 = drop_res ST_DROP_NO_NEIGH \<or> r2 = drop_res ST_DROP_TTL \<and> ip_ttl (mb_data b) 14 \<le> 1 \<or>
     r2 = send_res \<and> frame_tuple (mb_data (pr_m p2)) (pm_l4_offset meta2) = reverse (to_five_tuple meta))"
proof -
  obtain i s rs where d: "proc_ok env dp m p'" "same_config (pr_snap p) (pr_snap p')" "conn (pr_sessions p') i = Some s"
      "client s = to_five_tuple meta" "snap_rs (pr_snap p) (rs_id s) = Some rs" "usable rs" "is_fullnat s"
      "nat_server env dp (pr_snap p) (pm_ip_protocol meta) (w_idx (pr_w p)) (server s)"
      "frame_tuple (mb_data (pr_m p')) (pm_l4_offset meta) = reverse (server s)"
    using balancer.inbound_delivers [OF assms(1,2,4-9)] assms(3) by auto
  have t: "to_five_tuple meta2 = server s" using assms(11) d(9) by simp
  have "pm_ip_protocol meta2 = protocol (server s)" unfolding t [symmetric] by (simp add: to_five_tuple_def)
  then have tu: "pm_ip_protocol meta2 = 6 \<or> pm_ip_protocol meta2 = 17" using d(8) assms(7) by (simp add: nat_server_def)
  have q: "proc_ok env dp m (p'\<lparr>pr_m := b\<rparr>)" using d(1) balancer.packet_ok [OF assms(1)] by blast
  show ?thesis
    using balancer.dispatch_return [OF assms(1) q _ d(7) _ d(6) t _ tu, of i redirected2 rss2] d same_configD(1) [OF d(2)] assms(10) by simp
qed

section \<open>Witnesses\<close>

theorem process_packet_sound_witness:
  "\<exists>m snap p' r. proc_ok work_env work_dp m (work_proc snap) \<and>
     process_packet work_env work_dp False 0 (work_proc snap) = Some (p', r) \<and> proc_ok work_env work_dp m p'"
proof (rule work_snapshot [of NAT])
  fix m snap
  assume "snap_ok work_env m snap"
  from work_proc_ok [OF this] process_packet_sound [OF work.balancer_axioms work_proc_ok [OF this], of False 0]
  show ?thesis by blast
qed


theorem fullnat_round_trip_witness:
  "\<exists>snap p' b meta2 p2 r2. dispatch_l4 work_env work_dp demo_meta False 0 (work_proc snap) = Some (p', send_res) \<and>
     meta_fits (mb_data b) meta2 \<and> to_five_tuple meta2 = reverse (frame_tuple (mb_data (pr_m p')) 34) \<and>
     dispatch_l4 work_env work_dp meta2 False 0 (p'\<lparr>pr_m := b\<rparr>) = Some (p2, r2) \<and>
     (r2 = drop_res ST_DROP_NO_NEIGH \<or> r2 = drop_res ST_DROP_TTL \<and> ip_ttl (mb_data b) 14 \<le> 1 \<or>
      r2 = send_res \<and> frame_tuple (mb_data (pr_m p2)) (pm_l4_offset meta2) = reverse (to_five_tuple demo_meta))"
proof (rule work_snapshot [of NAT])
  fix m snap
  assume a: "snap_ok work_env m snap" "snap_mode snap = NAT" "mgr_services m = mgr_services (work_mgr NAT)"
    "snap_local_ips snap = [0x0300000A]" "snap_hc_src snap = 0"
  have he: "env_hash work_env = demo_env" "pr_snap (work_proc snap) = snap" "pr_m (work_proc snap) = demo_mbuf"
    by (simp_all add: work_env_def ref_env_def work_proc_def)
  obtain p' where p': "dispatch_l4 work_env work_dp demo_meta False 0 (work_proc snap) = Some (p', send_res)"
    using work_sent(3) [OF a] by blast
  note ok = work_proc_ok [OF a(1)]
  have "\<exists>v. nat_server work_env work_dp snap 6 0 v \<and> reverse (frame_tuple (mb_data (pr_m p')) 34) = v"
    using work.inbound_delivers [OF ok _ _ _ _ p', of 0, unfolded he] work_sent(1,2) [OF a] demo_mbuf_fits(1) a(2)
    by (auto simp: demo_meta_tuple(3,5) work_proc_def work_worker_def)
  then obtain v where v: "nat_server work_env work_dp snap 6 0 v" "reverse (frame_tuple (mb_data (pr_m p')) 34) = v" by blast
  define b where "b = demo_mbuf\<lparr>mb_data := answer_frame v\<rparr>"
  have m2: "meta_fits (mb_data b) (answer_meta v)" "to_five_tuple (answer_meta v) = reverse (frame_tuple (mb_data (pr_m p')) 34)"
    using answer_fits answer_tuple v by (simp_all add: b_def nat_server_def)
  have "\<exists>p2 r2. dispatch_l4 work_env work_dp (answer_meta v) False 0 (p'\<lparr>pr_m := b\<rparr>) = Some (p2, r2) \<and>
     (r2 = drop_res ST_DROP_NO_NEIGH \<or> r2 = drop_res ST_DROP_TTL \<and> ip_ttl (mb_data b) 14 \<le> 1 \<or>
      r2 = send_res \<and> frame_tuple (mb_data (pr_m p2)) (pm_l4_offset (answer_meta v)) = reverse (to_five_tuple demo_meta))"
    using fullnat_round_trip [OF work.balancer_axioms ok _ _ _ _ _ p', of 0 b "answer_meta v" False 0, unfolded he]
      work_sent(1,2) [OF a] demo_mbuf_fits(1) a(2) m2 by (simp add: demo_meta_tuple(3,5))
  then show ?thesis using p' m2 by blast
qed

end
