(* ===== verification/Served.thy ===== *)
theory Served
  imports Config_Props Processor_Props
begin

text \<open>
  From the configuration file to the packet: a service that is configured is served.
\<close>

lemma desired_conf: "map ds_conf (fst (desired_services n scs)) = map (\<lambda>sc. sc\<lparr>sc_rs := []\<rparr>) scs"
  by (induction scs arbitrary: n) (simp_all add: case_prod_beta Let_def)

lemma reach_config:
  assumes "mgr_reach he cfg m" "cfg_fits cfg"
  shows "mgr_mode m = lb_mode cfg" "mgr_local_ips m = (if lb_mode cfg = NAT then lb_local_ips cfg else [])"
    "mgr_hc_src m = lb_hc_src cfg" "map ds_conf (mgr_services m) = map (\<lambda>sc. sc\<lparr>sc_rs := []\<rparr>) (lb_services cfg)"
proof -
  have "mgr_mode m = lb_mode cfg \<and> mgr_local_ips m = (if lb_mode cfg = NAT then lb_local_ips cfg else []) \<and>
    mgr_hc_src m = lb_hc_src cfg \<and> map ds_conf (mgr_services m) = map (\<lambda>sc. sc\<lparr>sc_rs := []\<rparr>) (lb_services cfg)"
    using assms(1)
  proof (induction rule: mgr_reach.induct)
    case (reach_init m)
    then show ?case using desired_conf [of "mgr_next_rs_id manager_zero" "lb_services cfg"]
      by (auto simp: mgr_init_def publish_def Let_def manager_zero_def split: prod.splits)
  next
    case (reach_step m m')
    then have "extends m m'" using mgr_step_fits reach_fits assms(2) by blast
    then show ?case using reach_step.IH by (simp add: extends_def)
  qed
  then show "mgr_mode m = lb_mode cfg" "mgr_local_ips m = (if lb_mode cfg = NAT then lb_local_ips cfg else [])"
    "mgr_hc_src m = lb_hc_src cfg" "map ds_conf (mgr_services m) = map (\<lambda>sc. sc\<lparr>sc_rs := []\<rparr>) (lb_services cfg)" by blast+
qed

lemma reach_service:
  assumes "mgr_reach he cfg m" "cfg_fits cfg" "k < length (mgr_services m)"
  shows "k < length (lb_services cfg)"
    "key_matches vip port proto (mgr_services m ! k) \<longleftrightarrow> conf_key (lb_services cfg ! k) = (vip, port, proto)"
proof -
  note r = reach_config(4) [OF assms(1,2)]
  show k: "k < length (lb_services cfg)" using arg_cong [OF r, of length] assms(3) by simp
  have "ds_conf (mgr_services m ! k) = (lb_services cfg ! k)\<lparr>sc_rs := []\<rparr>"
    using arg_cong [OF r, of "\<lambda>xs. xs ! k"] assms(3) k by simp
  then show "key_matches vip port proto (mgr_services m ! k) \<longleftrightarrow> conf_key (lb_services cfg ! k) = (vip, port, proto)"
    by (simp add: key_matches_def conf_key_def)
qed

lemma service_found:
  assumes "config_ok cfg" "mgr_reach he cfg m" "publish he m = Some m'" "mgr_cur m' = Some snap"
    "i < length (lb_services cfg)" "conf_key (lb_services cfg ! i) = (vip, port, proto)"
  shows "find_service he snap vip (htons port) proto = Some (Some i)"
proof (rule reach_publish [OF _ assms(2)])
  show fits: "cfg_fits cfg" using assms(1) by (simp add: config_ok_def)
  fix m2 snap2
  assume a: "publish he m = Some m2" "mgr_cur m2 = Some snap2" "snap_of he m2 snap2" "mgr_services m2 = mgr_services m"
  have len: "length (mgr_services m) = length (lb_services cfg)" using arg_cong [OF reach_config(4) [OF assms(2) fits], of length] by simp
  obtain r where r: "find_service he snap vip (htons port) proto = Some r"
    "case r of None \<Rightarrow> \<forall>ds\<in>set (mgr_services m). \<not> key_matches vip port proto ds
     | Some k \<Rightarrow> k < length (mgr_services m) \<and> key_matches vip port proto (mgr_services m ! k)"
    using find_service_snap [OF a(3), of vip port proto, unfolded a(4)] a(1,2) assms(3,4) by auto
  have i: "key_matches vip port proto (mgr_services m ! i)"
    using reach_service(2) [OF assms(2) fits, of i vip port proto] assms(5,6) len by simp
  then obtain k where k: "r = Some k" "k < length (mgr_services m)" "key_matches vip port proto (mgr_services m ! k)"
    using r(2) assms(5) len by (cases r) auto
  have "conf_key (lb_services cfg ! k) = conf_key (lb_services cfg ! i)"
    using reach_service(2) [OF assms(2) fits k(2), of vip port proto] k(3) assms(6) by simp
  then have "k = i" using assms(1,5) k(2) len nth_eq_iff_index_eq [of "map conf_key (lb_services cfg)" k i] by (simp add: config_ok_def)
  then show ?thesis using r(1) k(1) by simp
qed

lemma not_reserved:
  assumes "config_ok cfg" "svc \<in> set (lb_services cfg)" "sc_vip svc \<in> reserved_addrs cfg"
  shows "\<not> in_nat_range (htons (sc_port svc))" "\<not> in_hc_range (htons (sc_port svc))"
  using assms by (auto simp: config_ok_def list_all_iff in_nat_range_def in_hc_range_def port_range_defs)

lemma service_dispatched:
  assumes "config_ok cfg" "mgr_reach (env_hash env) cfg m" "publish (env_hash env) m = Some m'" "mgr_cur m' = Some (pr_snap p)"
    "i < length (lb_services cfg)" "sc_vip (lb_services cfg ! i) \<noteq> 0" "pm_dst_ip meta = sc_vip (lb_services cfg ! i)"
    "pm_dst_port meta = htons (sc_port (lb_services cfg ! i))" "pm_ip_protocol meta = sc_proto (lb_services cfg ! i)"
  shows "dispatch_l4 env dp meta redirected rss p = handle_inbound env dp i meta redirected rss p"
proof (rule reach_publish [OF _ assms(2)])
  show fits: "cfg_fits cfg" using assms(1) by (simp add: config_ok_def)
  fix m2 snap2
  assume a: "publish (env_hash env) m = Some m2" "mgr_cur m2 = Some snap2" "snap_of (env_hash env) m2 snap2" "mgr_services m2 = mgr_services m"
    "mgr_local_ips m2 = mgr_local_ips m" "mgr_hc_src m2 = mgr_hc_src m"
  then have s: "snap2 = pr_snap p" "m2 = m'" using assms(3,4) by auto
  let ?svc = "lb_services cfg ! i"
  note r = reach_config [OF assms(2) fits]
  have lip: "is_lip (env_hash env) (pr_snap p) (pm_dst_ip meta) = Some (sc_vip ?svc \<in> set (mgr_local_ips m))"
    using address_tables [OF a(3), of "pm_dst_ip meta"] assms(6,7) a(5) s by simp
  have hc: "snap_hc_src (pr_snap p) = lb_hc_src cfg" using a(3,6) r(3) s by (simp add: snap_of_def)
  note n = not_reserved [OF assms(1) nth_mem [OF assms(5)]]
  have "\<not> (sc_vip ?svc \<in> set (mgr_local_ips m) \<and> in_nat_range (pm_dst_port meta))"
    using n(1) r(2) assms(8) by (auto simp: reserved_addrs_def split: if_splits)
  moreover have "\<not> (pm_dst_ip meta = snap_hc_src (pr_snap p) \<and> in_hc_range (pm_dst_port meta))"
    using n(2) hc assms(6-8) by (auto simp: reserved_addrs_def)
  moreover have "find_service (env_hash env) (pr_snap p) (pm_dst_ip meta) (pm_dst_port meta) (pm_ip_protocol meta) = Some (Some i)"
    using service_found [OF assms(1-5), of "sc_vip ?svc" "sc_port ?svc" "sc_proto ?svc"] assms(7-9) by (simp add: conf_key_def)
  moreover have "and_also (and_also (Some (snap_mode (pr_snap p) = NAT)) (is_lip (env_hash env) (pr_snap p) (pm_dst_ip meta)))
      (Some (in_nat_range (pm_dst_port meta))) = Some False"
    using calculation(1) by (auto simp: lip and_also_def split: bool.splits)
  ultimately show ?thesis by (auto simp: dispatch_l4_def Let_def)
qed

text \<open>C38: A configured service is served. Take any file that loads, any sequence of changes made to the balancer
  while it runs, and the snapshot published last: a packet for the address, port and protocol of the \<open>i\<close>-th service
  of the file is handled as an inbound packet of the \<open>i\<close>-th service. No lookup of a port range used for translation or
  health checks takes it away, and no other service does.\<close>

theorem configured_service_served:
  assumes "config_load file = Some cfg" "mgr_reach (env_hash env) cfg m" "publish (env_hash env) m = Some m'"
    "mgr_cur m' = Some (pr_snap p)" "i < length (lb_services cfg)" "sc_vip (lb_services cfg ! i) \<noteq> 0"
    "pm_dst_ip meta = sc_vip (lb_services cfg ! i)" "pm_dst_port meta = htons (sc_port (lb_services cfg ! i))"
    "pm_ip_protocol meta = sc_proto (lb_services cfg ! i)"
  shows "dispatch_l4 env dp meta redirected rss p = handle_inbound env dp i meta redirected rss p"
  using config_load_ok [OF assms(1)] assms(2-9) by (rule service_dispatched)

theorem configured_service_served_witness:
  "\<exists>m m' snap. mgr_reach demo_env demo_config m \<and> publish demo_env m = Some m' \<and> mgr_cur m' = Some snap \<and>
     dispatch_l4 work_env work_dp demo_meta False 0 (work_proc snap) = handle_inbound work_env work_dp 0 demo_meta False 0 (work_proc snap)"
proof -
  have fits: "cfg_fits demo_config" using config_load_ok [OF demo_load] by (simp add: config_ok_def)
  obtain m where "mgr_init demo_env demo_config manager_zero = Some m" by (rule init_fits [OF fits])
  then have m: "mgr_reach demo_env demo_config m" by (rule reach_init)
  obtain m' snap where p: "publish demo_env m = Some m'" "mgr_cur m' = Some snap" by (rule reach_publish [OF fits m])
  have e: "env_hash work_env = demo_env" by (simp add: work_env_def ref_env_def)
  have "dispatch_l4 work_env work_dp demo_meta False 0 (work_proc snap) = handle_inbound work_env work_dp 0 demo_meta False 0 (work_proc snap)"
    using configured_service_served [OF demo_load, of work_env m m' "work_proc snap" 0 demo_meta] m p
    by (simp add: e demo_config_def demo_meta_tuple work_proc_def)
  then show ?thesis using m p by blast
qed

end
