(* ===== verification/Control.thy ===== *)
theory Control
  imports Config Snapshot
begin

text \<open>
  The control interface, \<^verbatim>\<open>src/ctrl/control.cpp\<close>, and the listing of the snapshot manager: one command is read
  from a connection, executed on the manager, and answered.

  The state is the manager, the running flag of the process and the level last given to the logger. The reports of
  the counters are an argument: they are texts that do not change anything. Publishing is the one of the snapshot
  manager, \<open>None\<close> when a table could not be built. The bytes that arrive on a connection are the list of chunks
  that \<^verbatim>\<open>read\<close> delivers before the connection is closed or stays silent for a second.
\<close>

record control =
  ctl_mgr :: manager
  ctl_running :: bool
  ctl_level :: string

record reports =
  rep_rs :: string
  rep_stats :: "bool \<Rightarrow> string"
  rep_counters :: string
  rep_rate :: string

definition LF :: char where
  "LF = CHR 0x0A"

section \<open>Parsing\<close>

function tokens :: "string \<Rightarrow> string list" where
  "tokens s =
     (let t = dropWhile isspace s
      in if t = [] then [] else takeWhile (\<lambda>c. \<not> isspace c) t # tokens (dropWhile (\<lambda>c. \<not> isspace c) t))"
  by pat_completeness auto
termination
proof (relation "measure length", simp)
  fix s t :: string
  assume t: "t = dropWhile isspace s" "t \<noteq> []"
  then have "\<not> isspace (hd t)" using hd_dropWhile [of isspace s] by simp
  then obtain c cs where c: "t = c # cs" "\<not> isspace c" using t(2) by (cases t) simp_all
  have "length (dropWhile (\<lambda>c. \<not> isspace c) t) \<le> length cs" using c by (simp add: length_dropWhile_le)
  also have "length cs < length s" using c(1) t(1) length_dropWhile_le [of isspace s] by simp
  finally show "(dropWhile (\<lambda>c. \<not> isspace c) t, s) \<in> measure length" by simp
qed

declare tokens.simps [simp del]

definition parse_u32 :: "string \<Rightarrow> nat option" where
  "parse_u32 s =
     (if s = [] then None
      else case strtoul 10 (c_str s) of (v, end, _) \<Rightarrow> if end \<noteq> [] \<or> v > 4294967295 then None else Some v)"

definition parse_rs_spec :: "string \<Rightarrow> rs_conf option" where
  "parse_rs_spec spec =
     (let parts = getlines CHR '':'' spec
      in if length parts < 2 \<or> length parts > 3 then None
         else do {
           ip \<leftarrow> parse_ipv4 (parts ! 0);
           port \<leftarrow> parse_u32 (parts ! 1);
           port \<leftarrow> (if port = 0 \<or> port > 65535 then None else Some port);
           w \<leftarrow> (if length parts = 3 then do {
                    w \<leftarrow> parse_u32 (parts ! 2);
                    if w > 65535 then None else Some w
                  } else Some (rc_weight rs_conf_default));
           Some (rs_conf_default\<lparr>rc_ip := ip, rc_port := of_nat port, rc_weight := w\<rparr>)
         })"

section \<open>Answers\<close>

definition snap_error_text :: "snap_error \<Rightarrow> string" where
  "snap_error_text e =
     (case e of
        No_such_rs i \<Rightarrow> ''no such rs '' @ to_string i
      | Weight_range \<Rightarrow> ''weight must be 0-65535''
      | No_such_service i \<Rightarrow> ''no such service '' @ to_string i
      | Too_many_rs \<Rightarrow> ''too many real servers in service''
      | Rs_exists i \<Rightarrow> ''rs already exists (id '' @ to_string i @ '')''
      | Ids_exhausted \<Rightarrow> ''rs id space exhausted'')"

definition kHelp :: string where
  "kHelp = concat (map (\<lambda>l. l @ [LF])
     [''commands:'',
      ''  stats [-v|-r]                  summary; -v per worker; -r per service/RS'',
      ''  counters                       all raw counters (key value), for delta'',
      ''  rate                           last periodic rates and busy %'',
      ''  services                       services and real servers'',
      ''  weight <rs_id> <weight>        0 = drain (no new connections)'',
      ''  enable <rs_id> | disable <rs_id>'',
      ''  add <service_idx> <ip:port[:weight]>'',
      ''  del <rs_id>'',
      ''  log <debug|info|warn|error>'',
      ''  quit                           stop l4lb''])"

definition describe_rs :: "desired_rs \<Rightarrow> string" where
  "describe_rs r =
     ''  rs '' @ to_string (dr_id r) @ '' '' @ ip_to_string (rc_ip (dr_conf r)) @ '':'' @ to_string (unat (rc_port (dr_conf r))) @
     '' weight '' @ to_string (rc_weight (dr_conf r)) @ '' '' @ (if dr_enabled r then ''enabled'' else ''disabled'') @ '' '' @
     (if dr_healthy r then ''up'' else ''down'') @ [LF]"

definition describe_service :: "nat \<times> desired_service \<Rightarrow> string" where
  "describe_service ids = (case ids of (i, ds) \<Rightarrow>
     ''service '' @ to_string i @ '' '' @ sc_name (ds_conf ds) @ '' '' @ ip_to_string (sc_vip (ds_conf ds)) @ '':'' @
     to_string (unat (sc_port (ds_conf ds))) @ ''/'' @ proto_name (sc_proto (ds_conf ds)) @ '' sched '' @
     (if sc_sched (ds_conf ds) = MAGLEV then ''maglev'' else ''wrr'') @ [LF] @ concat (map describe_rs (ds_rs ds)))"

definition describe :: "manager \<Rightarrow> string" where
  "describe m =
     ''mode '' @ (if mgr_mode m = NAT then ''fullnat'' else ''dr'') @ ''  version '' @ to_string (mgr_version m) @ [LF] @
     concat (map describe_service (enumerate 0 (mgr_services m)))"

section \<open>Commands\<close>

text \<open>The last lines of \<^verbatim>\<open>execute\<close>: an error is reported, a change is published.\<close>

definition finish :: "hash_env \<Rightarrow> snap_error option \<times> manager \<Rightarrow> string \<Rightarrow> control \<Rightarrow> (string \<times> control) option" where
  "finish env r answer c =
     (case r of
        (Some e, m) \<Rightarrow> Some (''error: '' @ snap_error_text e @ [LF], c\<lparr>ctl_mgr := m\<rparr>)
      | (None, m) \<Rightarrow> map_option (\<lambda>m'. (answer @ [LF], c\<lparr>ctl_mgr := m'\<rparr>)) (publish env m))"

definition execute_add :: "hash_env \<Rightarrow> nat \<Rightarrow> string \<Rightarrow> control \<Rightarrow> (string \<times> control) option" where
  "execute_add env i spec c =
     (case parse_rs_spec spec of
        None \<Rightarrow> Some (''error: expected ip:port[:weight]'' @ [LF], c)
      | Some rs \<Rightarrow>
          (case add_rs (i mod 65536) rs (ctl_mgr c) of
             (Inl e, m) \<Rightarrow> finish env (Some e, m) [] c
           | (Inr new_id, m) \<Rightarrow> finish env (None, m) (''ok rs '' @ to_string new_id) c))"

definition with_u32 :: "string \<Rightarrow> (nat \<Rightarrow> 'a option) \<Rightarrow> 'a option" where
  "with_u32 s f = (case parse_u32 s of None \<Rightarrow> None | Some v \<Rightarrow> f v)"

text \<open>A command that changes something: \<open>None\<close> when the line is not such a command.\<close>

definition change_command :: "hash_env \<Rightarrow> string list \<Rightarrow> control \<Rightarrow> (string \<times> control) option option" where
  "change_command env a c =
     (let m = ctl_mgr c in
      case a of
        [cmd, x] \<Rightarrow>
          if cmd = ''enable'' \<or> cmd = ''disable'' then with_u32 x (\<lambda>i. Some (finish env (set_enabled i (cmd = ''enable'') m) ''ok'' c))
          else if cmd = ''del'' then with_u32 x (\<lambda>i. Some (finish env (del_rs i m) ''ok'' c))
          else if cmd = ''log'' then Some (Some (''ok'' @ [LF], c\<lparr>ctl_level := x\<rparr>))
          else None
      | [cmd, x, y] \<Rightarrow>
          if cmd = ''weight'' then with_u32 x (\<lambda>i. with_u32 y (\<lambda>w. Some (finish env (set_weight i w m) ''ok'' c)))
          else if cmd = ''add'' then with_u32 x (\<lambda>i. Some (execute_add env i y c))
          else None
      | _ \<Rightarrow> None)"

definition execute :: "reports \<Rightarrow> hash_env \<Rightarrow> string \<Rightarrow> control \<Rightarrow> (string \<times> control) option" where
  "execute rep env line c =
     (let a = tokens line in
      if a = [] \<or> hd a = ''help'' then Some (kHelp, c)
      else if hd a = ''stats'' \<and> length a > 1 \<and> a ! 1 = ''-r'' then Some (rep_rs rep, c)
      else if hd a = ''stats'' then Some (rep_stats rep (length a > 1 \<and> a ! 1 = ''-v''), c)
      else if hd a = ''counters'' then Some (rep_counters rep, c)
      else if hd a = ''rate'' then Some (rep_rate rep, c)
      else if hd a = ''services'' then Some (describe (ctl_mgr c), c)
      else (case change_command env a c of
          Some r \<Rightarrow> r
        | None \<Rightarrow>
            if hd a = ''quit'' then Some (''ok, shutting down'' @ [LF], c\<lparr>ctl_running := False\<rparr>)
            else Some (''error: bad command'' @ [LF] @ kHelp, c)))"

section \<open>The loop\<close>

definition drain_health :: "hash_env \<Rightarrow> (nat \<times> bool) list \<Rightarrow> manager \<Rightarrow> manager option" where
  "drain_health env evs m =
     (if evs = [] then Some m else publish env (foldl (\<lambda>m ev. set_health (fst ev) (snd ev) m) m evs))"

fun read_line :: "string \<Rightarrow> string list \<Rightarrow> string" where
  "read_line line [] = line"
| "read_line line (buf # bufs) =
     (if LF \<notin> set line \<and> length line < 1024 \<and> buf \<noteq> [] then read_line (line @ buf) bufs else line)"

definition control_round :: "reports \<Rightarrow> hash_env \<Rightarrow> (nat \<times> bool) list \<Rightarrow> string list option \<Rightarrow> control \<Rightarrow> (string \<times> control) option" where
  "control_round rep env evs client c =
     (case drain_health env evs (ctl_mgr c) of
        None \<Rightarrow> None
      | Some m \<Rightarrow>
          let c = c\<lparr>ctl_mgr := m\<rparr> in
          (case client of
             None \<Rightarrow> Some ([], c)
           | Some bufs \<Rightarrow> execute rep env (takeWhile (\<lambda>ch. ch \<noteq> LF) (read_line [] bufs)) c))"

end
