(* ===== verification/Control_Props.thy ===== *)
theory Control_Props
  imports Control Snapshot_Runs
begin

text \<open>
  What the control interface guarantees: every command ends, what it changes is published, and an error changes
  nothing.
\<close>

definition published :: "hash_env \<Rightarrow> manager \<Rightarrow> bool" where
  "published env m \<longleftrightarrow> (\<exists>snap. mgr_cur m = Some snap \<and> snap_of env m snap)"

lemma publish_reach:
  assumes "cfg_fits cfg" "mgr_reach env cfg m"
  obtains m' where "publish env m = Some m'" "mgr_reach env cfg m'" "published env m'" "mgr_services m' = mgr_services m"
proof (rule reach_publish [OF assms])
  fix m' snap
  assume "publish env m = Some m'" "mgr_cur m' = Some snap" "snap_of env m' snap" "mgr_services m' = mgr_services m"
  then show thesis using that reach_step [OF assms(2) step_publish] unfolding published_def by blast
qed

text \<open>The manager stays reachable and the snapshot of the workers keeps showing what the manager holds.\<close>

definition ctl_ok :: "hash_env \<Rightarrow> lb_config \<Rightarrow> manager \<Rightarrow> bool" where
  "ctl_ok env cfg m \<longleftrightarrow> mgr_reach env cfg m \<and> published env m"

text \<open>How a command may end.\<close>

definition answered :: "hash_env \<Rightarrow> lb_config \<Rightarrow> control \<Rightarrow> (string \<times> control) option \<Rightarrow> bool" where
  "answered env cfg c r \<longleftrightarrow>
     (\<exists>reply c'. r = Some (reply, c') \<and> ctl_ok env cfg (ctl_mgr c') \<and> (starts_with reply ''error'' \<longrightarrow> c' = c))"

lemma answered_same: "ctl_ok env cfg (ctl_mgr c) \<Longrightarrow> answered env cfg c (Some (reply, c))"
  by (simp add: answered_def)

lemma finish_ok:
  assumes "cfg_fits cfg" "ctl_ok env cfg (ctl_mgr c)" "mgr_reach env cfg (snd r)" "fst r = None \<or> snd r = ctl_mgr c" "take 2 answer = ''ok''"
  shows "answered env cfg c (finish env r answer c)"
proof (cases "fst r")
  case None
  obtain m' where m': "publish env (snd r) = Some m'" "mgr_reach env cfg m'" "published env m'"
    by (rule publish_reach [OF assms(1,3)])
  obtain x where "answer = CHR ''o'' # x" using assms(5) by (cases answer) auto
  then show ?thesis using None m' by (cases r) (simp add: finish_def ctl_ok_def starts_with_def answered_def)
next
  case (Some e)
  then show ?thesis using assms(2,4) by (cases r) (simp add: finish_def answered_def)
qed

lemma change_error:
  "fst (set_weight i w m) = None \<or> snd (set_weight i w m) = m" "fst (set_enabled i en m) = None \<or> snd (set_enabled i en m) = m"
  "fst (del_rs i m) = None \<or> snd (del_rs i m) = m"
  by (auto simp: set_weight_def set_enabled_def del_rs_def split: option.splits)

lemma add_error: "add_rs k rc m = (Inl e, m') \<Longrightarrow> m' = m"
  by (auto simp: add_rs_def Let_def split: if_splits option.splits)

lemma execute_add_ok:
  assumes "cfg_fits cfg" "ctl_ok env cfg (ctl_mgr c)"
  shows "answered env cfg c (execute_add env i spec c)"
proof (cases "parse_rs_spec spec")
  case None
  then show ?thesis using assms(2) by (simp add: execute_add_def answered_same)
next
  case (Some rc)
  obtain r m where r: "add_rs (i mod 65536) rc (ctl_mgr c) = (r, m)" by fastforce
  have reach: "mgr_reach env cfg m"
    using reach_step [OF _ step_add, of env cfg "ctl_mgr c" "i mod 65536" rc] assms(2) r by (simp add: ctl_ok_def)
  show ?thesis
  proof (cases r)
    case (Inl e)
    then have "m = ctl_mgr c" using add_error r by simp
    then show ?thesis using Some r Inl assms(2) by (simp add: execute_add_def finish_def answered_def)
  next
    case (Inr b)
    then show ?thesis
      using Some r finish_ok [OF assms, of "(None, m)" "''ok rs '' @ to_string b"] reach by (simp add: execute_add_def)
  qed
qed

lemma change_command_ok:
  assumes "cfg_fits cfg" "ctl_ok env cfg (ctl_mgr c)" "change_command env a c = Some r"
  shows "answered env cfg c r"
proof -
  have m: "mgr_reach env cfg (ctl_mgr c)" using assms(2) by (simp add: ctl_ok_def)
  have "answered env cfg c (finish env (set_weight i w (ctl_mgr c)) ''ok'' c)" for i w
    by (rule finish_ok [OF assms(1,2) reach_step [OF m step_weight] change_error(1)]) simp
  moreover have "answered env cfg c (finish env (set_enabled i en (ctl_mgr c)) ''ok'' c)" for i en
    by (rule finish_ok [OF assms(1,2) reach_step [OF m step_enabled] change_error(2)]) simp
  moreover have "answered env cfg c (finish env (del_rs i (ctl_mgr c)) ''ok'' c)" for i
    by (rule finish_ok [OF assms(1,2) reach_step [OF m step_del] change_error(3)]) simp
  moreover have "answered env cfg c (Some (''ok'' @ [LF], c\<lparr>ctl_level := x\<rparr>))" for x
    using assms(2) by (simp add: answered_def starts_with_def)
  ultimately show ?thesis
    using assms(3) execute_add_ok [OF assms(1,2)]
    by (auto simp: change_command_def Let_def with_u32_def split: list.splits if_splits option.splits)
qed

lemma execute_ok:
  assumes "cfg_fits cfg" "ctl_ok env cfg (ctl_mgr c)"
  shows "answered env cfg c (execute rep env line c)"
proof (cases "change_command env (tokens line) c")
  case None
  have "answered env cfg c (Some (''ok, shutting down'' @ [LF], c\<lparr>ctl_running := False\<rparr>))"
    using assms(2) by (simp add: answered_def starts_with_def)
  then show ?thesis using None answered_same [OF assms(2)] by (simp add: execute_def Let_def)
next
  case (Some r)
  then show ?thesis using change_command_ok [OF assms Some] answered_same [OF assms(2)] by (simp add: execute_def Let_def)
qed

lemma drain_health_ok:
  assumes "cfg_fits cfg" "ctl_ok env cfg m"
  shows "\<exists>m'. drain_health env evs m = Some m' \<and> ctl_ok env cfg m'"
proof -
  have "mgr_reach env cfg (foldl (\<lambda>m ev. set_health (fst ev) (snd ev) m) m evs)" if "mgr_reach env cfg m" for m
    using that by (induction evs arbitrary: m) (auto intro: reach_step step_health)
  then have r: "mgr_reach env cfg (foldl (\<lambda>m ev. set_health (fst ev) (snd ev) m) m evs)" using assms(2) by (simp add: ctl_ok_def)
  obtain m' where "publish env (foldl (\<lambda>m ev. set_health (fst ev) (snd ev) m) m evs) = Some m'" "mgr_reach env cfg m'" "published env m'"
    by (rule publish_reach [OF assms(1) r])
  then show ?thesis using assms(2) by (simp add: drain_health_def ctl_ok_def)
qed

section \<open>Draining a server\<close>

lemma update_rs_hits:
  assumes "update_rs i f rs = Some rs'" "distinct (map dr_id rs)" "r \<in> set rs'" "dr_id r = i"
  shows "r \<in> range f"
  using assms
proof (induction rs arbitrary: rs')
  case (Cons x rs)
  show ?case
  proof (cases "dr_id x = i")
    case True
    then have "rs' = f x # rs" using Cons.prems(1) by simp
    moreover have "r \<notin> set rs" using Cons.prems(2,4) True imageI [of r "set rs" dr_id] by auto
    ultimately show ?thesis using Cons.prems(3) by simp
  next
    case False
    then obtain rs2 where "update_rs i f rs = Some rs2" "rs' = x # rs2" using Cons.prems(1) by auto
    then show ?thesis using Cons.IH [of rs2] Cons.prems(2-4) False by auto
  qed
qed simp

lemma update_rs_none: "update_rs i f rs = None \<longleftrightarrow> i \<notin> dr_id ` set rs"
  by (induction rs) auto

lemma find_rs_update_hits:
  assumes "find_rs_update i f dss = Some dss'" "distinct (ids_of dss)" "ds \<in> set dss'" "r \<in> set (ds_rs ds)" "dr_id r = i"
  shows "r \<in> range f"
  using assms
proof (induction dss arbitrary: dss')
  case (Cons d dss)
  show ?case
  proof (cases "update_rs i f (ds_rs d)")
    case None
    have n: "i \<notin> dr_id ` set (ds_rs d)" using None update_rs_none [of i f "ds_rs d"] by (simp only: simp_thms)
    obtain dss2 where d2: "find_rs_update i f dss = Some dss2" "dss' = d # dss2" using Cons.prems(1) None by auto
    then have "ds \<in> set dss2" using Cons.prems(3-5) n by auto
    then show ?thesis using Cons.IH [OF d2(1)] Cons.prems(2,4,5) by (simp add: ids_of_def)
  next
    case (Some rs)
    have "i \<in> dr_id ` set (ds_rs d)" using Some update_rs_none [of i f "ds_rs d"] by auto
    then have n: "i \<notin> set (ids_of dss)" using Cons.prems(2) by (auto simp: ids_of_def)
    have "ds = d\<lparr>ds_rs := rs\<rparr> \<or> ds \<in> set dss" using Cons.prems(1,3) Some by auto
    then show ?thesis
    proof
      assume "ds = d\<lparr>ds_rs := rs\<rparr>"
      then show ?thesis using update_rs_hits [OF Some] Cons.prems(2,4,5) by (simp add: ids_of_def)
    next
      assume "ds \<in> set dss"
      then show ?thesis using n Cons.prems(4,5) by (auto simp: ids_of_def)
    qed
  qed
qed simp

lemma set_weight_zero:
  assumes "set_weight i 0 m = (None, m')" "mgr_fits m" "ds \<in> set (mgr_services m')" "r \<in> set (ds_rs ds)" "dr_id r = i"
  shows "rc_weight (dr_conf r) = 0"
proof -
  let ?f = "\<lambda>r. r\<lparr>dr_conf := (dr_conf r)\<lparr>rc_weight := 0\<rparr>\<rparr>"
  have "find_rs_update i ?f (mgr_services m) = Some (mgr_services m')"
    using assms(1) by (auto simp: set_weight_def split: option.splits if_splits)
  moreover have "distinct (ids_of (mgr_services m))" using assms(2) by (simp add: mgr_fits_def)
  ultimately have "r \<in> range ?f" using assms(3-5) by (rule find_rs_update_hits)
  then show ?thesis by auto
qed

lemma weight_command:
  assumes "tokens line = [''weight'', x, y]" "parse_u32 x = Some i" "parse_u32 y = Some w"
  shows "execute rep env line c = finish env (set_weight i w (ctl_mgr c)) ''ok'' c"
  using assms by (simp add: execute_def change_command_def with_u32_def)

lemma weight_zero_effect:
  assumes "cfg_fits cfg" "ctl_ok env cfg (ctl_mgr c)" "finish env (set_weight i 0 (ctl_mgr c)) ''ok'' c = Some (''ok'' @ [LF], c')"
  obtains m where "mgr_reach env cfg m" "publish env m = Some (ctl_mgr c')" "mgr_services (ctl_mgr c') = mgr_services m"
    "\<And>ds r. ds \<in> set (mgr_services m) \<Longrightarrow> r \<in> set (ds_rs ds) \<Longrightarrow> dr_id r = i \<Longrightarrow> rc_weight (dr_conf r) = 0"
proof -
  have r: "mgr_reach env cfg (ctl_mgr c)" using assms(2) by (simp add: ctl_ok_def)
  obtain e m where m: "set_weight i 0 (ctl_mgr c) = (e, m)" by fastforce
  have e: "e = None" "publish env m = Some (ctl_mgr c')" using assms(3) m by (cases e; auto simp: finish_def)+
  have reach: "mgr_reach env cfg m" using reach_step [OF r step_weight, of i 0] m by simp
  obtain m2 where "publish env m = Some m2" "mgr_services m2 = mgr_services m" by (rule publish_reach [OF assms(1) reach])
  then show thesis
    using that [OF reach e(2)] set_weight_zero [of i "ctl_mgr c" m] m e reach_fits [OF r assms(1)] by simp
qed

section \<open>The properties\<close>

text \<open>C7: Whatever line arrives on the control socket, the command ends and is answered; the snapshot of the workers shows
  exactly what the manager holds, as before; and when the answer is an error, nothing has changed.\<close>

theorem control_command_sound:
  assumes "cfg_fits cfg" "mgr_reach env cfg (ctl_mgr c)" "published env (ctl_mgr c)"
  shows "\<exists>reply c'. execute rep env line c = Some (reply, c') \<and> mgr_reach env cfg (ctl_mgr c') \<and> published env (ctl_mgr c') \<and>
    (starts_with reply ''error'' \<longrightarrow> c' = c)"
  using execute_ok [OF assms(1), of env c rep line] assms(2,3) by (auto simp: answered_def ctl_ok_def)

text \<open>C8: Draining a server works. Once the command that sets the weight of a real server to 0 has been answered with
  \<^verbatim>\<open>ok\<close>, no scheduler of the published snapshot picks that server any more.\<close>

theorem drain_stops_new_connections:
  assumes "cfg_fits cfg" "mgr_reach env cfg (ctl_mgr c)" "published env (ctl_mgr c)"
    "tokens line = [''weight'', x, y]" "parse_u32 x = Some i" "parse_u32 y = Some 0"
    "execute rep env line c = Some (''ok'' @ [LF], c')" "mgr_cur (ctl_mgr c') = Some snap" "k < length (mgr_services (ctl_mgr c'))"
  shows "list_all (\<lambda>p. case p of None \<Rightarrow> True
      | Some j \<Rightarrow> j < length (ds_rs (mgr_services (ctl_mgr c') ! k)) \<and> dr_id (ds_rs (mgr_services (ctl_mgr c') ! k) ! j) \<noteq> i)
    (sched_picks jhash3 w (sv_sched (snap_services snap ! k)) ts)"
proof -
  have "ctl_ok env cfg (ctl_mgr c)" using assms(2,3) by (simp add: ctl_ok_def)
  then obtain m where m: "mgr_reach env cfg m" "publish env m = Some (ctl_mgr c')" "mgr_services (ctl_mgr c') = mgr_services m"
    and zero: "\<And>ds r. ds \<in> set (mgr_services m) \<Longrightarrow> r \<in> set (ds_rs ds) \<Longrightarrow> dr_id r = i \<Longrightarrow> rc_weight (dr_conf r) = 0"
    using weight_zero_effect [OF assms(1) _ assms(7) [unfolded weight_command [OF assms(4-6)]]] by blast
  have k: "k < length (mgr_services m)" using assms(9) m(3) by simp
  have "dr_id r \<noteq> i" if "r \<in> set (ds_rs (mgr_services m ! k))" "schedulable (rs_of k r)" for r
    using zero [OF nth_mem [OF k] that(1)] that(2) by (auto simp: schedulable_def rs_of_def)
  then show ?thesis
    using picks_schedulable [OF assms(1) m(1,2) assms(8) k, of jhash3 w ts] unfolding m(3) list_all_iff
    by (auto split: option.splits)
qed

section \<open>Witnesses\<close>

definition demo_reports :: reports where
  "demo_reports = \<lparr>rep_rs = [], rep_stats = \<lambda>_. [], rep_counters = [], rep_rate = []\<rparr>"

definition demo_services_list :: "desired_service list" where
  "demo_services_list = [\<lparr>ds_conf = service_conf_default\<lparr>sc_vip := 1, sc_rs := []\<rparr>,
     ds_rs = [\<lparr>dr_id = 1, dr_conf = rs_conf_default, dr_enabled = True, dr_healthy = True\<rparr>]\<rparr>]"

lemma demo_control:
  obtains c :: control where "ctl_ok demo_env demo_cfg (ctl_mgr c)" "mgr_services (ctl_mgr c) = demo_services_list" "mgr_next_rs_id (ctl_mgr c) = 2"
proof (rule init_fits [OF demo_cfg_fits, of demo_env])
  fix m
  assume a: "mgr_init demo_env demo_cfg manager_zero = Some m"
    "mgr_next_rs_id m = 1 + sum_list (map (length \<circ> sc_rs) (lb_services demo_cfg))"
  have s: "mgr_services m = demo_services_list"
    using a(1) by (auto simp: mgr_init_def demo_cfg_def publish_def Let_def manager_zero_def demo_services_list_def)
  obtain m' where m': "publish demo_env m = Some m'" "mgr_reach demo_env demo_cfg m'" "published demo_env m'" "mgr_services m' = mgr_services m"
    by (rule publish_reach [OF demo_cfg_fits reach_init [OF a(1)]])
  have "mgr_next_rs_id m' = 2" using m'(1) a(2) by (auto simp: publish_def Let_def demo_cfg_def)
  then show thesis
    using that [of "\<lparr>ctl_mgr = m', ctl_running = True, ctl_level = []\<rparr>"] m' s by (simp add: ctl_ok_def)
qed

lemmas command_defs = tokens.simps parse_u32_def strtoul_def skip_sign_def is_digit_of_def digit_value_def isdigit_def digits_value_def
  ULONG_MAX_def c_str_def code_def isspace_def Let_def

lemma demo_weight: "tokens ''weight 1 0'' = [''weight'', ''1'', ''0'']" "parse_u32 ''1'' = Some 1" "parse_u32 ''0'' = Some 0"
  by (simp_all add: command_defs)

lemma demo_drain:
  fixes c :: control
  assumes "ctl_ok demo_env demo_cfg (ctl_mgr c)" "mgr_services (ctl_mgr c) = demo_services_list"
  obtains c' snap where "execute demo_reports demo_env ''weight 1 0'' c = Some (''ok'' @ [LF], c')" "mgr_cur (ctl_mgr c') = Some snap"
    "length (mgr_services (ctl_mgr c')) = 1"
proof -
  obtain m where w: "set_weight 1 0 (ctl_mgr c) = (None, m)" "length (mgr_services m) = 1"
    by (simp add: set_weight_def assms(2) demo_services_list_def)
  have "mgr_reach demo_env demo_cfg m" using reach_step [OF _ step_weight, of demo_env demo_cfg "ctl_mgr c" 1 0] assms(1) w(1)
    by (simp add: ctl_ok_def)
  then obtain m' where m': "publish demo_env m = Some m'" "published demo_env m'" "mgr_services m' = mgr_services m"
    by (rule publish_reach [OF demo_cfg_fits])
  have "execute demo_reports demo_env ''weight 1 0'' c = Some (''ok'' @ [LF], c\<lparr>ctl_mgr := m'\<rparr>)"
    unfolding weight_command [OF demo_weight] w(1) using m'(1) by (simp add: finish_def)
  then show thesis using that m' w(2) by (auto simp: published_def)
qed

theorem control_command_sound_witness:
  "\<exists>c reply c'. execute demo_reports demo_env ''del 7'' c = Some (reply, c') \<and> published demo_env (ctl_mgr c')"
proof (rule demo_control)
  fix c :: control
  assume a: "ctl_ok demo_env demo_cfg (ctl_mgr c)"
  then show ?thesis
    using control_command_sound [OF demo_cfg_fits, of demo_env c demo_reports "''del 7''"] unfolding ctl_ok_def by blast
qed

theorem drain_stops_new_connections_witness:
  "\<exists>c c' snap. execute demo_reports demo_env ''weight 1 0'' c = Some (''ok'' @ [LF], c') \<and> mgr_cur (ctl_mgr c') = Some snap \<and>
     list_all (\<lambda>p. case p of None \<Rightarrow> True
       | Some j \<Rightarrow> j < length (ds_rs (mgr_services (ctl_mgr c') ! 0)) \<and> dr_id (ds_rs (mgr_services (ctl_mgr c') ! 0) ! j) \<noteq> 1)
     (sched_picks (\<lambda>_ _ _ _. 0) 0 (sv_sched (snap_services snap ! 0)) [five_tuple_zero])"
proof (rule demo_control)
  fix c :: control
  assume a: "ctl_ok demo_env demo_cfg (ctl_mgr c)" "mgr_services (ctl_mgr c) = demo_services_list"
  obtain c' snap where e: "execute demo_reports demo_env ''weight 1 0'' c = Some (''ok'' @ [LF], c')" "mgr_cur (ctl_mgr c') = Some snap"
    "length (mgr_services (ctl_mgr c')) = 1" by (rule demo_drain [OF a])
  have "mgr_reach demo_env demo_cfg (ctl_mgr c)" "published demo_env (ctl_mgr c)" "0 < length (mgr_services (ctl_mgr c'))"
    using a(1) e(3) by (simp_all add: ctl_ok_def)
  from drain_stops_new_connections [OF demo_cfg_fits this(1,2) demo_weight e(1,2) this(3)] e(1,2) show ?thesis by blast
qed

text \<open>C9: The index of the service in the \<^verbatim>\<open>add\<close> command is cut to 16 bits before it is checked: with one service
  configured, the command to add a server to service 65536 succeeds and adds it to service 0.\<close>

theorem add_wraps_service_index:
  "\<exists>c c'. mgr_reach demo_env demo_cfg (ctl_mgr c) \<and> length (mgr_services (ctl_mgr c)) = 1 \<and>
     execute demo_reports demo_env ''add 65536 10.0.0.9:80'' c = Some (''ok rs 2'' @ [LF], c') \<and>
     map dr_id (ds_rs (mgr_services (ctl_mgr c') ! 0)) = [1, 2]"
proof (rule demo_control)
  fix c :: control
  assume a: "ctl_ok demo_env demo_cfg (ctl_mgr c)" "mgr_services (ctl_mgr c) = demo_services_list" "mgr_next_rs_id (ctl_mgr c) = 2"
  have t: "tokens ''add 65536 10.0.0.9:80'' = [''add'', ''65536'', ''10.0.0.9:80'']" "parse_u32 ''65536'' = Some 65536"
    by (simp_all add: command_defs)
  have p: "parse_rs_spec ''10.0.0.9:80'' = Some (rs_conf_default\<lparr>rc_ip := 0x0900000A, rc_port := 80\<rparr>)"
    by (simp add: parse_rs_spec_def getlines.simps parse_ipv4_def command_defs le32_def le16_def rs_conf_default_def)
  define m where "m = snd (add_rs 0 (rs_conf_default\<lparr>rc_ip := 0x0900000A, rc_port := 80\<rparr>) (ctl_mgr c))"
  have m: "add_rs 0 (rs_conf_default\<lparr>rc_ip := 0x0900000A, rc_port := 80\<rparr>) (ctl_mgr c) = (Inr 2, m)"
    "map dr_id (ds_rs (mgr_services m ! 0)) = [1, 2]"
    by (simp_all add: add_rs_def m_def a(2,3) demo_services_list_def rs_conf_default_def kMaxRsPerService_def kMaxRsId_def Let_def)
  have "mgr_reach demo_env demo_cfg m" using a(1) by (auto simp: ctl_ok_def m_def intro: reach_step step_add)
  then obtain m' where m': "publish demo_env m = Some m'" "mgr_services m' = mgr_services m" by (rule publish_reach [OF demo_cfg_fits])
  have "to_string 2 = ''2''" by (simp add: to_string.simps digit_char_def char_of_def bit_Suc_0_iff)
  then have "execute demo_reports demo_env ''add 65536 10.0.0.9:80'' c = Some (''ok rs 2'' @ [LF], c\<lparr>ctl_mgr := m'\<rparr>)"
    by (simp add: execute_def change_command_def with_u32_def t execute_add_def p m(1) finish_def m'(1))
  moreover have "mgr_reach demo_env demo_cfg (ctl_mgr c)" "length (mgr_services (ctl_mgr c)) = 1"
    using a by (simp_all add: ctl_ok_def demo_services_list_def)
  ultimately show ?thesis using m(2) m'(2) by (intro exI [of _ c] exI [of _ "c\<lparr>ctl_mgr := m'\<rparr>"]) simp
qed

end
