(* ===== verification/Receiver.thy ===== *)
theory Receiver
  imports Processor
begin

text \<open>
  The receiver of the pipeline mode, \<^verbatim>\<open>src/dataplane/receiver.cpp\<close>: it computes for each frame the worker that owns
  its flow and puts the frames of a burst into the rings of the workers.

  A ring accepts as many of the frames offered to it as it has room for, from the first on; the room of each
  ring is an argument. Frames that find no room are freed.
\<close>

section \<open>Dispatcher\<close>

record dispatcher =
  dsp_st :: steering
  dsp_fullnat :: bool
  dsp_lips :: "ipv4_addr list"

definition dispatcher_init :: "steering \<Rightarrow> forward_mode \<Rightarrow> ipv4_addr list \<Rightarrow> dispatcher" where
  "dispatcher_init st mode local_ips = \<lparr>dsp_st = st, dsp_fullnat = (mode = NAT), dsp_lips = sort local_ips\<rparr>"

definition dsp_is_lip :: "dispatcher \<Rightarrow> ipv4_addr \<Rightarrow> bool" where
  "dsp_is_lip d ip = list_ex (\<lambda>l. l = ip) (dsp_lips d)"

definition target :: "hash_env \<Rightarrow> rss_ops \<Rightarrow> dispatcher \<Rightarrow> bytes \<Rightarrow> nat" where
  "target env rss d q =
     (let n = str_n (dsp_st d) in
      if n = 1 then 0
      else if length q < 14 + 20 then 0
      else if \<not> is_ipv4 q then 0
      else
        let ihl = ip_header_len q 14;
            frag = ip_flags_fragment q 14 AND 0x3FFF;
            l4 = (ip_protocol q 14 = 6 \<or> ip_protocol q 14 = 17) \<and> frag = 0 \<and> ihl \<ge> 20 \<and> length q \<ge> 14 + ihl + 4
        in if \<not> l4 then unat (jhash_2words env (ip_src q 14) (ip_dst q 14) 0) mod n
           else
             let dport = l4_dst_port q (14 + ihl);
                 t = FiveTuple (ip_src q 14) (ip_dst q 14) (l4_src_port q (14 + ihl)) dport (ip_protocol q 14);
                 p = unat (ntohs dport)
             in if dsp_fullnat d \<and> p \<ge> kNatPortMin \<and> p \<le> kNatPortMax \<and> dsp_is_lip d (ip_dst q 14)
                then ret_owner rss (dsp_st d) t
                else fwd_owner env rss (dsp_st d) t)"

section \<open>Bursts\<close>

definition kMaxPipelineWorkers :: nat where
  "kMaxPipelineWorkers = 16"

fun group_frames :: "(mbuf \<Rightarrow> nat) \<Rightarrow> mbuf list \<Rightarrow> mbuf list list \<Rightarrow> mbuf list list" where
  "group_frames to [] groups = groups"
| "group_frames to (m # ms) groups = group_frames to ms (groups[to m := groups ! to m @ [m]])"

record dispatched =
  dq_rings :: "mbuf list list"
  dq_freed :: "mbuf list"
  dq_stats :: worker_stats

definition enqueue_group :: "(nat \<Rightarrow> nat) \<Rightarrow> mbuf list list \<Rightarrow> nat \<Rightarrow> dispatched \<Rightarrow> dispatched" where
  "enqueue_group room groups w q =
     (let g = groups ! w; n = min (room w) (length g)
      in if length g = 0 then q
         else q\<lparr>dq_rings := (dq_rings q)[w := take n g], dq_freed := dq_freed q @ drop n g,
                dq_stats := (if n < length g then ws_add ST_DROP_RX_RING (word_of_nat (length g - n)) (dq_stats q) else dq_stats q)\<rparr>)"

definition dispatch_rx_queue ::
  "('h, 'n) lb_env \<Rightarrow> dispatcher \<Rightarrow> nat \<Rightarrow> (nat \<Rightarrow> nat) \<Rightarrow> mbuf list \<Rightarrow> worker_stats \<Rightarrow> dispatched" where
  "dispatch_rx_queue env d nw room bufs stats =
     (let nb = length bufs;
          none = \<lparr>dq_rings = replicate nw [], dq_freed = [], dq_stats = stats\<rparr>
      in if nb = 0 then none
         else
           let groups = group_frames (\<lambda>m. target (env_hash env) (env_rss env) d (mb_data m)) bufs (replicate kMaxPipelineWorkers []);
               bytes = foldl (\<lambda>b m. b + ucast (pktmbuf_pkt_len env m)) 0 bufs;
               stats = ws_add_bytes BS_RX bytes (ws_add ST_RX (word_of_nat nb) stats)
           in fold (enqueue_group room groups) [0..<nw] (none\<lparr>dq_stats := stats\<rparr>))"

text \<open>A round over all queues; the busy meter reads the clock, \<open>tsc\<close>.\<close>

definition receiver_round ::
  "('h, 'n) lb_env \<Rightarrow> dispatcher \<Rightarrow> nat \<Rightarrow> (nat \<Rightarrow> nat \<Rightarrow> nat) \<Rightarrow> mbuf list list \<Rightarrow> u64 \<Rightarrow> busy_meter \<times> worker_stats \<Rightarrow>
   dispatched list \<times> busy_meter \<times> worker_stats" where
  "receiver_round env d nw room queues tsc bs =
     (let (ds, stats) = foldl (\<lambda>(ds, stats) (q, bufs).
            let r = dispatch_rx_queue env d nw (room q) bufs stats in (ds @ [r], dq_stats r)) ([], snd bs) (enumerate 0 queues)
      in (ds, bm_loop (concat queues \<noteq> []) tsc (fst bs, stats)))"

end
