(* ===== verification/Receiver_Props.thy ===== *)
theory Receiver_Props
  imports Receiver Served "HOL-Library.Multiset"
begin

text \<open>
  What the receiver guarantees: each frame of a burst goes to the worker that owns its flow, in order, or is counted as
  dropped; and the worker that gets a TCP or UDP packet never has to pass it on.
\<close>

section \<open>Bursts\<close>

lemma group_frames_length [simp]: "length (group_frames to ms gs) = length gs"
  by (induction to ms gs rule: group_frames.induct) auto

lemma group_frames_nth:
  "w < length gs \<Longrightarrow> \<forall>m\<in>set ms. to m < length gs \<Longrightarrow> group_frames to ms gs ! w = gs ! w @ filter (\<lambda>m. to m = w) ms"
  by (induction to ms gs rule: group_frames.induct) (auto simp: nth_list_update)

lemma enqueue_group_eq:
  assumes "dq_rings q ! w = []"
  shows "dq_rings (enqueue_group room groups w q) = (dq_rings q)[w := take (room w) (groups ! w)]"
    "dq_freed (enqueue_group room groups w q) = dq_freed q @ drop (room w) (groups ! w)"
    "ws_c (dq_stats (enqueue_group room groups w q)) s =
       ws_c (dq_stats q) s + (if s = ST_DROP_RX_RING then word_of_nat (length (groups ! w) - room w) else 0)"
    "ws_bytes (dq_stats (enqueue_group room groups w q)) = ws_bytes (dq_stats q)"
proof -
  have t: "take (min (room w) (length (groups ! w))) (groups ! w) = take (room w) (groups ! w)"
    "drop (min (room w) (length (groups ! w))) (groups ! w) = drop (room w) (groups ! w)"
    "length (groups ! w) - min (room w) (length (groups ! w)) = length (groups ! w) - room w" by (simp_all add: min_def)
  have "(dq_rings q)[w := []] = dq_rings q" using assms by (metis list_update_id)
  then show "dq_rings (enqueue_group room groups w q) = (dq_rings q)[w := take (room w) (groups ! w)]"
    by (simp add: enqueue_group_def Let_def t)
  show "dq_freed (enqueue_group room groups w q) = dq_freed q @ drop (room w) (groups ! w)"
    "ws_bytes (dq_stats (enqueue_group room groups w q)) = ws_bytes (dq_stats q)"
    "ws_c (dq_stats (enqueue_group room groups w q)) s =
       ws_c (dq_stats q) s + (if s = ST_DROP_RX_RING then word_of_nat (length (groups ! w) - room w) else 0)"
    by (simp_all add: enqueue_group_def Let_def t)
qed

definition queued :: "(nat \<Rightarrow> nat) \<Rightarrow> mbuf list list \<Rightarrow> nat \<Rightarrow> nat \<Rightarrow> worker_stats \<Rightarrow> dispatched \<Rightarrow> bool" where
  "queued room groups nw k stats r \<longleftrightarrow> length (dq_rings r) = nw \<and>
     (\<forall>w < nw. dq_rings r ! w = (if w < k then take (room w) (groups ! w) else [])) \<and>
     dq_freed r = concat (map (\<lambda>w. drop (room w) (groups ! w)) [0..<k]) \<and>
     (\<forall>s. ws_c (dq_stats r) s = ws_c stats s + (if s = ST_DROP_RX_RING then word_of_nat (length (dq_freed r)) else 0)) \<and>
     ws_bytes (dq_stats r) = ws_bytes stats"

lemma queued_step:
  assumes "queued room groups nw k stats r" "k < nw"
  shows "queued room groups nw (Suc k) stats (enqueue_group room groups k r)"
proof -
  have "dq_rings r ! k = []" using assms by (simp add: queued_def)
  note e = enqueue_group_eq [OF this, of room groups]
  show ?thesis using assms unfolding queued_def e by (simp add: nth_list_update less_Suc_eq)
qed

lemma enqueue_groups:
  assumes "k \<le> nw" "queued room groups nw 0 stats q"
  shows "queued room groups nw k stats (fold (enqueue_group room groups) [0..<k] q)"
  using assms(1) by (induction k) (simp_all add: assms(2) queued_step)

lemma mset_by_target:
  assumes "\<forall>m\<in>set ms. to m < (n :: nat)"
  shows "(\<Sum>w\<in>{0..<n}. mset (filter (\<lambda>m. to m = w) ms)) = mset ms"
proof (rule multiset_eqI)
  fix x
  have "Multiset.count (\<Sum>w\<in>{0..<n}. mset (filter (\<lambda>m. to m = w) ms)) x = (\<Sum>w\<in>{0..<n}. if w = to x then Multiset.count (mset ms) x else 0)"
    by (auto simp: count_sum intro!: sum.cong)
  also have "\<dots> = Multiset.count (mset ms) x" using assms by (auto simp: count_eq_zero_iff)
  finally show "Multiset.count (\<Sum>w\<in>{0..<n}. mset (filter (\<lambda>m. to m = w) ms)) x = Multiset.count (mset ms) x" .
qed

lemma target_less:
  assumes "steering_ok (dsp_st d)"
  shows "target env rss d q < str_n (dsp_st d)"
proof -
  have "0 < str_n (dsp_st d)" using assms by (simp add: steering_ok_def)
  then show ?thesis using fwd_owner_less [OF assms] ret_owner_less [OF assms] by (simp add: target_def Let_def)
qed

text \<open>C6: The receiver loses nothing silently. Of a burst, the ring of each worker gets the frames whose flows that worker
  owns, in the order they arrived, as many as the ring has room for; the rest is freed and counted, frame by frame,
  and every frame is either in a ring or freed.\<close>

theorem receiver_dispatch_exact:
  assumes "steering_ok (dsp_st d)" "str_n (dsp_st d) = nw" "nw \<le> kMaxPipelineWorkers" "w < nw"
    "r = dispatch_rx_queue env d nw room bufs stats"
  shows "dq_rings r ! w = take (room w) (filter (\<lambda>m. target (env_hash env) (env_rss env) d (mb_data m) = w) bufs) \<and>
    mset (concat (dq_rings r)) + mset (dq_freed r) = mset bufs \<and>
    ws_c (dq_stats r) ST_RX = ws_c stats ST_RX + word_of_nat (length bufs) \<and>
    ws_c (dq_stats r) ST_DROP_RX_RING = ws_c stats ST_DROP_RX_RING + word_of_nat (length (dq_freed r))"
proof (cases "bufs = []")
  case True
  then show ?thesis using assms(4,5) by (simp add: dispatch_rx_queue_def)
next
  case False
  define to where "to m = target (env_hash env) (env_rss env) d (mb_data m)" for m :: mbuf
  define groups where "groups = group_frames to bufs (replicate kMaxPipelineWorkers [])"
  define q where "q = \<lparr>dq_rings = replicate nw [], dq_freed = [],
    dq_stats = ws_add_bytes BS_RX (foldl (\<lambda>b m. b + ucast (pktmbuf_pkt_len env m)) 0 bufs) (ws_add ST_RX (word_of_nat (length bufs)) stats)\<rparr>"
  have r: "r = fold (enqueue_group room groups) [0..<nw] q"
    using False by (simp add: assms(5) dispatch_rx_queue_def Let_def groups_def q_def to_def [abs_def])
  have to: "\<forall>m\<in>set bufs. to m < nw" using target_less [OF assms(1)] assms(2) by (simp add: to_def)
  have g: "groups ! v = filter (\<lambda>m. to m = v) bufs" if "v < nw" for v
  proof -
    have "\<forall>m\<in>set bufs. to m < kMaxPipelineWorkers" using to assms(3) by auto
    then show ?thesis using that assms(3) by (simp add: groups_def group_frames_nth)
  qed
  have e: "length (dq_rings r) = nw" "\<And>v. v < nw \<Longrightarrow> dq_rings r ! v = take (room v) (groups ! v)"
    "dq_freed r = concat (map (\<lambda>w. drop (room w) (groups ! w)) [0..<nw])"
    "\<And>s. ws_c (dq_stats r) s = ws_c (dq_stats q) s + (if s = ST_DROP_RX_RING then word_of_nat (length (dq_freed r)) else 0)"
    using enqueue_groups [of nw nw room groups "dq_stats q" q] by (simp_all add: r queued_def) (simp_all add: q_def)
  have "dq_rings r = map (\<lambda>v. take (room v) (groups ! v)) [0..<nw]" by (rule nth_equalityI) (simp_all add: e)
  then have "mset (concat (dq_rings r)) + mset (dq_freed r) = (\<Sum>v\<in>{0..<nw}. mset (take (room v) (groups ! v)) + mset (drop (room v) (groups ! v)))"
    by (simp add: e(3) mset_concat interv_sum_list_conv_sum_set_nat comp_def sum.distrib)
  also have "\<dots> = (\<Sum>v\<in>{0..<nw}. mset (filter (\<lambda>m. to m = v) bufs))"
    by (rule sum.cong) (simp_all add: g flip: mset_append)
  also have "\<dots> = mset bufs" by (rule mset_by_target [OF to])
  finally show ?thesis using e(2) [OF assms(4)] g [OF assms(4)] by (simp add: e(4) q_def to_def)
qed

section \<open>The owner of a flow\<close>

lemma fragment_mask: "(f :: u16) AND 0x3FFF = 0 \<longleftrightarrow> f AND kIpFlagMF = 0 \<and> f AND kIpFragOffMask = 0"
proof -
  have "(0x3FFF :: u16) = 0x2000 OR 0x1FFF" by simp
  then have "f AND 0x3FFF = (f AND kIpFlagMF) OR (f AND kIpFragOffMask)"
    by (simp only: bit.conj_disj_distrib kIpFlagMF_def kIpFragOffMask_def)
  then show ?thesis by (simp add: or_eq_0_iff)
qed

lemma parse_no_fragment:
  assumes "parse q meta = (PARSE_OK, meta')" "is_ipv4 q"
  shows "ip_flags_fragment q 14 AND 0x3FFF = 0"
  using assms by (auto simp: parse_def Let_def fragment_mask split: if_splits)

lemma target_of_parsed:
  assumes "parse q meta0 = (PARSE_OK, meta)" "is_ipv4 q" "length q \<le> 65535" "pm_ip_protocol meta = 6 \<or> pm_ip_protocol meta = 17" "steering_ok (dsp_st d)"
  shows "target env rss d q =
    (if dsp_fullnat d \<and> in_nat_range (pm_dst_port meta) \<and> pm_dst_ip meta \<in> set (dsp_lips d)
     then ret_owner rss (dsp_st d) (to_five_tuple meta) else fwd_owner env rss (dsp_st d) (to_five_tuple meta))"
proof -
  note f = meta_of_parse [OF assms(1-3)]
  have h: "20 \<le> ip_header_len q 14" "pm_l4_offset meta = 14 + ip_header_len q 14" "pm_src_ip meta = ip_src q 14" "pm_dst_ip meta = ip_dst q 14"
    "pm_ip_protocol meta = ip_protocol q 14" "pm_total_len meta \<le> length q"
    using f by (simp_all add: meta_fits_def)
  have l4: "pm_l4_offset meta + 8 \<le> length q" "pm_src_port meta = l4_src_port q (pm_l4_offset meta)" "pm_dst_port meta = l4_dst_port q (pm_l4_offset meta)"
    using f assms(4) by (auto simp: meta_fits_def l4_fits_def ip_is_tcp_def ip_is_udp_def)
  have t: "to_five_tuple meta = FiveTuple (ip_src q 14) (ip_dst q 14) (l4_src_port q (14 + ip_header_len q 14)) (l4_dst_port q (14 + ip_header_len q 14)) (ip_protocol q 14)"
    using h l4 by (simp add: to_five_tuple_def)
  have "str_n (dsp_st d) = 1 \<Longrightarrow> ret_owner rss (dsp_st d) x = 0 \<and> fwd_owner env rss (dsp_st d) x = 0" for x
    by (simp add: ret_owner_def fwd_owner_def)
  then show ?thesis
    using h l4 assms(2,4) parse_no_fragment [OF assms(1,2)]
    by (simp add: target_def Let_def t dsp_is_lip_def list_ex_iff in_nat_range_def)
qed

section \<open>No packet is passed on\<close>

lemma stays [simp]: "res_verdict (drop_res e) \<noteq> REDIRECT" "res_verdict send_res \<noteq> REDIRECT" "res_verdict consumed_res \<noteq> REDIRECT"
  by (simp_all add: drop_res_def send_res_def consumed_res_def)

lemma return_forward_stays: "return_forward env dp meta si p = Some (p', r) \<Longrightarrow> res_verdict r \<noteq> REDIRECT"
  by (auto simp: return_forward_def Let_def bind_eq_Some_conv split: prod.splits option.splits if_splits)

lemma inbound_forward_stays:
  assumes "inbound_forward env dp meta si is_new p = Some (p', r)"
  shows "res_verdict r \<noteq> REDIRECT"
proof -
  obtain rs where rs: "snap_rs (pr_snap p) (rs_id (sess (pr_sessions p) si)) = Some rs"
    using assms by (cases "snap_rs (pr_snap p) (rs_id (sess (pr_sessions p) si))") (simp_all add: inbound_forward_def)
  show ?thesis
    using assms unfolding inbound_forward_def rs Let_def bind.bind_lunit case_prod_beta
    by (auto simp: bind_eq_Some_conv split: option.splits if_splits)
qed

lemma handle_return_stays:
  assumes "handle_return env dp meta red p = Some (p', r)" "ret_owner (env_rss env) (dp_steering dp) (to_five_tuple meta) = w_idx (pr_w p)"
  shows "res_verdict r \<noteq> REDIRECT"
  using assms by (auto simp: handle_return_def Let_def dest: return_forward_stays split: option.splits if_splits)

lemma handle_inbound_stays:
  assumes "handle_inbound env dp k meta red rss p = Some (p', r)"
    "fwd_owner (env_hash env) (env_rss env) (dp_steering dp) (to_five_tuple meta) = w_idx (pr_w p)"
  shows "res_verdict r \<noteq> REDIRECT"
proof -
  obtain p1 x where x: "inbound_session env dp k meta (rss_check env dp (to_five_tuple meta) (is_syn meta) red rss p) = Some (p1, x)"
    "(case x of Inl fail \<Rightarrow> Some (p1, drop_res fail) | Inr (si, is_new) \<Rightarrow> inbound_forward env dp meta si is_new p1) = Some (p', r)"
    using assms by (auto simp: handle_inbound_def Let_def bind_eq_Some_conv)
  then show ?thesis by (cases x) (auto dest: inbound_forward_stays split: prod.splits)
qed

lemma dispatch_stays:
  assumes "config_ok cfg" "mgr_reach (env_hash env) cfg m" "publish (env_hash env) m = Some m'" "mgr_cur m' = Some (pr_snap p)"
    "d = dispatcher_init (dp_steering dp) (lb_mode cfg) (lb_local_ips cfg)" "pm_dst_ip meta \<noteq> 0"
    "w_idx (pr_w p) = (if dsp_fullnat d \<and> in_nat_range (pm_dst_port meta) \<and> pm_dst_ip meta \<in> set (dsp_lips d)
       then ret_owner (env_rss env) (dsp_st d) (to_five_tuple meta) else fwd_owner (env_hash env) (env_rss env) (dsp_st d) (to_five_tuple meta))"
    "dispatch_l4 env dp meta red rss p = Some (p', r)"
  shows "res_verdict r \<noteq> REDIRECT"
proof (rule reach_publish [OF _ assms(2)])
  show fits: "cfg_fits cfg" using assms(1) by (simp add: config_ok_def)
  fix m2 snap2
  assume a: "publish (env_hash env) m = Some m2" "mgr_cur m2 = Some snap2" "snap_of (env_hash env) m2 snap2"
    "mgr_local_ips m2 = mgr_local_ips m"
  then have s: "snap2 = pr_snap p" "m2 = m'" using assms(3,4) by auto
  note c = reach_config [OF assms(2) fits]
  have mode: "snap_mode (pr_snap p) = lb_mode cfg"
  proof -
    have "mgr_mode m' = mgr_mode m" using assms(3) by (auto simp: publish_def Let_def)
    then show ?thesis using a(3) c(1) s by (simp add: snap_of_def)
  qed
  have lip: "is_lip (env_hash env) (pr_snap p) (pm_dst_ip meta) = Some (pm_dst_ip meta \<in> set (mgr_local_ips m))"
    using address_tables [OF a(3) assms(6)] a(4) s by simp
  define ret where "ret \<longleftrightarrow> lb_mode cfg = NAT \<and> in_nat_range (pm_dst_port meta) \<and> pm_dst_ip meta \<in> set (lb_local_ips cfg)"
  have "and_also (and_also (Some (snap_mode (pr_snap p) = NAT)) (is_lip (env_hash env) (pr_snap p) (pm_dst_ip meta)))
      (Some (in_nat_range (pm_dst_port meta))) = Some ret"
    by (auto simp: lip mode c(2) ret_def and_also_def split: bool.splits)
  then have d: "(if ret then handle_return env dp meta red p
      else if pm_dst_ip meta = snap_hc_src (pr_snap p) \<and> in_hc_range (pm_dst_port meta) then Some (handle_hc_response meta p)
      else find_service (env_hash env) (pr_snap p) (pm_dst_ip meta) (pm_dst_port meta) (pm_ip_protocol meta) \<bind>
        (\<lambda>svc. case svc of Some k \<Rightarrow> handle_inbound env dp k meta red rss p | None \<Rightarrow> not_served env meta p)) = Some (p', r)"
    using assms(8) by (simp add: dispatch_l4_def Let_def)
  have w: "w_idx (pr_w p) = (if ret then ret_owner (env_rss env) (dp_steering dp) (to_five_tuple meta)
      else fwd_owner (env_hash env) (env_rss env) (dp_steering dp) (to_five_tuple meta))"
    using assms(7) by (simp add: assms(5) dispatcher_init_def ret_def)
  have hc: "res_verdict (snd (handle_hc_response meta p)) \<noteq> REDIRECT" by (simp add: handle_hc_response_def Let_def)
  show ?thesis
  proof (cases ret)
    case True
    then show ?thesis using d w handle_return_stays [of env dp meta red p p' r] by simp
  next
    case False
    note inb = handle_inbound_stays [where red = red and rss = rss, of env dp _ meta p p' r]
    show ?thesis using d w False hc inb
      by (auto simp: bind_eq_Some_conv not_served_def split: if_splits option.splits)
  qed
qed

text \<open>C5: In pipeline mode the receiver agrees with the workers. A TCP or UDP packet that parses, that is not addressed to 0.0.0.0, and
  that reaches the worker to which the receiver sends it is never redirected to another worker, whatever was changed
  through the snapshot manager while the balancer runs:
  the receiver, which looks at the configuration and the raw frame only, computes the same owner as the packet path,
  which looks at the parsed packet and the current snapshot.\<close>

theorem pipeline_never_redirects:
  assumes "config_load file = Some cfg" "mgr_reach (env_hash env) cfg m" "publish (env_hash env) m = Some m'" "mgr_cur m' = Some (pr_snap p)"
    "steering_ok (dp_steering dp)" "parse (mb_data (pr_m p)) meta_zero = (PARSE_OK, meta)" "is_ipv4 (mb_data (pr_m p))"
    "length (mb_data (pr_m p)) \<le> 65535" "pm_ip_protocol meta = 6 \<or> pm_ip_protocol meta = 17" "pm_dst_ip meta \<noteq> 0"
    "w_idx (pr_w p) = target (env_hash env) (env_rss env)
       (dispatcher_init (dp_steering dp) (lb_mode cfg) (lb_local_ips cfg)) (mb_data (pr_m p))"
    "process_packet env dp False rss p = Some (p', r)"
  shows "res_verdict r \<noteq> REDIRECT"
proof -
  let ?d = "dispatcher_init (dp_steering dp) (lb_mode cfg) (lb_local_ips cfg)"
  define c where "c = (if pm_ip_protocol meta = 6 then ST_TCP else ST_UDP)"
  have "steering_ok (dsp_st ?d)" using assms(5) by (simp add: dispatcher_init_def)
  note w = assms(11) [unfolded target_of_parsed [OF assms(6-9) this]]
  have "14 \<le> length (mb_data (pr_m p))" "\<not> is_arp (mb_data (pr_m p))"
    using assms(6,7) by (auto simp: parse_def is_arp_def is_ipv4_def split: if_splits)
  then have "r = drop_res ST_DROP_CKSUM \<or> r = consumed_res \<or> dispatch_l4 env dp meta False rss (count c p) = Some (p', r)"
    using assms(6,7,9,12) by (auto simp: process_packet_def Let_def c_def split: if_splits)
  moreover have "res_verdict r \<noteq> REDIRECT" if "dispatch_l4 env dp meta False rss (count c p) = Some (p', r)"
    by (rule dispatch_stays [OF config_load_ok [OF assms(1)] assms(2,3) _ refl assms(10) _ that]) (use assms(4) w in simp_all)
  ultimately show ?thesis by auto
qed

section \<open>Witnesses\<close>

definition two_workers :: dispatcher where
  "two_workers = dispatcher_init (init_sw 2 steering_zero) NAT [0x0300000A]"

lemma two_workers_ok: "steering_ok (dsp_st two_workers)" "str_n (dsp_st two_workers) = 2" "env_hash work_env = demo_env"
  by (simp_all add: two_workers_def dispatcher_init_def init_sw_ok steering_zero_ok) (simp_all add: init_sw_def work_env_def ref_env_def)

theorem receiver_dispatch_exact_witness:
  "dq_rings (dispatch_rx_queue work_env two_workers 2 (\<lambda>_. 1) [demo_mbuf, demo_mbuf, demo_mbuf] worker_stats_zero) ! 0 =
     take 1 (filter (\<lambda>m. target demo_env (env_rss work_env) two_workers (mb_data m) = 0) [demo_mbuf, demo_mbuf, demo_mbuf])"
proof -
  have "2 \<le> kMaxPipelineWorkers" "(0 :: nat) < 2" by (simp_all add: kMaxPipelineWorkers_def)
  from receiver_dispatch_exact [OF two_workers_ok(1,2) this refl, of work_env "\<lambda>_. 1" "[demo_mbuf, demo_mbuf, demo_mbuf]" worker_stats_zero]
  show ?thesis unfolding two_workers_ok(3) by blast
qed

lemma demo_snapshot:
  obtains m m' snap where "mgr_reach demo_env demo_config m" "publish demo_env m = Some m'" "mgr_cur m' = Some snap" "snap_ok work_env m' snap"
proof -
  have fits: "cfg_fits demo_config" using config_load_ok [OF demo_load] by (simp add: config_ok_def)
  obtain m where i: "mgr_init demo_env demo_config manager_zero = Some m"
    "mgr_next_rs_id m = 1 + sum_list (map (length \<circ> sc_rs) (lb_services demo_config))"
    by (rule init_fits [OF fits])
  have m: "mgr_reach demo_env demo_config m" using i(1) by (rule reach_init)
  have s: "macs_ok m" "mgr_next_rs_id m = 2"
    using i by (auto simp: mgr_init_def demo_config_def publish_def Let_def manager_zero_def macs_ok_def mac_zero_def)
  obtain m' snap where p: "publish demo_env m = Some m'" "mgr_cur m' = Some snap" "snap_of demo_env m' snap" "mgr_fits m'"
    "mgr_services m' = mgr_services m" by (rule reach_publish [OF fits m])
  have "mgr_next_rs_id m' = 2" using p(1) s(2) by (auto simp: publish_def Let_def)
  then have "snap_ok work_env m' snap" using p s(1) by (simp add: snap_ok_def two_workers_ok(3) macs_ok_def kMaxRsCounters_def)
  then show thesis using that m p by blast
qed

theorem pipeline_never_redirects_witness:
  "\<exists>m m' snap p' r. mgr_reach demo_env demo_config m \<and> publish demo_env m = Some m' \<and> mgr_cur m' = Some snap \<and>
     process_packet work_env work_dp False 0 (work_proc snap) = Some (p', r) \<and> res_verdict r \<noteq> REDIRECT"
proof (rule demo_snapshot)
  fix m m' snap
  assume a: "mgr_reach demo_env demo_config m" "publish demo_env m = Some m'" "mgr_cur m' = Some snap" "snap_ok work_env m' snap"
  obtain p' r where r: "process_packet work_env work_dp False 0 (work_proc snap) = Some (p', r)"
    using work.process_ok [OF work_proc_ok [OF a(4)], of False 0] unfolding handled_def by blast
  have d: "pr_snap (work_proc snap) = snap" "mb_data (pr_m (work_proc snap)) = demo_frame" "w_idx (pr_w (work_proc snap)) = 0"
    by (simp_all add: work_proc_def demo_mbuf_def work_worker_def)
  have "str_n (dp_steering work_dp) = 1" by (simp add: work_dp_def ref_dp_def init_sw_def)
  then have t: "target he rss (dispatcher_init (dp_steering work_dp) md ips) q = 0" for he rss md ips q
    by (simp add: target_def dispatcher_init_def)
  have "res_verdict r \<noteq> REDIRECT"
    using pipeline_never_redirects [OF demo_load, of work_env m m' "work_proc snap" work_dp demo_meta 0 p' r] a(1-3) r
      work.steering(1) demo_parse(1) demo_fields(1,2)
    by (simp add: two_workers_ok(3) d t demo_meta_tuple)
  then show ?thesis using a(1-3) r by blast
qed

end
