(* ===== verification/Worker.thy ===== *)
theory Worker
  imports Processor
begin

text \<open>
  The loop of a worker, \<^verbatim>\<open>src/dataplane/worker.cpp\<close>: receiving and handling packets, the transmit buffer, the clock and
  the expiry of sessions.

  What happens outside the worker is an argument. \<open>io_room n\<close> is how many packets the transmit queue takes in
  the \<open>n\<close>-th call of \<^verbatim>\<open>rte_eth_tx_burst\<close>, \<open>io_ring n\<close> whether the \<open>n\<close>-th packet offered to the ring of another worker
  fits, \<open>io_present i\<close> whether \<^verbatim>\<open>g_dp.workers[i]\<close> is set. The packets that leave the worker are kept in lists: sent by
  the card, passed on to another worker, or freed.
\<close>

section \<open>The transmit buffer\<close>

record tx_buffer =
  tb_pkts :: "mbuf list"
  tb_sent :: "mbuf list"
  tb_full :: "mbuf list"
  tb_bursts :: nat

definition tx_buffer_zero :: tx_buffer where
  "tx_buffer_zero = \<lparr>tb_pkts = [], tb_sent = [], tb_full = [], tb_bursts = 0\<rparr>"

definition BURST_SIZE :: nat where
  "BURST_SIZE = 64"

definition pkt_bytes :: "('h, 'n) lb_env \<Rightarrow> mbuf list \<Rightarrow> u64" where
  "pkt_bytes env ms = foldl (\<lambda>b m. b + ucast (pktmbuf_pkt_len env m)) 0 ms"

definition tx_flush :: "('h, 'n) lb_env \<Rightarrow> (nat \<Rightarrow> nat) \<Rightarrow> tx_buffer \<times> worker_stats \<Rightarrow> tx_buffer \<times> worker_stats" where
  "tx_flush env room bs =
     (let (b, st) = bs in
      if tb_pkts b = [] then (b, st)
      else
        let n = length (tb_pkts b);
            nb = min (room (tb_bursts b)) n;
            st = ws_add_bytes BS_TX (pkt_bytes env (take nb (tb_pkts b))) (ws_add ST_TX (word_of_nat nb) st);
            st = (if nb < n then ws_add ST_TX_FULL (word_of_nat (n - nb)) st else st)
        in (b\<lparr>tb_pkts := [], tb_sent := tb_sent b @ take nb (tb_pkts b), tb_full := tb_full b @ drop nb (tb_pkts b),
              tb_bursts := tb_bursts b + 1\<rparr>, st))"

definition tx_buffer_add :: "('h, 'n) lb_env \<Rightarrow> (nat \<Rightarrow> nat) \<Rightarrow> mbuf \<Rightarrow> tx_buffer \<times> worker_stats \<Rightarrow> tx_buffer \<times> worker_stats" where
  "tx_buffer_add env room m bs =
     (let b = (fst bs)\<lparr>tb_pkts := tb_pkts (fst bs) @ [m]\<rparr>
      in if length (tb_pkts b) \<ge> BURST_SIZE then tx_flush env room (b, snd bs) else (b, snd bs))"

section \<open>Handling a packet\<close>

record wio =
  io_room :: "nat \<Rightarrow> nat"
  io_ring :: "nat \<Rightarrow> bool"
  io_present :: "nat \<Rightarrow> bool"

record 'h wloop =
  wl_w :: "'h worker"
  wl_tx :: tx_buffer
  wl_events :: "master_event list"
  wl_passed :: "(nat \<times> mbuf) list"
  wl_offers :: nat
  wl_freed :: "mbuf list"
  wl_now_ms :: u64
  wl_loops :: u64
  wl_busy :: busy_meter

definition on_stats :: "(worker_stats \<Rightarrow> worker_stats) \<Rightarrow> 'h wloop \<Rightarrow> 'h wloop" where
  "on_stats f s = s\<lparr>wl_w := (wl_w s)\<lparr>w_stats := f (w_stats (wl_w s))\<rparr>\<rparr>"

definition on_tx :: "(tx_buffer \<times> worker_stats \<Rightarrow> tx_buffer \<times> worker_stats) \<Rightarrow> 'h wloop \<Rightarrow> 'h wloop" where
  "on_tx f s =
     (let (b, st) = f (wl_tx s, w_stats (wl_w s)) in s\<lparr>wl_tx := b, wl_w := (wl_w s)\<lparr>w_stats := st\<rparr>\<rparr>)"

definition free_pkt :: "mbuf \<Rightarrow> 'h wloop \<Rightarrow> 'h wloop" where
  "free_pkt m s = s\<lparr>wl_freed := wl_freed s @ [m]\<rparr>"

definition dispose :: "('h, 'n) lb_env \<Rightarrow> wio \<Rightarrow> result \<Rightarrow> mbuf \<Rightarrow> 'h wloop \<Rightarrow> 'h wloop" where
  "dispose env io r m s =
     (case res_verdict r of
        SEND \<Rightarrow> on_tx (tx_buffer_add env (io_room io) m) s
      | REDIRECT \<Rightarrow>
          if \<not> io_present io (res_target r) then free_pkt m (on_stats (ws_add ST_DROP_REDIRECT 1) s)
          else if io_ring io (wl_offers s) then
            on_stats (ws_add ST_REDIRECT_OUT 1) (s\<lparr>wl_offers := wl_offers s + 1, wl_passed := wl_passed s @ [(res_target r, m)]\<rparr>)
          else free_pkt m (on_stats (ws_add ST_DROP_REDIRECT 1) (s\<lparr>wl_offers := wl_offers s + 1\<rparr>))
      | DROP \<Rightarrow> free_pkt m (on_stats (ws_add (res_reason r) 1) s)
      | CONSUMED \<Rightarrow> free_pkt m s)"

definition handle_pkt ::
  "('h, 'n) lb_env \<Rightarrow> 'n dataplane \<Rightarrow> wio \<Rightarrow> bool \<Rightarrow> mbuf \<times> u32 \<Rightarrow> snapshot \<times> 'h wloop \<Rightarrow> (snapshot \<times> 'h wloop) option" where
  "handle_pkt env dp io redirected m ss =
     (let (snap, s) = ss in
      case process_packet env dp redirected (snd m) \<lparr>pr_w = wl_w s, pr_snap = snap, pr_m = fst m, pr_events = wl_events s\<rparr> of
        None \<Rightarrow> None
      | Some (p, r) \<Rightarrow> Some (pr_snap p, dispose env io r (pr_m p) (s\<lparr>wl_w := pr_w p, wl_events := pr_events p\<rparr>)))"

fun handle_all ::
  "('h, 'n) lb_env \<Rightarrow> 'n dataplane \<Rightarrow> wio \<Rightarrow> bool \<Rightarrow> (mbuf \<times> u32) list \<Rightarrow> snapshot \<times> 'h wloop \<Rightarrow> (snapshot \<times> 'h wloop) option" where
  "handle_all env dp io redirected [] ss = Some ss"
| "handle_all env dp io redirected (m # ms) ss =
     (case handle_pkt env dp io redirected m ss of None \<Rightarrow> None | Some ss \<Rightarrow> handle_all env dp io redirected ms ss)"

section \<open>A round of the loop\<close>

definition rx_queues :: "bool \<Rightarrow> nat \<Rightarrow> nat \<Rightarrow> nat \<Rightarrow> nat list" where
  "rx_queues pipeline idx num_rx_queues num_workers =
     (if pipeline then [] else filter (\<lambda>q. q \<ge> idx \<and> (q - idx) mod num_workers = 0) [0..<num_rx_queues])"

text \<open>A burst from the ring of the receiver, from a queue of the card, and from the ring of the other workers.\<close>

definition from_ring ::
  "('h, 'n) lb_env \<Rightarrow> 'n dataplane \<Rightarrow> wio \<Rightarrow> (mbuf \<times> u32) list \<Rightarrow> snapshot \<times> 'h wloop \<Rightarrow> (snapshot \<times> 'h wloop) option" where
  "from_ring env dp io bufs ss =
     (if bufs = [] then Some ss
      else handle_all env dp io False bufs (fst ss, on_stats (ws_add ST_RING_IN (word_of_nat (length bufs))) (snd ss)))"

definition from_queue ::
  "('h, 'n) lb_env \<Rightarrow> 'n dataplane \<Rightarrow> wio \<Rightarrow> (mbuf \<times> u32) list \<Rightarrow> snapshot \<times> 'h wloop \<Rightarrow> (snapshot \<times> 'h wloop) option" where
  "from_queue env dp io bufs ss =
     (if bufs = [] then Some ss
      else handle_all env dp io False bufs
        (fst ss, on_stats (ws_add_bytes BS_RX (pkt_bytes env (map fst bufs)) \<circ> ws_add ST_RX (word_of_nat (length bufs))) (snd ss)))"

fun from_queues ::
  "('h, 'n) lb_env \<Rightarrow> 'n dataplane \<Rightarrow> wio \<Rightarrow> (mbuf \<times> u32) list list \<Rightarrow> snapshot \<times> 'h wloop \<Rightarrow> (snapshot \<times> 'h wloop) option" where
  "from_queues env dp io [] ss = Some ss"
| "from_queues env dp io (bufs # rest) ss =
     (case from_queue env dp io bufs ss of None \<Rightarrow> None | Some ss \<Rightarrow> from_queues env dp io rest ss)"

definition from_workers ::
  "('h, 'n) lb_env \<Rightarrow> 'n dataplane \<Rightarrow> wio \<Rightarrow> (mbuf \<times> u32) list \<Rightarrow> snapshot \<times> 'h wloop \<Rightarrow> (snapshot \<times> 'h wloop) option" where
  "from_workers env dp io bufs ss =
     (if bufs = [] then Some ss
      else handle_all env dp io True bufs (fst ss, on_stats (ws_add ST_REDIRECT_IN (word_of_nat (length bufs))) (snd ss)))"

text \<open>What a round finds: the bursts, and the time stamp counter where it is read.\<close>

record round_in =
  in_pipeline :: bool
  in_ring :: "(mbuf \<times> u32) list"
  in_queues :: "(mbuf \<times> u32) list list"
  in_redirect :: "(mbuf \<times> u32) list"
  in_busy_tsc :: u64
  in_tsc :: u64
  in_start_tsc :: u64
  in_tsc_hz :: u64

definition clock_ms :: "round_in \<Rightarrow> u64" where
  "clock_ms rin = (in_tsc rin - in_start_tsc rin) * 1000 div in_tsc_hz rin"

definition clock_tick :: "round_in \<Rightarrow> nat" where
  "clock_tick rin = unat (1 + clock_ms rin div 1000)"

definition expire_sessions :: "('h, 'n) lb_env \<Rightarrow> round_in \<Rightarrow> 'h wloop \<Rightarrow> 'h wloop option" where
  "expire_sessions env rin s =
     (let now = clock_tick rin in
      case st_expire (env_sess env) (w_sessions (wl_w s)) now of
        None \<Rightarrow> None
      | Some (t, n) \<Rightarrow>
          let s = s\<lparr>wl_now_ms := clock_ms rin, wl_w := (wl_w s)\<lparr>w_sessions := t, w_now_tick := now\<rparr>\<rparr>
          in Some (if n \<noteq> 0 then on_stats (ws_add ST_SESS_EXPIRED (word_of_nat n)) s else s))"

definition had_work :: "round_in \<Rightarrow> bool" where
  "had_work rin \<longleftrightarrow> (if in_pipeline rin then in_ring rin \<noteq> [] else concat (in_queues rin) \<noteq> []) \<or> in_redirect rin \<noteq> []"

definition end_of_round :: "('h, 'n) lb_env \<Rightarrow> wio \<Rightarrow> round_in \<Rightarrow> 'h wloop \<Rightarrow> 'h wloop option" where
  "end_of_round env io rin s =
     (let s = on_tx (tx_flush env (io_room io)) s;
          (bm, st) = bm_loop (had_work rin) (in_busy_tsc rin) (wl_busy s, w_stats (wl_w s));
          s = s\<lparr>wl_busy := bm, wl_w := (wl_w s)\<lparr>w_stats := st\<rparr>, wl_loops := wl_loops s + 1\<rparr>
      in if wl_loops s AND 1023 = 0 then expire_sessions env rin s else Some s)"

definition worker_round ::
  "('h, 'n) lb_env \<Rightarrow> 'n dataplane \<Rightarrow> wio \<Rightarrow> round_in \<Rightarrow> snapshot \<times> 'h wloop \<Rightarrow> (snapshot \<times> 'h wloop) option" where
  "worker_round env dp io rin ss = do {
     ss \<leftarrow> (if in_pipeline rin then from_ring env dp io (in_ring rin) ss else from_queues env dp io (in_queues rin) ss);
     ss \<leftarrow> from_workers env dp io (in_redirect rin) ss;
     s \<leftarrow> end_of_round env io rin (snd ss);
     Some (fst ss, s)
   }"

end
