(* ===== verification/Worker_Clock.thy ===== *)
theory Worker_Clock
  imports Processor
begin

text \<open>
  Packet processing does not touch the clock of the worker.
\<close>

abbreviation tick :: "'h proc \<Rightarrow> nat" where
  "tick p \<equiv> w_now_tick (pr_w p)"

definition keeps :: "nat \<Rightarrow> ('h proc \<times> 'r) option \<Rightarrow> bool" where
  "keeps n x \<longleftrightarrow> (case x of None \<Rightarrow> True | Some (p, r) \<Rightarrow> tick p = n)"

lemma keeps_simps [simp]: "keeps n None" "keeps n (Some (p, r)) \<longleftrightarrow> tick p = n"
  by (simp_all add: keeps_def)

lemma keeps_bind: "(\<And>y. x = Some y \<Longrightarrow> keeps n (f y)) \<Longrightarrow> keeps n (x \<bind> f)"
  by (cases x) simp_all

lemma tick_helpers [simp]:
  "tick (count st p) = tick p" "tick (post_master_event ev p) = tick p" "tick (on_sessions f p) = tick p" "tick (request_neigh ip p) = tick p"
  "tick (count_bytes b n p) = tick p" "tick (close_session env i p) = tick p" "tick (update_state dp i fg d p) = tick p"
  "tick (rss_check env dp t syn red rss p) = tick p" "tick (count_outcome out p) = tick p"
  by (simp_all add: count_def post_master_event_def on_sessions_def request_neigh_def count_bytes_def close_session_def update_state_def
      rss_check_def count_outcome_def Let_def)

lemma tick_rs_count: "rs_count i f p = Some p' \<Longrightarrow> tick p' = tick p"
  by (auto simp: rs_count_def split: if_splits)

lemma tick_fwd: "count_fwd_in env i p = Some p' \<Longrightarrow> tick p' = tick p" "count_fwd_out env i p = Some p' \<Longrightarrow> tick p' = tick p"
  by (auto simp: count_fwd_in_def count_fwd_out_def Let_def dest: tick_rs_count)

lemma tick_resolve: "tick (snd (snd (resolve_mac env dp hop cache fb p))) = tick p"
  by (simp add: resolve_mac_def Let_def split: option.split)

lemma tick_resolve_rs [simp]: "tick (snd (resolve_rs_mac env dp i rs p)) = tick p" "tick (snd (resolve_client_mac env dp i p)) = tick p"
  by (simp_all add: resolve_rs_mac_def resolve_client_mac_def Let_def case_prod_beta tick_resolve)

definition fullnat_worker :: "'h fullnat \<Rightarrow> 'h worker" where
  "fullnat_worker r = (case r of Found w _ \<Rightarrow> w | Table_Full w \<Rightarrow> w | No_Port w \<Rightarrow> w)"

lemma fullnat_worker_simps [simp]: "fullnat_worker (Found w i) = w" "fullnat_worker (Table_Full w) = w" "fullnat_worker (No_Port w) = w"
  by (simp_all add: fullnat_worker_def)

lemma tick_probe: "w_now_tick (fullnat_worker (fullnat_probe env dp snap cli rs o' li n w)) = w_now_tick w"
  by (induction n arbitrary: w) (simp_all add: Let_def split: prod.split option.split)

lemma tick_lips: "w_now_tick (fullnat_worker (fullnat_lips env dp snap cli rs o' rr n w)) = w_now_tick w"
proof (induction n arbitrary: w)
  case (Suc n)
  let ?li = "(rr + (length (snap_local_ips snap) - Suc n)) mod length (snap_local_ips snap)"
  let ?p = "fullnat_probe env dp snap cli rs o' ?li (if ret_by_rss (dp_steering dp) (protocol cli) then 64 * str_n (dp_steering dp) else 64) w"
  have "w_now_tick (fullnat_worker ?p) = w_now_tick w" by (rule tick_probe)
  then show ?case using Suc by (cases ?p) (simp_all add: Let_def)
qed simp

lemma tick_outcome:
  "w_now_tick (fst (case r of Found w si \<Rightarrow> (w, Inr si) | Table_Full w \<Rightarrow> (w, Inl a) | No_Port w \<Rightarrow> (w, Inl b))) = w_now_tick (fullnat_worker r)"
  by (cases r) simp_all

lemma tick_create: "w_now_tick (fst (create_fullnat env dp snap cli rs o' w)) = w_now_tick w"
  by (simp add: create_fullnat_def Let_def tick_outcome tick_lips)

lemma tick_create_dr:
  "w_now_tick (fst (case snd c of None \<Rightarrow> (w\<lparr>w_sessions := t\<rparr>, Inl e) | Some si \<Rightarrow> (w\<lparr>w_sessions := t\<rparr>, Inr si))) = w_now_tick w"
  by (simp split: option.split)

lemma keeps_sum: "(\<And>a. x = Inl a \<Longrightarrow> keeps n (f a)) \<Longrightarrow> (\<And>b. x = Inr b \<Longrightarrow> keeps n (g b)) \<Longrightarrow> keeps n (case x of Inl a \<Rightarrow> f a | Inr b \<Rightarrow> g b)"
  by (cases x) simp_all

lemma keeps_option: "(x = None \<Longrightarrow> keeps n f) \<Longrightarrow> (\<And>b. x = Some b \<Longrightarrow> keeps n (g b)) \<Longrightarrow> keeps n (case x of None \<Rightarrow> f | Some b \<Rightarrow> g b)"
  by (cases x) simp_all

lemma keeps_new_session: "keeps (tick p) (new_session env dp k tuple p)"
  unfolding new_session_def Let_def case_prod_beta
  by (intro keeps_option keeps_sum keeps_bind; simp add: tick_create tick_create_dr; (drule tick_rs_count)?; simp add: tick_create tick_create_dr)

lemma keeps_new: "tick q = n \<Longrightarrow> keeps n (new_session env dp k tuple q \<bind> (\<lambda>(p, r). Some (p, f r)))"
  using keeps_new_session [of q env dp k tuple] by (cases "new_session env dp k tuple q") (auto simp: case_prod_beta keeps_def)

lemma keeps_inbound_session: "keeps (tick p) (inbound_session env dp k meta p)"
  unfolding inbound_session_def Let_def by (rule keeps_option) (simp_all add: keeps_new)

lemma keeps_inbound_forward: "keeps (tick p) (inbound_forward env dp meta i is_new p)"
  unfolding inbound_forward_def Let_def case_prod_beta
  by (auto intro!: keeps_bind dest!: tick_fwd split: option.split)

lemma keeps_return_forward: "keeps (tick p) (return_forward env dp meta i p)"
  unfolding return_forward_def Let_def case_prod_beta
  by (auto intro!: keeps_bind dest!: tick_fwd split: option.split)

lemma keeps_inbound: "keeps (tick p) (handle_inbound env dp k meta red rss p)"
proof -
  let ?q = "rss_check env dp (to_five_tuple meta) (is_syn meta) red rss p"
  have "keeps (tick p) (inbound_session env dp k meta ?q)" using keeps_inbound_session [of ?q env dp k meta] by simp
  then have q: "inbound_session env dp k meta ?q = Some (p', r) \<Longrightarrow> tick p' = tick p" for p' r by simp
  have f: "tick q = n \<Longrightarrow> keeps n (inbound_forward env dp meta i is_new q)" for q n i is_new using keeps_inbound_forward by blast
  show ?thesis
    unfolding handle_inbound_def Let_def case_prod_beta
    by (auto intro!: keeps_bind keeps_sum simp: q f)
qed

lemma keeps_return: "keeps (tick p) (handle_return env dp meta red p)"
  using keeps_return_forward [of p env dp meta] by (simp add: handle_return_def Let_def split: option.split)

lemma keeps_icmp: "keeps (tick p) (handle_icmp env dp meta red p)"
proof -
  have "keeps (tick p) (icmp_error_to_client env dp meta info red p)" for info
    unfolding icmp_error_to_client_def Let_def case_prod_beta by (simp split: option.split)
  moreover have "keeps (tick p) (icmp_error_to_rs env dp meta info red p)" for info
    unfolding icmp_error_to_rs_def Let_def case_prod_beta by (simp split: option.split)
  ultimately show ?thesis
    by (auto simp: handle_icmp_def handle_icmp_error_def Let_def case_prod_beta split: option.split intro!: keeps_bind)
qed

lemma keeps_not_served: "keeps (tick p) (not_served env meta p)"
  by (auto simp: not_served_def intro!: keeps_bind)

lemma keeps_dispatch: "keeps (tick p) (dispatch_l4 env dp meta red rss p)"
proof -
  have "keeps (tick p) (Some (handle_hc_response meta p))" by (simp add: handle_hc_response_def Let_def)
  then show ?thesis
    using keeps_return [of p env dp meta red] keeps_inbound [of p env dp _ meta red rss] keeps_not_served [of p env meta]
    by (auto simp: dispatch_l4_def Let_def split: option.split intro!: keeps_bind)
qed

lemma keeps_arp: "keeps (tick p) (handle_arp env dp p)"
  by (auto simp: handle_arp_def Let_def intro!: keeps_bind)

lemma process_keeps_tick: "process_packet env dp red rss p = Some (p', r) \<Longrightarrow> tick p' = tick p"
proof -
  have "keeps (tick p) (process_packet env dp red rss p)"
    using keeps_arp [of p env dp] keeps_icmp [of p env dp _ red] keeps_not_served [of p env] keeps_dispatch [of "if red then p else count st p" env dp _ red rss for st]
      keeps_icmp [of "if red then p else count ST_ICMP p" env dp _ red]
    by (auto simp: process_packet_def Let_def split: parse_result.split prod.split intro!: keeps_bind)
  then show "process_packet env dp red rss p = Some (p', r) \<Longrightarrow> tick p' = tick p" by simp
qed

end
