(* ===== verification/Worker_Props.thy ===== *)
theory Worker_Props
  imports Worker Worker_Clock Processor_Props
begin

text \<open>
  What a round of the loop of a worker guarantees: it ends, keeps the worker well formed, and accounts for the number of packets.
\<close>

section \<open>Bookkeeping of packets\<close>

definition held :: "'h wloop \<Rightarrow> nat" where
  "held s = length (tb_pkts (wl_tx s)) + length (tb_sent (wl_tx s)) + length (tb_full (wl_tx s)) + length (wl_passed s) + length (wl_freed s)"

text \<open>The counters that belong to the session table.\<close>

definition same_sess_stats :: "worker_stats \<Rightarrow> worker_stats \<Rightarrow> bool" where
  "same_sess_stats a b \<longleftrightarrow> (\<forall>k \<in> {ST_SESS_NEW, ST_SESS_EXPIRED, ST_SESS_CLOSED}. ws_c b k = ws_c a k)"

lemma worker_ok_stats:
  assumes "worker_ok env dp snap w" "same_sess_stats (w_stats w) st"
  shows "worker_ok env dp snap (w\<lparr>w_stats := st\<rparr>)"
  using assms by (simp add: worker_ok_def same_sess_stats_def)

lemma tx_flush_facts:
  assumes "tx_flush env room (b, st) = (b', st')"
  shows "tb_pkts b' = []" "same_sess_stats st st'"
    "length (tb_sent b') + length (tb_full b') = length (tb_pkts b) + length (tb_sent b) + length (tb_full b)"
  using assms by (auto simp: tx_flush_def Let_def same_sess_stats_def split: if_splits)

lemma tx_add_facts:
  assumes "tx_buffer_add env room m (b, st) = (b', st')" "length (tb_pkts b) < BURST_SIZE"
  shows "length (tb_pkts b') < BURST_SIZE" "same_sess_stats st st'"
    "length (tb_pkts b') + length (tb_sent b') + length (tb_full b') = Suc (length (tb_pkts b) + length (tb_sent b) + length (tb_full b))"
proof -
  let ?b = "b\<lparr>tb_pkts := tb_pkts b @ [m]\<rparr>"
  have "(if BURST_SIZE \<le> length (tb_pkts ?b) then tx_flush env room (?b, st) else (?b, st)) = (b', st')"
    using assms(1) unfolding tx_buffer_add_def Let_def fst_conv snd_conv .
  then show "length (tb_pkts b') < BURST_SIZE" "same_sess_stats st st'"
    "length (tb_pkts b') + length (tb_sent b') + length (tb_full b') = Suc (length (tb_pkts b) + length (tb_sent b) + length (tb_full b))"
    using tx_flush_facts [of env room ?b st b' st'] assms(2)
    by (auto simp: same_sess_stats_def BURST_SIZE_def split: if_splits)
qed

section \<open>Handling packets\<close>

definition loop_ok :: "('h, 'n) lb_env \<Rightarrow> 'n dataplane \<Rightarrow> manager \<Rightarrow> snapshot \<times> 'h wloop \<Rightarrow> bool" where
  "loop_ok env dp m ss \<longleftrightarrow> worker_ok env dp (fst ss) (wl_w (snd ss)) \<and> snap_ok env m (fst ss) \<and>
     length (tb_pkts (wl_tx (snd ss))) < BURST_SIZE"

lemma loop_ok_stats:
  assumes "loop_ok env dp m (snap, s)" "same_sess_stats (w_stats (wl_w s)) (f (w_stats (wl_w s)))"
  shows "loop_ok env dp m (snap, on_stats f s)"
  using assms by (simp add: loop_ok_def on_stats_def worker_ok_stats)

lemma held_stats [simp]: "w_now_tick (wl_w (on_stats f s)) = w_now_tick (wl_w s)" "wl_loops (on_stats f s) = wl_loops s" "held (on_stats f s) = held s" "w_idx (wl_w (on_stats f s)) = w_idx (wl_w s)"
  "held (free_pkt x s) = Suc (held s)" "w_idx (wl_w (free_pkt x s)) = w_idx (wl_w s)" "wl_w (free_pkt x s) = wl_w s" "wl_tx (free_pkt x s) = wl_tx s"
  by (simp_all add: held_def on_stats_def free_pkt_def)

lemma add_same: "k \<notin> {ST_SESS_NEW, ST_SESS_EXPIRED, ST_SESS_CLOSED} \<Longrightarrow> same_sess_stats st (ws_add k n st)"
  by (auto simp: same_sess_stats_def)

lemma loop_ok_free [simp]: "loop_ok env dp m (snap, free_pkt x s) = loop_ok env dp m (snap, s)"
  "loop_ok env dp m (snap, s\<lparr>wl_offers := a\<rparr>) = loop_ok env dp m (snap, s)" "loop_ok env dp m (snap, s\<lparr>wl_passed := b\<rparr>) = loop_ok env dp m (snap, s)"
  by (simp_all add: loop_ok_def)

lemma dispose_ok:
  assumes "loop_ok env dp m (snap, s)" "result_ok dp i red r"
  shows "loop_ok env dp m (snap, dispose env io r x s)" "held (dispose env io r x s) = Suc (held s)"
    "w_idx (wl_w (dispose env io r x s)) = w_idx (wl_w s)" "w_now_tick (wl_w (dispose env io r x s)) = w_now_tick (wl_w s)"
    "wl_loops (dispose env io r x s) = wl_loops s"
proof -
  obtain b st where b: "tx_buffer_add env (io_room io) x (wl_tx s, w_stats (wl_w s)) = (b, st)" by fastforce
  note t = tx_add_facts [OF b]
  have len: "length (tb_pkts (wl_tx s)) < BURST_SIZE" using assms(1) by (simp add: loop_ok_def)
  have d: "res_reason r \<notin> {ST_SESS_NEW, ST_SESS_EXPIRED, ST_SESS_CLOSED}" if "res_verdict r = DROP"
    using assms(2) that by (auto simp: result_ok_def drop_stats_def)
  have s: "loop_ok env dp m (snap, on_stats (ws_add k n) s')" if "loop_ok env dp m (snap, s')" "k \<notin> {ST_SESS_NEW, ST_SESS_EXPIRED, ST_SESS_CLOSED}"
    for k n s' using that(1) by (rule loop_ok_stats) (rule add_same [OF that(2)])
  show "loop_ok env dp m (snap, dispose env io r x s)"
  proof (cases "res_verdict r")
    case SEND
    then show ?thesis
      using t [OF len] assms(1) by (simp add: dispose_def on_tx_def b loop_ok_def worker_ok_stats)
  qed (use assms(1) d s in \<open>simp_all add: dispose_def\<close>)
  show "held (dispose env io r x s) = Suc (held s)"
    using t(3) [OF len] by (simp add: dispose_def on_tx_def b held_def split: verdict.splits)
      (auto simp: on_stats_def free_pkt_def held_def)
  show "w_idx (wl_w (dispose env io r x s)) = w_idx (wl_w s)" "w_now_tick (wl_w (dispose env io r x s)) = w_now_tick (wl_w s)"
    "wl_loops (dispose env io r x s) = wl_loops s"
    by (auto simp: dispose_def on_tx_def on_stats_def free_pkt_def split: verdict.splits prod.splits)
qed

text \<open>What handling packets does to the state of the loop: it ends, and accounts for \<open>n\<close> packets.\<close>

definition took :: "('h, 'n) lb_env \<Rightarrow> 'n dataplane \<Rightarrow> manager \<Rightarrow> nat \<Rightarrow> snapshot \<times> 'h wloop \<Rightarrow> (snapshot \<times> 'h wloop) option \<Rightarrow> bool" where
  "took env dp m n ss r \<longleftrightarrow>
     (\<exists>ss'. r = Some ss' \<and> loop_ok env dp m ss' \<and> held (snd ss') = held (snd ss) + n \<and> w_idx (wl_w (snd ss')) = w_idx (wl_w (snd ss)) \<and>
        same_config (fst ss) (fst ss') \<and> w_now_tick (wl_w (snd ss')) = w_now_tick (wl_w (snd ss)) \<and> wl_loops (snd ss') = wl_loops (snd ss))"

lemma took_refl: "loop_ok env dp m ss \<Longrightarrow> took env dp m 0 ss (Some ss)"
  by (simp add: took_def)

lemma took_trans:
  assumes "took env dp m a ss r" "\<And>ss'. loop_ok env dp m ss' \<Longrightarrow> took env dp m b ss' (f ss')"
  shows "took env dp m (a + b) ss (case r of None \<Rightarrow> None | Some ss' \<Rightarrow> f ss')"
proof -
  obtain s1 where 1: "r = Some s1" "loop_ok env dp m s1" "held (snd s1) = held (snd ss) + a" "w_idx (wl_w (snd s1)) = w_idx (wl_w (snd ss))"
    "same_config (fst ss) (fst s1)" "w_now_tick (wl_w (snd s1)) = w_now_tick (wl_w (snd ss))" "wl_loops (snd s1) = wl_loops (snd ss)"
    using assms(1) unfolding took_def by blast
  obtain s2 where 2: "f s1 = Some s2" "loop_ok env dp m s2" "held (snd s2) = held (snd s1) + b" "w_idx (wl_w (snd s2)) = w_idx (wl_w (snd s1))"
    "same_config (fst s1) (fst s2)" "w_now_tick (wl_w (snd s2)) = w_now_tick (wl_w (snd s1))" "wl_loops (snd s2) = wl_loops (snd s1)"
    using assms(2) [OF 1(2)] unfolding took_def by blast
  show ?thesis unfolding took_def using 1 2 same_config_trans [OF 1(5) 2(5)] by (intro exI [of _ s2]) simp
qed

lemma took_stats:
  assumes "took env dp m n (fst ss, on_stats f (snd ss)) r"
  shows "took env dp m n ss r"
  using assms by (simp add: took_def)

context balancer
begin

lemma handle_pkt_ok:
  assumes "loop_ok env dp m ss"
  shows "took env dp m 1 ss (handle_pkt env dp io red x ss)"
proof -
  obtain snap s where ss: "ss = (snap, s)" by fastforce
  let ?p = "\<lparr>pr_w = wl_w s, pr_snap = snap, pr_m = fst x, pr_events = wl_events s\<rparr>"
  have "proc_ok env dp m ?p" using assms by (simp add: ss loop_ok_def proc_ok_def)
  then obtain p r where p: "process_packet env dp red (snd x) ?p = Some (p, r)" "proc_ok env dp m p" "same_config snap (pr_snap p)"
    "w_idx (pr_w p) = w_idx (wl_w s)" "result_ok dp (w_idx (wl_w s)) red r"
    using process_ok [of m ?p red "snd x"] by (auto simp: handled_def)
  define s1 where "s1 = s\<lparr>wl_w := pr_w p, wl_events := pr_events p\<rparr>"
  have "loop_ok env dp m (pr_snap p, s1)" using p(2) assms by (simp add: s1_def ss loop_ok_def proc_ok_def)
  note d = dispose_ok [OF this p(5), of io "pr_m p"]
  have "held s1 = held s" by (simp add: s1_def held_def)
  moreover have "w_now_tick (pr_w p) = w_now_tick (wl_w s)" using process_keeps_tick [OF p(1)] by simp
  ultimately show ?thesis
    unfolding took_def using d p(3,4)
    by (intro exI [of _ "(pr_snap p, dispose env io r (pr_m p) s1)"]) (simp add: handle_pkt_def ss p(1) s1_def)
qed

lemma handle_all_ok: "loop_ok env dp m ss \<Longrightarrow> took env dp m (length xs) ss (handle_all env dp io red xs ss)"
proof (induction xs arbitrary: ss)
  case (Cons x xs)
  show ?case
    using took_trans [OF handle_pkt_ok [OF Cons.prems], of "length xs" "handle_all env dp io red xs" io red x] Cons.IH by simp
qed (simp add: took_refl)

lemma bursts_ok:
  assumes "loop_ok env dp m ss"
  shows "took env dp m (length xs) ss (from_ring env dp io xs ss)" "took env dp m (length xs) ss (from_queue env dp io xs ss)"
    "took env dp m (length xs) ss (from_workers env dp io xs ss)"
proof -
  have h: "took env dp m (length xs) ss (handle_all env dp io red xs (fst ss, on_stats f (snd ss)))"
    if "\<And>st. same_sess_stats st (f st)" for red f
    by (rule took_stats, rule handle_all_ok, rule loop_ok_stats) (use assms that in simp_all)
  have "same_sess_stats st ((ws_add_bytes BS_RX b \<circ> ws_add ST_RX n) st)" for b n st by (simp add: same_sess_stats_def)
  then show "took env dp m (length xs) ss (from_queue env dp io xs ss)" using h took_refl [OF assms] by (simp add: from_queue_def)
  show "took env dp m (length xs) ss (from_ring env dp io xs ss)" "took env dp m (length xs) ss (from_workers env dp io xs ss)"
    using h [OF add_same] took_refl [OF assms] by (simp_all add: from_ring_def from_workers_def)
qed

lemma queues_ok: "loop_ok env dp m ss \<Longrightarrow> took env dp m (length (concat xss)) ss (from_queues env dp io xss ss)"
proof (induction xss arbitrary: ss)
  case (Cons xs xss)
  show ?case
    using took_trans [OF bursts_ok(2) [OF Cons.prems], of "length (concat xss)" "from_queues env dp io xss" xs io] Cons.IH by simp
qed (simp add: took_refl)

end

section \<open>The end of a round\<close>

lemma bm_loop_stats: "ws_c (snd (bm_loop h n (b, st))) = ws_c st"
  by (simp add: bm_loop_def Let_def)

lemma expire_conn:
  assumes "rte_hash ops" "st_good ops n t"
  obtains t' r where "st_expire ops t n = Some (t', r)" "st_good ops n t'" "card (dom (conn t)) = card (dom (conn t')) + r"
    "\<forall>i s. conn t' i = Some s \<longrightarrow> conn t i = Some s" "\<forall>i s. conn t i = Some s \<longrightarrow> n < expire_tick s \<longrightarrow> conn t' i = Some s"
    "card (dom (conn t)) < kExpireBudget \<longrightarrow> cur_tick t' = Suc n"
proof -
  obtain t' r where e: "st_expire ops t n = Some (t', r)" "st_inv ops t'" "cur_tick t' \<le> Suc n" "swept n t t'"
    "r + card (active_set t') = card (active_set t)" "card (due t n) < kExpireBudget \<longrightarrow> sweep_done t' n"
    using expire_loop_ok [OF assms(1) st_goodD [OF assms(2)], of kExpireBudget 0] unfolding sweep_result_def st_expire_def by auto
  have d: "card (due t n) \<le> card (dom (conn t))"
    unfolding dom_conn by (rule card_mono) (auto simp: active_set_def due_def active_finite)
  show thesis
  proof (rule that [OF e(1)])
    show "st_good ops n t'" using e(2,3) by (simp add: st_good_def)
    show "card (dom (conn t)) = card (dom (conn t')) + r" using e(5) by (simp add: dom_conn)
    show "\<forall>i s. conn t' i = Some s \<longrightarrow> conn t i = Some s"
      using e(4) unfolding swept_def by (metis conn_def option.distinct(1))
    have "conn t' i = Some s" if "conn t i = Some s" "n < expire_tick s" for i s
    proof -
      have a: "is_active t i" "core (sess t i) = s" using conn_active [OF that(1)] by simp_all
      then have "expire_tick (sess t i) = expire_tick s" by (auto simp: core_def)
      then have "is_active t' i" using e(4) a(1) that(2) unfolding swept_def by simp
      then show ?thesis using e(4) a(2) unfolding swept_def by (simp add: conn_def)
    qed
    then show "\<forall>i s. conn t i = Some s \<longrightarrow> n < expire_tick s \<longrightarrow> conn t' i = Some s" by blast
    show "card (dom (conn t)) < kExpireBudget \<longrightarrow> cur_tick t' = Suc n"
      using e(3,6) d by (auto simp: sweep_done_def)
  qed
qed

text \<open>The wheel of the session table reaches as far as the longest timeout.\<close>

definition wheel_reaches :: "'n dataplane \<Rightarrow> 'h worker \<Rightarrow> bool" where
  "wheel_reaches dp w \<longleftrightarrow> (\<forall>st. in_horizon (w_sessions w) (w_now_tick w) (state_timeout st (lb_timeouts (dp_cfg dp))))"

lemma keeping_up_reaches:
  assumes "cur_tick (w_sessions w) = Suc (w_now_tick w)" "\<And>st. state_timeout st (lb_timeouts (dp_cfg dp)) \<le> kWheelSlots - 2"
  shows "wheel_reaches dp w"
proof -
  have "state_timeout st (lb_timeouts (dp_cfg dp)) + 2 \<le> kWheelSlots" for st using assms(2) [of st] by (simp add: kWheelSlots_def)
  then show ?thesis by (simp add: wheel_reaches_def in_horizon_def deadline_def assms(1) kWheelSlots_def)
qed

context balancer
begin

lemma expire_sessions_ok:
  assumes "loop_ok env dp m (snap, s)" "w_now_tick (wl_w s) \<le> clock_tick rin"
  shows "\<exists>s'. expire_sessions env rin s = Some s' \<and> held s' = held s \<and> w_now_tick (wl_w s') = clock_tick rin \<and> wl_tx s' = wl_tx s \<and>
    (wheel_reaches dp (wl_w s') \<longrightarrow> loop_ok env dp m (snap, s')) \<and>
    (card (dom (conn (w_sessions (wl_w s)))) < kExpireBudget \<longrightarrow> cur_tick (w_sessions (wl_w s')) = Suc (clock_tick rin))"
proof -
  let ?t = "w_sessions (wl_w s)" and ?n = "clock_tick rin"
  have w: "worker_ok env dp snap (wl_w s)" "snap_ok env m snap" "length (tb_pkts (wl_tx s)) < BURST_SIZE"
    using assms(1) by (simp_all add: loop_ok_def)
  have "st_good (env_sess env) ?n ?t"
    using w(1) assms(2) by (auto simp: worker_ok_def table_ok_def st_good_def)
  then obtain t r where e: "st_expire (env_sess env) ?t ?n = Some (t, r)" "st_good (env_sess env) ?n t" "card (dom (conn ?t)) = card (dom (conn t)) + r"
    "\<forall>i s. conn t i = Some s \<longrightarrow> conn ?t i = Some s" "\<forall>i s. conn ?t i = Some s \<longrightarrow> ?n < expire_tick s \<longrightarrow> conn t i = Some s"
    "card (dom (conn ?t)) < kExpireBudget \<longrightarrow> cur_tick t = Suc ?n"
    by (rule expire_conn [OF sess_ops])
  define s1 where "s1 = s\<lparr>wl_now_ms := clock_ms rin, wl_w := (wl_w s)\<lparr>w_sessions := t, w_now_tick := ?n\<rparr>\<rparr>"
  define s2 where "s2 = (if r \<noteq> 0 then on_stats (ws_add ST_SESS_EXPIRED (word_of_nat r)) s1 else s1)"
  have x: "expire_sessions env rin s = Some s2" by (simp add: expire_sessions_def e(1) s1_def s2_def Let_def)
  have f: "held s2 = held s" "w_now_tick (wl_w s2) = ?n" "wl_tx s2 = wl_tx s" "w_sessions (wl_w s2) = t" "w_idx (wl_w s2) = w_idx (wl_w s)"
    "w_rs_stats (wl_w s2) = w_rs_stats (wl_w s)"
    by (simp_all add: s2_def s1_def held_def on_stats_def)
  have c: "ws_c (w_stats (wl_w s2)) k = ws_c (w_stats (wl_w s)) k + (if k = ST_SESS_EXPIRED then word_of_nat r else 0)" for k
    by (simp add: s2_def s1_def on_stats_def)
  have "worker_ok env dp snap (wl_w s2)" if "wheel_reaches dp (wl_w s2)"
  proof -
    have "\<forall>i s'. conn t i = Some s' \<longrightarrow> sess_ok env dp (w_idx (wl_w s)) snap s'" using w(1) e(4) unfolding worker_ok_def table_ok_def by blast
    then show ?thesis using w(1) that e(2,3) by (simp add: worker_ok_def table_ok_def wheel_reaches_def f c)
  qed
  then show ?thesis using x f w(2,3) e(6) by (simp add: loop_ok_def)
qed

lemma end_of_round_ok:
  assumes "loop_ok env dp m (snap, s)" "w_now_tick (wl_w s) \<le> clock_tick rin"
  shows "\<exists>s'. end_of_round env io rin s = Some s' \<and> held s' = held s \<and> tb_pkts (wl_tx s') = [] \<and>
    (wheel_reaches dp (wl_w s') \<longrightarrow> loop_ok env dp m (snap, s')) \<and>
    (wl_loops s + 1 AND 1023 \<noteq> 0 \<longrightarrow> loop_ok env dp m (snap, s') \<and> w_now_tick (wl_w s') = w_now_tick (wl_w s))"
proof -
  obtain b st where b: "tx_flush env (io_room io) (wl_tx s, w_stats (wl_w s)) = (b, st)" by fastforce
  note t = tx_flush_facts [OF b]
  obtain bm st2 where bm: "bm_loop (had_work rin) (in_busy_tsc rin) (wl_busy s, st) = (bm, st2)" by fastforce
  define s1 where "s1 = s\<lparr>wl_tx := b, wl_busy := bm, wl_w := (wl_w s)\<lparr>w_stats := st2\<rparr>, wl_loops := wl_loops s + 1\<rparr>"
  have e: "end_of_round env io rin s = (if wl_loops s + 1 AND 1023 = 0 then expire_sessions env rin s1 else Some s1)"
    by (simp add: end_of_round_def on_tx_def b bm s1_def Let_def)
  have "same_sess_stats (w_stats (wl_w s)) st2" using t(2) bm_loop_stats [of "had_work rin" "in_busy_tsc rin" "wl_busy s" st] bm
    by (simp add: same_sess_stats_def)
  then have l: "loop_ok env dp m (snap, s1)" using assms(1) t(1) by (simp add: loop_ok_def s1_def worker_ok_stats BURST_SIZE_def)
  have h: "held s1 = held s" "tb_pkts (wl_tx s1) = []" "w_now_tick (wl_w s1) = w_now_tick (wl_w s)" using t by (simp_all add: held_def s1_def)
  show ?thesis
  proof (cases "wl_loops s + 1 AND 1023 = 0")
    case True
    have "w_now_tick (wl_w s1) \<le> clock_tick rin" using assms(2) h(3) by simp
    from expire_sessions_ok [OF l this] show ?thesis using True h e by auto
  next
    case False
    then show ?thesis using l h e by simp
  qed
qed

lemma worker_round_ok:
  assumes "loop_ok env dp m ss" "w_now_tick (wl_w (snd ss)) \<le> clock_tick rin"
  shows "\<exists>ss'. worker_round env dp io rin ss = Some ss' \<and> tb_pkts (wl_tx (snd ss')) = [] \<and>
    held (snd ss') = held (snd ss) + (if in_pipeline rin then length (in_ring rin) else length (concat (in_queues rin))) + length (in_redirect rin) \<and>
    (wheel_reaches dp (wl_w (snd ss')) \<longrightarrow> loop_ok env dp m ss') \<and> (wl_loops (snd ss) + 1 AND 1023 \<noteq> 0 \<longrightarrow> loop_ok env dp m ss')"
proof -
  let ?n = "if in_pipeline rin then length (in_ring rin) else length (concat (in_queues rin))"
  have "took env dp m ?n ss (if in_pipeline rin then from_ring env dp io (in_ring rin) ss else from_queues env dp io (in_queues rin) ss)"
    using bursts_ok(1) [OF assms(1)] queues_ok [OF assms(1)] by simp
  from took_trans [OF this, of "length (in_redirect rin)" "from_workers env dp io (in_redirect rin)"] bursts_ok(3)
  obtain s2 where s2: "(case if in_pipeline rin then from_ring env dp io (in_ring rin) ss else from_queues env dp io (in_queues rin) ss of
      None \<Rightarrow> None | Some ss' \<Rightarrow> from_workers env dp io (in_redirect rin) ss') = Some s2"
    "loop_ok env dp m s2" "held (snd s2) = held (snd ss) + (?n + length (in_redirect rin))"
    "w_now_tick (wl_w (snd s2)) = w_now_tick (wl_w (snd ss))" "wl_loops (snd s2) = wl_loops (snd ss)"
    by (auto simp: took_def)
  have "loop_ok env dp m (fst s2, snd s2)" "w_now_tick (wl_w (snd s2)) \<le> clock_tick rin" using s2(2,4) assms(2) by simp_all
  from end_of_round_ok [OF this] obtain s3 where s3: "end_of_round env io rin (snd s2) = Some s3" "held s3 = held (snd s2)" "tb_pkts (wl_tx s3) = []"
    "wheel_reaches dp (wl_w s3) \<longrightarrow> loop_ok env dp m (fst s2, s3)" "wl_loops (snd s2) + 1 AND 1023 \<noteq> 0 \<longrightarrow> loop_ok env dp m (fst s2, s3)"
    by blast
  have "worker_round env dp io rin ss = Some (fst s2, s3)"
    using s2(1) s3(1) unfolding worker_round_def by (cases s2) (auto simp: bind_eq_Some_conv split: option.splits)
  then show ?thesis using s2 s3 by simp
qed

end

section \<open>The properties\<close>


definition work_loop :: "(five_tuple, nat) bounded_hash wloop" where
  "work_loop = \<lparr>wl_w = work_worker, wl_tx = tx_buffer_zero, wl_events = [], wl_passed = [], wl_offers = 0, wl_freed = [], wl_now_ms = 0,
     wl_loops = 0, wl_busy = busy_meter_zero\<rparr>"

definition work_io :: wio where
  "work_io = \<lparr>io_room = \<lambda>_. 64, io_ring = \<lambda>_. True, io_present = \<lambda>_. True\<rparr>"

definition work_in :: round_in where
  "work_in = \<lparr>in_pipeline = False, in_ring = [], in_queues = [[(demo_mbuf, 0)], []], in_redirect = [], in_busy_tsc = 0, in_tsc = 0,
     in_start_tsc = 0, in_tsc_hz = 1\<rparr>"


end
