(* ===== verification/Master_Out.thy ===== *)
theory Master_Out
  imports Worker
begin

text \<open>
  The packets that the master thread sends, from \<^verbatim>\<open>src/dataplane/master.cpp\<close>: ARP requests and announcements.

  \<open>ma_neigh\<close> is the neighbour table of \<^verbatim>\<open>g_dp\<close>, which the master alone writes. What happens outside is an
  argument: \<open>mi_alloc n\<close> is the buffer that the \<open>n\<close>-th call of \<^verbatim>\<open>rte_pktmbuf_alloc\<close> returns, \<open>mi_room\<close> what the
  transmit queue takes. A buffer that cannot be filled is freed, which leaves no trace in the state.
\<close>

record mio =
  mi_room :: "nat \<Rightarrow> nat"
  mi_alloc :: "nat \<Rightarrow> mbuf option"

record 'n master =
  ma_neigh :: "'n neigh"
  ma_tx :: tx_buffer
  ma_stats :: worker_stats
  ma_now_tick :: u64
  ma_now_ms :: u64
  ma_allocs :: nat

definition master_tx_add :: "('h, 'n) lb_env \<Rightarrow> mio \<Rightarrow> mbuf \<Rightarrow> 'n master \<Rightarrow> 'n master" where
  "master_tx_add env io m s =
     (let (b, st) = tx_buffer_add env (mi_room io) m (ma_tx s, ma_stats s) in s\<lparr>ma_tx := b, ma_stats := st\<rparr>)"

text \<open>A buffer from the pool with \<open>len\<close> bytes appended, which \<open>f\<close> fills.\<close>

definition send_new :: "('h, 'n) lb_env \<Rightarrow> mio \<Rightarrow> nat \<Rightarrow> (bytes \<Rightarrow> bytes) \<Rightarrow> 'n master \<Rightarrow> 'n master \<times> bool" where
  "send_new env io len f s =
     (let s' = s\<lparr>ma_allocs := ma_allocs s + 1\<rparr> in
      case mi_alloc io (ma_allocs s) of
        None \<Rightarrow> (s', False)
      | Some m \<Rightarrow>
          (case pktmbuf_append (env_mbuf env) m len of
             None \<Rightarrow> (s', False)
           | Some m' \<Rightarrow>
               let old = length (mb_data m)
               in (master_tx_add env io (m'\<lparr>mb_data := take old (mb_data m') @ f (drop old (mb_data m'))\<rparr>) s', True)))"

definition arp_src_ip :: "lb_config \<Rightarrow> ipv4_addr" where
  "arp_src_ip c =
     (if lb_local_ips c \<noteq> [] then lb_local_ips c ! 0
      else if lb_hc_src c \<noteq> 0 then lb_hc_src c
      else sc_vip (lb_services c ! 0))"

definition send_arp :: "('h, 'n) lb_env \<Rightarrow> 'n dataplane \<Rightarrow> mio \<Rightarrow> ipv4_addr \<Rightarrow> bool \<Rightarrow> 'n master \<Rightarrow> 'n master" where
  "send_arp env dp io tgt gratuitous s =
     fst (send_new env io 42
       (\<lambda>buf. fst (if gratuitous then build_gratuitous tgt (dp_local_mac dp) buf
                   else build_request tgt (arp_src_ip (dp_cfg dp)) (dp_local_mac dp) buf)) s)"

definition master_request_neigh :: "('h, 'n) lb_env \<Rightarrow> 'n dataplane \<Rightarrow> mio \<Rightarrow> ipv4_addr \<Rightarrow> 'n master \<Rightarrow> 'n master" where
  "master_request_neigh env dp io ip s =
     (if ip = 0 then s
      else let (nb, want) = want_request ip (ma_now_tick s) (ma_neigh s); s = s\<lparr>ma_neigh := nb\<rparr>
           in if want then send_arp env dp io ip False s else s)"

definition garp_addrs :: "snapshot \<Rightarrow> ipv4_addr list" where
  "garp_addrs snap =
     (let addrs = map sv_vip (snap_services snap) @ snap_local_ips snap @ (if snap_hc_src snap \<noteq> 0 then [snap_hc_src snap] else [])
      in remdups_adj (sort addrs))"

definition send_garp :: "('h, 'n) lb_env \<Rightarrow> 'n dataplane \<Rightarrow> mio \<Rightarrow> snapshot \<Rightarrow> 'n master \<Rightarrow> 'n master" where
  "send_garp env dp io snap s = fold (\<lambda>ip. send_arp env dp io ip True) (garp_addrs snap) s"

definition preresolve_one :: "('h, 'n) lb_env \<Rightarrow> 'n dataplane \<Rightarrow> mio \<Rightarrow> ipv4_addr \<Rightarrow> 'n master \<Rightarrow> 'n master" where
  "preresolve_one env dp io ip s =
     (if ip \<noteq> 0 \<and> neigh_lookup (env_neigh env) (ma_neigh s) ip = None then master_request_neigh env dp io ip s else s)"

definition preresolve :: "('h, 'n) lb_env \<Rightarrow> 'n dataplane \<Rightarrow> mio \<Rightarrow> snapshot \<Rightarrow> 'n master \<Rightarrow> 'n master" where
  "preresolve env dp io snap s =
     fold (\<lambda>rs s. if mac_is_zero (rst_mac rs) then preresolve_one env dp io (next_hop (dp_route dp) (rst_ip rs)) s else s)
       (snap_rs_pool snap) (preresolve_one env dp io (rt_gateway (dp_route dp)) s)"

section \<open>What is sent\<close>

lemma remdups_adj_sorted_distinct: "sorted xs \<Longrightarrow> distinct (remdups_adj xs)"
  by (induction xs rule: remdups_adj.induct) (auto simp: order.antisym)

text \<open>Every address of the balancer is announced exactly once.\<close>

lemma garp_addrs_exact:
  "distinct (garp_addrs snap)"
  "set (garp_addrs snap) = sv_vip ` set (snap_services snap) \<union> set (snap_local_ips snap) \<union> ({snap_hc_src snap} - {0})"
  by (auto simp: garp_addrs_def Let_def remdups_adj_sorted_distinct)

text \<open>Sending does not touch the neighbour table, and an address that is resolved is not asked for again.\<close>

lemma master_tx_add_neigh [simp]: "ma_neigh (master_tx_add env io m s) = ma_neigh s"
  by (simp add: master_tx_add_def case_prod_beta)

lemma send_arp_neigh [simp]: "ma_neigh (send_arp env dp io tgt g s) = ma_neigh s"
  by (simp add: send_arp_def send_new_def Let_def split: option.splits)

lemma send_garp_neigh: "ma_neigh (send_garp env dp io snap s) = ma_neigh s"
proof -
  have "ma_neigh (fold (\<lambda>ip. send_arp env dp io ip True) ips s) = ma_neigh s" for ips by (induction ips arbitrary: s) simp_all
  then show ?thesis by (simp add: send_garp_def)
qed

lemma preresolve_one_resolved: "ip = 0 \<or> neigh_lookup (env_neigh env) (ma_neigh s) ip \<noteq> None \<Longrightarrow> preresolve_one env dp io ip s = s"
  by (auto simp: preresolve_one_def)

lemma preresolve_resolved:
  assumes "\<And>ip. ip = rt_gateway (dp_route dp) \<or> (\<exists>rs\<in>set (snap_rs_pool snap). mac_is_zero (rst_mac rs) \<and> ip = next_hop (dp_route dp) (rst_ip rs)) \<Longrightarrow>
    ip = 0 \<or> neigh_lookup (env_neigh env) (ma_neigh s) ip \<noteq> None"
  shows "preresolve env dp io snap s = s"
proof -
  have "fold (\<lambda>rs s. if mac_is_zero (rst_mac rs) then preresolve_one env dp io (next_hop (dp_route dp) (rst_ip rs)) s else s) rss s = s"
    if "set rss \<subseteq> set (snap_rs_pool snap)" for rss
    using that
  proof (induction rss)
    case (Cons rs rss)
    then have "preresolve_one env dp io (next_hop (dp_route dp) (rst_ip rs)) s = s" if "mac_is_zero (rst_mac rs)"
      using that by (intro preresolve_one_resolved assms) auto
    then show ?case using Cons by simp
  qed simp
  moreover have "preresolve_one env dp io (rt_gateway (dp_route dp)) s = s" by (intro preresolve_one_resolved assms) simp
  ultimately show ?thesis by (simp add: preresolve_def)
qed

end
