(* ===== verification/Spec2Isabelle.thy ===== *)
theory Spec2Isabelle
  imports Served Control_Props Receiver_Props Worker_Props Master_Out
begin

text \<open>
  Verification of \<^verbatim>\<open>l4lb\<close>, a layer 4 load balancer on DPDK. Paths are relative to \<^verbatim>\<open>src/\<close>.

  \<^bold>\<open>The program.\<close> Clients send TCP and UDP packets to service addresses. A worker (\<^verbatim>\<open>src/dataplane/worker.cpp\<close>) takes
  packets from the card or, in pipeline mode, from a receiver (\<^verbatim>\<open>src/dataplane/receiver.cpp\<close>) that distributes them.
  Packet processing (\<^verbatim>\<open>src/core/processor.cpp\<close>) parses a packet, finds or opens its session, picks a real server and
  rewrites the packet: addresses and ports in FULLNAT mode, only the hardware addresses in DR mode. Every flow has one
  owning worker (\<^verbatim>\<open>src/dataplane/steering.cpp\<close>); a packet that arrives elsewhere is passed on once. The services are read
  from a file (\<^verbatim>\<open>src/common/config.cpp\<close>), kept by a manager and published as read-only snapshots
  (\<^verbatim>\<open>src/ctrl/snapshot.cpp\<close>); commands on a socket change them (\<^verbatim>\<open>src/ctrl/control.cpp\<close>). The master thread
  (\<^verbatim>\<open>src/dataplane/master.cpp\<close>) keeps the neighbour table (\<^verbatim>\<open>src/net/neigh.cpp\<close>) and sends ARP.

  \<^bold>\<open>Theories.\<close>
  \<^item> \<open>Prelude\<close>, \<open>Net_Types\<close>: machine integers, byte order, loads and stores; five-tuples, metadata, configuration records
    (\<^verbatim>\<open>include/common/types.h\<close>, \<^verbatim>\<open>config.h\<close>) and the route (\<^verbatim>\<open>include/net/route.h\<close>).
  \<^item> \<open>Dpdk_Hash\<close>: \<^verbatim>\<open>rte_hash\<close> as a record of operations, with its documented laws as a locale.
  \<^item> \<open>Tcp_State\<close>: \<^verbatim>\<open>src/lb/tcp_state.cpp\<close>. The state is determined by the history of the connection.
  \<^item> \<open>Session_Table\<close>, \<open>Wheel_Lists\<close>, \<open>Session_Inv\<close>, \<open>Session_Expire\<close>, \<open>Session_Props\<close>, \<open>Session_Map\<close>: \<^verbatim>\<open>src/lb/session.cpp\<close>. The
    wheel, the free stack and the hash agree after every operation; expiry ends and removes what is due; the table
    refines a map from session numbers to sessions.
  \<^item> \<open>Scheduler\<close>, \<open>Maglev\<close>: \<^verbatim>\<open>src/lb/scheduler.cpp\<close>. Shares of the two methods, and that a pick is a server of positive weight.
  \<^item> \<open>Packet\<close>, \<open>Checksum\<close>, \<open>Parser\<close>: the headers, \<^verbatim>\<open>src/protocol/\<close>. A parsed packet lies inside its frame; the
    incremental checksum is the full one.
  \<^item> \<open>Nat_Forwarder\<close>, \<open>Tcp_Options\<close>, \<open>Nat_Props\<close>: \<^verbatim>\<open>src/forward/nat_forwarder.cpp\<close>. Addresses, ports, options, payload and
    checksums of a rewritten packet, with and without offload.
  \<^item> \<open>Open_Table\<close>, \<open>Snapshot\<close>, \<open>Snapshot_Props\<close>, \<open>Snapshot_Runs\<close>: \<^verbatim>\<open>src/ctrl/snapshot.cpp\<close>. Publishing succeeds, and a
    published snapshot shows what the manager holds.
  \<^item> \<open>Steering\<close>, \<open>Neigh\<close>, \<open>Neigh_Props\<close>, \<open>Stats\<close>: owners of flows, the neighbour table, the counters.
  \<^item> \<open>Processor\<close>: \<^verbatim>\<open>src/core/processor.cpp\<close>, one definition per handler. \<open>Processor_Inv\<close> holds the invariant and the locale
    \<open>balancer\<close>; \<open>Processor_Steps\<close>, \<open>Fullnat\<close>, \<open>New_Session\<close>, \<open>Inbound\<close>, \<open>Outbound\<close>, \<open>First_Packet\<close> show that every handler
    returns and keeps it; \<open>Processor_Demo\<close> is a concrete balancer; \<open>Processor_Props\<close> has the end-to-end properties.
  \<^item> \<open>C_Text\<close>, \<open>Config\<close>, \<open>Config_Props\<close>, \<open>Served\<close>: \<^verbatim>\<open>src/common/config.cpp\<close>, \<^verbatim>\<open>types.cpp\<close>. What a loaded
    configuration satisfies, and that a configured service is served.
  \<^item> \<open>Control\<close>, \<open>Control_Props\<close>: \<^verbatim>\<open>src/ctrl/control.cpp\<close>. Commands end and are published; an error changes nothing.
  \<^item> \<open>Receiver\<close>, \<open>Receiver_Props\<close>: the distribution of a burst, and that receiver and workers agree on owners.
  \<^item> \<open>Worker\<close>, \<open>Worker_Clock\<close>, \<open>Worker_Props\<close>: a round of the worker loop ends, keeps the invariant and accounts for the
    number of packets.
  \<^item> \<open>Master_Out\<close>: the ARP packets of the master thread.

  \<^bold>\<open>State and outside world.\<close> Classes and structures are records, handlers pass them explicitly, and a packet is the list
  of its bytes. Code of DPDK is an argument: hash tables, hash functions, buffer operations, the Toeplitz hash. Its
  documented behaviour is stated by the locales \<open>rte_hash\<close> and \<open>pktmbuf\<close>, which reference instances satisfy. The room of a
  ring or a transmit queue and the clock are arguments as well, so that the theorems hold for all of them.

  \<^bold>\<open>Loops and bounds.\<close> Loops without a bound in the code (probing a table, filling the Maglev table, draining a slot of
  the wheel) are partial functions, \<open>None\<close> when they do not end; that they end is proved. No fuel is used. \<open>None\<close> also
  stands for undefined behaviour on the packet path. Counters, clocks in milliseconds and wire data are words that wrap.
  Ticks, indices and sums that stay far below their width are natural numbers.

  \<^bold>\<open>Assumptions to know of.\<close> The packet path is proved for timeouts that the wheel reaches (\<open>in_horizon\<close>); beyond a turn of
  the wheel a session can be lost, which is a theorem too. It is proved for ids of real servers that have a counter;
  that others can be given out is a theorem. Packets to 0.0.0.0 are excluded where the address tables are read, since a
  free slot of these tables holds 0.

  \<^bold>\<open>Not modelled.\<close> The probes of \<^verbatim>\<open>src/ctrl/healthcheck.cpp\<close>: their reports are arbitrary input of \<open>drain_health\<close>. The event
  queue, the timers and the loop of the master. The text of the reports of \<^verbatim>\<open>worker.cpp\<close>. Start-up
  (\<^verbatim>\<open>src/main.cpp\<close>, \<^verbatim>\<open>src/dataplane/port.cpp\<close>), the logger, sockets and threads, which are calls of the system. RCU
  grace periods and memory ordering: threads are modelled one at a time, and a snapshot stays alive while it is used.
\<close>

end
